(* ===== verification/Ldal_Prelude.thy ===== *)
theory Ldal_Prelude
  imports Main "HOL-Library.Word"
begin

unbundle bit_operations_syntax

text \<open>
  Vocabulary shared by every component of the development: the ways a C function of this
  program can stop abnormally, the machine types, the LDAL error codes of \<open>inc/ldal.h\<close>,
  and bounds-checked copies between buffers.
\<close>

section \<open>Abnormal termination\<close>

text \<open>
  A failed \<open>assert\<close> aborts the process; a loop or a lock may never return; the other faults are
  undefined behaviour of C (a buffer overrun, a null dereference or a call through a null function
  pointer, the use of freed memory). A function that can do one of these returns \<open>Inl\<close> of the fault, and
  \<open>Inr\<close> of its result otherwise, so that the absence of faults is something to prove.
\<close>

datatype fault =
    Assertion_Failed
  | Out_Of_Bounds
  | Null_Pointer
  | Use_After_Free
  | Bad_Cast      \<comment> \<open>an object used as a structure it is not\<close>
  | Int_Overflow  \<comment> \<open>signed arithmetic or \<open>atoi\<close> out of range\<close>
  | Invalid_Free  \<comment> \<open>\<open>free\<close> of memory that is not from the heap\<close>
  | Indeterminate \<comment> \<open>a value is used that was never written\<close>
  | Exits int     \<comment> \<open>a call of \<open>exit\<close> with this status\<close>
  | Diverges      \<comment> \<open>a loop or a lock that never returns\<close>

type_synonym 'a result = "fault + 'a"

fun bind_res :: "'a result \<Rightarrow> ('a \<Rightarrow> 'b result) \<Rightarrow> 'b result" where
  "bind_res (Inl f) k = Inl f"
| "bind_res (Inr x) k = k x"

definition c_assert :: "bool \<Rightarrow> 'a result \<Rightarrow> 'a result" where
  "c_assert b k = (if b then k else Inl Assertion_Failed)"

lemma bind_res_Inr_iff [simp]:
  "bind_res m k = Inr y \<longleftrightarrow> (\<exists>x. m = Inr x \<and> k x = Inr y)"
  by (cases m) auto

lemma bind_res_cong: "m = m' \<Longrightarrow> (\<And>x. k x = k' x) \<Longrightarrow> bind_res m k = bind_res m' k'"
  by (cases m) auto

lemma bind_res_assoc: "bind_res (bind_res m k) h = bind_res m (\<lambda>x. bind_res (k x) h)"
  by (cases m) auto

lemma c_assert_simps [simp]:
  "c_assert True k = k"
  "c_assert False k = Inl Assertion_Failed"
  by (simp_all add: c_assert_def)

lemma c_assert_Inr_iff [simp]: "c_assert b k = Inr y \<longleftrightarrow> b \<and> k = Inr y"
  by (simp add: c_assert_def)

text \<open>A pointer to a heap object that a function may free while others keep the pointer.\<close>

datatype 'a ptr = Null | Freed | Obj 'a

definition deref :: "'a ptr \<Rightarrow> 'a result" where
  "deref p = (case p of Null \<Rightarrow> Inl Null_Pointer | Freed \<Rightarrow> Inl Use_After_Free | Obj x \<Rightarrow> Inr x)"

lemma deref_simps [simp]:
  "deref Null = Inl Null_Pointer" "deref Freed = Inl Use_After_Free" "deref (Obj x) = Inr x"
  by (simp_all add: deref_def)

section \<open>Machine types\<close>

type_synonym byte = "8 word"
type_synonym u16 = "16 word"
type_synonym u32 = "32 word"
type_synonym size_t = "64 word"

section \<open>Collections of facts\<close>

named_theorems ring_view \<open>facts that turn ring-buffer words into natural numbers\<close>
named_theorems dev_frame \<open>fields of a device an operation leaves alone\<close>

section \<open>LDAL error codes\<close>

definition LDAL_EOK :: int where "LDAL_EOK = 0"
definition LDAL_ERROR :: int where "LDAL_ERROR = 1"
definition LDAL_ETIMEOUT :: int where "LDAL_ETIMEOUT = 2"
definition LDAL_ENOMEM :: int where "LDAL_ENOMEM = 5"
definition LDAL_EBUSY :: int where "LDAL_EBUSY = 7"
definition LDAL_EINVAL :: int where "LDAL_EINVAL = 10"

lemmas ldal_codes [simp] =
  LDAL_EOK_def LDAL_ERROR_def LDAL_ETIMEOUT_def LDAL_ENOMEM_def LDAL_EBUSY_def LDAL_EINVAL_def

section \<open>Copies between buffers\<close>

text \<open>
  \<open>memcpy dst d src s n\<close> is C's \<open>memcpy(&dst[d], &src[s], n)\<close> on two distinct objects.
  The lengths are integers: a negative one is a huge \<open>size_t\<close> and overruns.
\<close>

definition memcpy :: "'a list \<Rightarrow> int \<Rightarrow> 'a list \<Rightarrow> int \<Rightarrow> int \<Rightarrow> 'a list result" where
  "memcpy dst d src s n =
     (if 0 \<le> d \<and> 0 \<le> s \<and> 0 \<le> n \<and> d + n \<le> int (length dst) \<and> s + n \<le> int (length src)
      then Inr (take (nat d) dst @ take (nat n) (drop (nat s) src) @ drop (nat d + nat n) dst)
      else Inl Out_Of_Bounds)"

lemma memcpy_nat:
  "d + n \<le> length dst \<Longrightarrow> s + n \<le> length src \<Longrightarrow>
     memcpy dst (int d) src (int s) (int n) =
       Inr (take d dst @ take n (drop s src) @ drop (d + n) dst)"
  by (simp add: memcpy_def)

lemma memcpy_length: "memcpy dst d src s n = Inr dst' \<Longrightarrow> length dst' = length dst"
  by (auto simp: memcpy_def split: if_splits)

lemma memcpy_none [simp]:
  "0 \<le> d \<Longrightarrow> d \<le> int (length dst) \<Longrightarrow> 0 \<le> s \<Longrightarrow> s \<le> int (length src) \<Longrightarrow>
     memcpy dst d src s 0 = Inr dst"
  by (simp add: memcpy_def)

section \<open>Lists\<close>

lemma take_drop_append_cancel:
  "i \<le> j \<Longrightarrow> take (j - i) (drop i xs) @ drop j xs = drop i xs"
  by (metis append_take_drop_id drop_drop le_add_diff_inverse2)

lemma take_add_drop: "take (i + n) xs = take i xs @ take n (drop i xs)"
  by (simp add: take_add)

section \<open>Words\<close>

lemma word_of_int_uint_small:
  "0 \<le> n \<Longrightarrow> n < 2 ^ LENGTH('a::len) \<Longrightarrow> uint (word_of_int n :: 'a word) = n"
  by (simp add: uint_word_of_int_eq take_bit_int_eq_self)

lemma word_of_nat_unat_small:
  "n < 2 ^ LENGTH('a::len) \<Longrightarrow> unat (word_of_nat n :: 'a word) = n"
  by (simp add: unat_of_nat take_bit_nat_eq_self)

lemma ucast_word_of_nat:
  "n < 2 ^ LENGTH('a::len) \<Longrightarrow>
     (ucast (word_of_nat n :: 'a word) :: 'b::len word) = word_of_nat n"
  by (metis of_nat_unat word_of_nat_unat_small)

lemma uint_word_of_nat_small:
  "n < 2 ^ LENGTH('a::len) \<Longrightarrow> uint (word_of_nat n :: 'a word) = int n"
  by (metis uint_nat word_of_nat_unat_small)

lemma unat_ucast_up [simp]:
  assumes "LENGTH('a::len) \<le> LENGTH('b::len)"
  shows "unat (ucast (w :: 'a word) :: 'b word) = unat w"
proof -
  have "unat w < 2 ^ LENGTH('a)" by (rule unsigned_less)
  also have "(2::nat) ^ LENGTH('a) \<le> 2 ^ LENGTH('b)" using assms by simp
  finally show ?thesis by (metis of_nat_unat word_of_nat_unat_small)
qed

lemma ucast_down_up:
  assumes "LENGTH('a::len) \<le> LENGTH('b::len)"
  shows "(ucast (ucast w :: 'b word) :: 'a word) = w"
proof -
  have "(ucast (ucast w :: 'b word) :: 'a word) = word_of_nat (unat (ucast w :: 'b word))"
    by (simp only: of_nat_unat)
  also have "unat (ucast w :: 'b word) = unat w" using assms by (rule unat_ucast_up)
  finally show ?thesis by simp
qed

lemma sint_eq_unat:
  "sint (w :: 'a::len word) =
     (if unat w < 2 ^ (LENGTH('a) - 1) then int (unat w) else int (unat w) - 2 ^ LENGTH('a))"
proof -
  obtain n where n: "LENGTH('a) = Suc n" using len_gt_0 [where 'a = 'a] by (metis gr0_implies_Suc)
  define m where "m = unat w"
  have u: "uint w = int m" by (simp only: m_def uint_nat)
  have m: "m < 2 ^ Suc n" using unsigned_less [of w] by (simp add: m_def n)
  have q: "m div 2 ^ n < 2" using m by (simp add: less_mult_imp_div_less mult.commute)
  have "bit (int m) n \<longleftrightarrow> odd (m div 2 ^ n)"
  proof -
    have "int m div 2 ^ n = int (m div 2 ^ n)" by (simp add: zdiv_int)
    then show ?thesis by (simp only: bit_iff_odd even_of_nat)
  qed
  also have "\<dots> \<longleftrightarrow> \<not> m < 2 ^ n"
  proof (cases "m < 2 ^ n")
    case True
    then show ?thesis by simp
  next
    case False
    then have "1 \<le> m div 2 ^ n" by (simp add: Suc_le_eq div_greater_zero_iff)
    with q have "m div 2 ^ n = 1" by linarith
    with False show ?thesis by simp
  qed
  finally have b: "bit (int m) n \<longleftrightarrow> \<not> m < 2 ^ n" .
  have "take_bit (Suc n) (int m) = int m"
    by (intro take_bit_int_eq_self) (use m in \<open>simp_all only: of_nat_less_iff [symmetric, where 'a = int] of_nat_power of_nat_numeral of_nat_0_le_iff\<close>)
  then have "sint w = int m - 2 ^ Suc n * of_bool (\<not> m < 2 ^ n)"
    using b by (simp add: sint_uint n u signed_take_bit_eq_take_bit_minus)
  then show ?thesis by (simp add: n m_def)
qed

lemma word_of_int_int: "word_of_int (int n) = (word_of_nat n :: 'a::len word)"
  by simp

lemma bit1_flip [simp]: "NOT (NOT m) = (m :: 1 word)"
  by simp

lemma bit1_cases: "(m :: 1 word) = 0 \<or> m = 1"
proof -
  have "uint m < 2" using uint_lt2p [of m] by simp
  moreover have "0 \<le> uint m" by simp
  ultimately have "uint m = 0 \<or> uint m = 1" by arith
  then show ?thesis by (metis uint_0_eq uint_1_eq word_uint_eqI)
qed

lemma bit1_not_neq [simp]: "NOT m \<noteq> (m :: 1 word)" "m \<noteq> NOT m"
  using bit1_cases [of m] by auto

lemma bit1_neq_iff: "(a :: 1 word) \<noteq> b \<longleftrightarrow> a = NOT b"
  using bit1_cases [of a] bit1_cases [of b] by auto

end
