(* ===== verification/Byte_Queue.thy ===== *)
theory Byte_Queue
  imports Ldal_Prelude
begin

text \<open>
  The interface between the ring buffer and its client, the memory device class: a bounded queue
  of bytes with short writes and short reads. The client is a sequence of such calls; what it
  relies on is that the queue delivers what it accepted, in order, once, and never faults.
\<close>

section \<open>Sequences of calls\<close>

datatype qcall = Qput "byte list" | Qget nat

text \<open>
  \<open>run_calls put get q cs\<close> performs the calls; the result holds the bytes the queue accepted,
  the bytes it delivered and the queue that is left. A caller passes the whole of its data, or a
  buffer of the length it asks for.
\<close>

fun run_calls ::
    "('q \<Rightarrow> byte list \<Rightarrow> u16 \<Rightarrow> (size_t \<times> 'q) result) \<Rightarrow>
     ('q \<Rightarrow> byte list \<Rightarrow> u16 \<Rightarrow> (size_t \<times> byte list \<times> 'q) result) \<Rightarrow>
     'q \<Rightarrow> qcall list \<Rightarrow> (byte list \<times> byte list \<times> 'q) result" where
  "run_calls put get q [] = Inr ([], [], q)"
| "run_calls put get q (Qput data # cs) =
     bind_res (put q data (word_of_nat (length data))) (\<lambda>(n, q').
     bind_res (run_calls put get q' cs) (\<lambda>(ins, outs, q'').
     Inr (take (unat n) data @ ins, outs, q'')))"
| "run_calls put get q (Qget m # cs) =
     bind_res (get q (replicate m 0) (word_of_nat m)) (\<lambda>(n, buf, q').
     bind_res (run_calls put get q' cs) (\<lambda>(ins, outs, q'').
     Inr (ins, take (unat n) buf @ outs, q'')))"

text \<open>The calls whose lengths fit the \<open>uint16_t\<close> of the interface.\<close>

fun call_fits :: "qcall \<Rightarrow> bool" where
  "call_fits (Qput data) = (length data < 2 ^ 16)"
| "call_fits (Qget m) = (m < 2 ^ 16)"

section \<open>The contract\<close>

locale byte_queue =
  fixes invar :: "'q \<Rightarrow> bool"
    and elems :: "'q \<Rightarrow> byte list"
    and capacity :: "'q \<Rightarrow> nat"
    and put :: "'q \<Rightarrow> byte list \<Rightarrow> u16 \<Rightarrow> (size_t \<times> 'q) result"
    and get :: "'q \<Rightarrow> byte list \<Rightarrow> u16 \<Rightarrow> (size_t \<times> byte list \<times> 'q) result"
  assumes capacity_bound: "invar q \<Longrightarrow> capacity q < 2 ^ 15"
    and elems_bound: "invar q \<Longrightarrow> length (elems q) \<le> capacity q"
    and put_law: "invar q \<Longrightarrow> n = min (unat len) (capacity q - length (elems q)) \<Longrightarrow>
      n \<le> length data \<Longrightarrow>
      \<exists>q'. put q data len = Inr (word_of_nat n, q') \<and> invar q' \<and>
           capacity q' = capacity q \<and> elems q' = elems q @ take n data"
    and get_law: "invar q \<Longrightarrow> n = min (unat len) (length (elems q)) \<Longrightarrow> n \<le> length buf \<Longrightarrow>
      \<exists>q'. get q buf len = Inr (word_of_nat n, take n (elems q) @ drop n buf, q') \<and> invar q' \<and>
           capacity q' = capacity q \<and> elems q' = drop n (elems q)"
begin

lemma amount_size: "invar q \<Longrightarrow> n \<le> capacity q \<Longrightarrow> unat (word_of_nat n :: size_t) = n"
  using capacity_bound [of q] by (simp add: word_of_nat_unat_small)

lemma run_stream:
  assumes "invar q" "\<forall>c \<in> set cs. call_fits c"
  shows "\<exists>ins outs q'. run_calls put get q cs = Inr (ins, outs, q') \<and> invar q' \<and>
           capacity q' = capacity q \<and> elems q @ ins = outs @ elems q'"
  using assms
proof (induction cs arbitrary: q)
  case Nil
  then show ?case by simp
next
  case (Cons c cs)
  show ?case
  proof (cases c)
    case (Qput data)
    define n where "n = min (length data) (capacity q - length (elems q))"
    have len: "unat (word_of_nat (length data) :: u16) = length data"
      using Cons.prems Qput by (simp add: word_of_nat_unat_small)
    obtain q' where q': "put q data (word_of_nat (length data)) = Inr (word_of_nat n, q')"
      "invar q'" "capacity q' = capacity q" "elems q' = elems q @ take n data"
      using put_law [OF Cons.prems(1), of n "word_of_nat (length data)" data] len
      by (auto simp: n_def)
    have "unat (word_of_nat n :: size_t) = n"
      by (rule amount_size [OF Cons.prems(1)]) (simp add: n_def)
    with Cons.IH [of q'] Cons.prems q' Qput show ?thesis by fastforce
  next
    case (Qget m)
    define n where "n = min m (length (elems q))"
    have len: "unat (word_of_nat m :: u16) = m"
      using Cons.prems Qget by (simp add: word_of_nat_unat_small)
    obtain q' where q': "get q (replicate m 0) (word_of_nat m) =
        Inr (word_of_nat n, take n (elems q) @ drop n (replicate m 0), q')"
      "invar q'" "capacity q' = capacity q" "elems q' = drop n (elems q)"
      using get_law [OF Cons.prems(1), of n "word_of_nat m" "replicate m 0"] len
      by (auto simp: n_def)
    have "unat (word_of_nat n :: size_t) = n"
      by (rule amount_size [OF Cons.prems(1)])
        (use elems_bound [OF Cons.prems(1)] in \<open>simp add: n_def\<close>)
    moreover obtain ins outs q'' where "run_calls put get q' cs = Inr (ins, outs, q'')"
      "invar q''" "capacity q'' = capacity q" "drop n (elems q) @ ins = outs @ elems q''"
      using Cons.IH [of q'] Cons.prems q' by auto
    moreover have "elems q @ ins = take n (elems q) @ (drop n (elems q) @ ins)" by simp
    moreover have "n \<le> length (elems q)" by (simp add: n_def)
    ultimately show ?thesis using q'(1) Qget by simp
  qed
qed

end

end
