(* ===== verification/Ring_Buffer.thy ===== *)
theory Ring_Buffer
  imports Byte_Queue
begin

text \<open>
  The byte ring buffer of \<open>src/ringbuffer.c\<close>, with its index fields at the widths of
  \<open>struct dg_ringbuffer\<close>.
\<close>

section \<open>State\<close>

record dg_ringbuffer =
  buffer_ptr :: "byte list"
  read_mirror :: "1 word"
  read_index :: "15 word"
  write_mirror :: "1 word"
  write_index :: "15 word"
  buffer_size :: "16 word" \<comment> \<open>an \<open>int16_t\<close>: read with \<open>sint\<close>\<close>

datatype dg_ringbuffer_state = RB_EMPTY | RB_FULL | RB_HALFFULL

definition dg_ringbuffer_status :: "dg_ringbuffer \<Rightarrow> dg_ringbuffer_state" where
  "dg_ringbuffer_status rb =
     (if read_index rb = write_index rb
      then (if read_mirror rb = write_mirror rb then RB_EMPTY else RB_FULL)
      else RB_HALFFULL)"

text \<open>\<open>RT_ALIGN_DOWN(size, 4)\<close> is \<open>size & ~3\<close>.\<close>

definition align_down4 :: "u16 \<Rightarrow> u16" where
  "align_down4 sz = sz AND NOT 3"

section \<open>Operations\<close>

definition dg_ringbuffer_init :: "byte list \<Rightarrow> u16 \<Rightarrow> dg_ringbuffer result" where
  "dg_ringbuffer_init pool sz =
     c_assert (0 < sint sz)
       (Inr \<lparr>buffer_ptr = pool, read_mirror = 0, read_index = 0,
             write_mirror = 0, write_index = 0, buffer_size = align_down4 sz\<rparr>)"

text \<open>The arguments \<open>m1\<close> and \<open>m2\<close> say whether the two calls of \<open>malloc\<close> succeed.\<close>

definition dg_ringbuffer_create ::
    "bool \<Rightarrow> bool \<Rightarrow> u16 \<Rightarrow> dg_ringbuffer option result" where
  "dg_ringbuffer_create m1 m2 sz =
     c_assert (0 < sz)
       (let sz = align_down4 sz in
        if \<not> m1 then Inr None
        else if \<not> m2 then Inr None
        else bind_res (dg_ringbuffer_init (replicate (unat sz) 0) sz) (\<lambda>rb. Inr (Some rb)))"

definition dg_ringbuffer_destroy :: "dg_ringbuffer ptr \<Rightarrow> dg_ringbuffer ptr result" where
  "dg_ringbuffer_destroy p =
     c_assert (p \<noteq> Null) (bind_res (deref p) (\<lambda>_. Inr Freed))"

definition dg_ringbuffer_reset :: "dg_ringbuffer \<Rightarrow> dg_ringbuffer" where
  "dg_ringbuffer_reset rb =
     rb\<lparr>read_mirror := 0, read_index := 0, write_mirror := 0, write_index := 0\<rparr>"

definition dg_ringbuffer_data_len :: "dg_ringbuffer \<Rightarrow> size_t" where
  "dg_ringbuffer_data_len rb =
     (case dg_ringbuffer_status rb of
        RB_EMPTY \<Rightarrow> 0
      | RB_FULL \<Rightarrow> word_of_int (sint (buffer_size rb))
      | RB_HALFFULL \<Rightarrow>
          if write_index rb > read_index rb
          then word_of_int (uint (write_index rb) - uint (read_index rb))
          else word_of_int (sint (buffer_size rb) -
                 (uint (read_index rb) - uint (write_index rb))))"

definition dg_ringbuffer_space_len :: "dg_ringbuffer \<Rightarrow> size_t" where
  "dg_ringbuffer_space_len rb = word_of_int (sint (buffer_size rb)) - dg_ringbuffer_data_len rb"

definition dg_ringbuffer_get_size :: "dg_ringbuffer \<Rightarrow> u16" where
  "dg_ringbuffer_get_size rb = buffer_size rb"

definition dg_ringbuffer_put ::
    "dg_ringbuffer \<Rightarrow> byte list \<Rightarrow> u16 \<Rightarrow> (size_t \<times> dg_ringbuffer) result" where
  "dg_ringbuffer_put rb ptr len =
     (let sz = (ucast (dg_ringbuffer_space_len rb) :: u16) in
      if sz = 0 then Inr (0, rb)
      else
        let len = (if sz < len then sz else len);
            room = sint (buffer_size rb) - uint (write_index rb)
        in
        if room > uint len
        then
          bind_res (memcpy (buffer_ptr rb) (uint (write_index rb)) ptr 0 (uint len)) (\<lambda>pool.
          Inr (ucast len,
               rb\<lparr>buffer_ptr := pool,
                  write_index := word_of_int (uint (write_index rb) + uint len)\<rparr>))
        else
          bind_res (memcpy (buffer_ptr rb) (uint (write_index rb)) ptr 0 room) (\<lambda>pool.
          bind_res (memcpy pool 0 ptr room (uint len - room)) (\<lambda>pool.
          Inr (ucast len,
               rb\<lparr>buffer_ptr := pool,
                  write_mirror := NOT (write_mirror rb),
                  write_index := word_of_int (uint len - room)\<rparr>))))"

definition dg_ringbuffer_put_force ::
    "dg_ringbuffer \<Rightarrow> byte list \<Rightarrow> u16 \<Rightarrow> (size_t \<times> dg_ringbuffer) result" where
  "dg_ringbuffer_put_force rb ptr len =
     (let space_length = (ucast (dg_ringbuffer_space_len rb) :: u16);
          over = uint len > sint (buffer_size rb);
          off = (if over then uint len - sint (buffer_size rb) else 0);
          len = (if over then word_of_int (sint (buffer_size rb)) else len);
          room = sint (buffer_size rb) - uint (write_index rb)
      in
      if room > uint len
      then
        bind_res (memcpy (buffer_ptr rb) (uint (write_index rb)) ptr off (uint len)) (\<lambda>pool.
        let wi = word_of_int (uint (write_index rb) + uint len) in
        Inr (ucast len,
             rb\<lparr>buffer_ptr := pool, write_index := wi,
                read_index := (if len > space_length then wi else read_index rb)\<rparr>))
      else
        bind_res (memcpy (buffer_ptr rb) (uint (write_index rb)) ptr off room) (\<lambda>pool.
        bind_res (memcpy pool 0 ptr (off + room) (uint len - room)) (\<lambda>pool.
        let wi = word_of_int (uint len - room) in
        Inr (ucast len,
             rb\<lparr>buffer_ptr := pool,
                write_mirror := NOT (write_mirror rb), write_index := wi,
                read_mirror :=
                  (if len > space_length then NOT (read_mirror rb) else read_mirror rb),
                read_index := (if len > space_length then wi else read_index rb)\<rparr>))))"

definition dg_ringbuffer_get ::
    "dg_ringbuffer \<Rightarrow> byte list \<Rightarrow> u16 \<Rightarrow> (size_t \<times> byte list \<times> dg_ringbuffer) result" where
  "dg_ringbuffer_get rb ptr len =
     (let sz = dg_ringbuffer_data_len rb in
      if sz = 0 then Inr (0, ptr, rb)
      else
        let len = (if sz < ucast len then ucast sz else len);
            room = sint (buffer_size rb) - uint (read_index rb)
        in
        if room > uint len
        then
          bind_res (memcpy ptr 0 (buffer_ptr rb) (uint (read_index rb)) (uint len)) (\<lambda>ptr.
          Inr (ucast len, ptr,
               rb\<lparr>read_index := word_of_int (uint (read_index rb) + uint len)\<rparr>))
        else
          bind_res (memcpy ptr 0 (buffer_ptr rb) (uint (read_index rb)) room) (\<lambda>ptr.
          bind_res (memcpy ptr room (buffer_ptr rb) 0 (uint len - room)) (\<lambda>ptr.
          Inr (ucast len, ptr,
               rb\<lparr>read_mirror := NOT (read_mirror rb),
                  read_index := word_of_int (uint len - room)\<rparr>))))"

text \<open>\<open>*ptr\<close> is \<open>None\<close> for \<open>NULL\<close> and \<open>Some i\<close> for \<open>&buffer_ptr[i]\<close>.\<close>

definition dg_ringbuffer_peak ::
    "dg_ringbuffer \<Rightarrow> size_t \<times> nat option \<times> dg_ringbuffer" where
  "dg_ringbuffer_peak rb =
     (let sz = dg_ringbuffer_data_len rb in
      if sz = 0 then (0, None, rb)
      else
        let ptr = Some (unat (read_index rb));
            room = word_of_int (sint (buffer_size rb) - uint (read_index rb)) :: size_t
        in
        if room > sz
        then (sz, ptr,
              rb\<lparr>read_index := word_of_int (uint (read_index rb) + uint sz)\<rparr>)
        else (room, ptr,
              rb\<lparr>read_mirror := NOT (read_mirror rb), read_index := 0\<rparr>))"

definition store_char :: "byte list \<Rightarrow> nat \<Rightarrow> byte \<Rightarrow> byte list result" where
  "store_char xs i b = (if i < length xs then Inr (xs[i := b]) else Inl Out_Of_Bounds)"

definition dg_ringbuffer_putchar ::
    "dg_ringbuffer \<Rightarrow> byte \<Rightarrow> (size_t \<times> dg_ringbuffer) result" where
  "dg_ringbuffer_putchar rb ch =
     (if dg_ringbuffer_space_len rb = 0 then Inr (0, rb)
      else
        bind_res (store_char (buffer_ptr rb) (unat (write_index rb)) ch) (\<lambda>pool.
        let rb = rb\<lparr>buffer_ptr := pool\<rparr> in
        if uint (write_index rb) = sint (buffer_size rb) - 1
        then Inr (1, rb\<lparr>write_mirror := NOT (write_mirror rb), write_index := 0\<rparr>)
        else Inr (1, rb\<lparr>write_index := write_index rb + 1\<rparr>)))"

definition dg_ringbuffer_putchar_force ::
    "dg_ringbuffer \<Rightarrow> byte \<Rightarrow> (size_t \<times> dg_ringbuffer) result" where
  "dg_ringbuffer_putchar_force rb ch =
     (let old_state = dg_ringbuffer_status rb in
      bind_res (store_char (buffer_ptr rb) (unat (write_index rb)) ch) (\<lambda>pool.
      let rb = rb\<lparr>buffer_ptr := pool\<rparr> in
      if uint (write_index rb) = sint (buffer_size rb) - 1
      then
        let rb = rb\<lparr>write_mirror := NOT (write_mirror rb), write_index := 0\<rparr> in
        Inr (1, if old_state = RB_FULL
                then rb\<lparr>read_mirror := NOT (read_mirror rb), read_index := write_index rb\<rparr>
                else rb)
      else
        let rb = rb\<lparr>write_index := write_index rb + 1\<rparr> in
        Inr (1, if old_state = RB_FULL then rb\<lparr>read_index := write_index rb\<rparr> else rb)))"

definition dg_ringbuffer_getchar ::
    "dg_ringbuffer \<Rightarrow> (size_t \<times> byte option \<times> dg_ringbuffer) result" where
  "dg_ringbuffer_getchar rb =
     (if dg_ringbuffer_data_len rb = 0 then Inr (0, None, rb)
      else if unat (read_index rb) < length (buffer_ptr rb)
      then
        let ch = Some (buffer_ptr rb ! unat (read_index rb)) in
        if uint (read_index rb) = sint (buffer_size rb) - 1
        then Inr (1, ch, rb\<lparr>read_mirror := NOT (read_mirror rb), read_index := 0\<rparr>)
        else Inr (1, ch, rb\<lparr>read_index := read_index rb + 1\<rparr>)
      else Inl Out_Of_Bounds)"

section \<open>Reading the state as natural numbers\<close>

definition cap :: "dg_ringbuffer \<Rightarrow> nat" where
  "cap rb = nat (sint (buffer_size rb))"

definition ridx :: "dg_ringbuffer \<Rightarrow> nat" where
  "ridx rb = unat (read_index rb)"

definition widx :: "dg_ringbuffer \<Rightarrow> nat" where
  "widx rb = unat (write_index rb)"

definition same_side :: "dg_ringbuffer \<Rightarrow> bool" where
  "same_side rb \<longleftrightarrow> read_mirror rb = write_mirror rb"

text \<open>
  The representation invariant: the pool has the size the buffer claims, both indices are inside
  it, and the writer is ahead of the reader by at most one turn.
\<close>

definition rb_inv :: "dg_ringbuffer \<Rightarrow> bool" where
  "rb_inv rb \<longleftrightarrow>
     0 < cap rb \<and> length (buffer_ptr rb) = cap rb \<and> ridx rb < cap rb \<and> widx rb < cap rb \<and>
     (if same_side rb then ridx rb \<le> widx rb else widx rb \<le> ridx rb)"

text \<open>The abstraction: the bytes waiting to be read, oldest first.\<close>

definition contents :: "dg_ringbuffer \<Rightarrow> byte list" where
  "contents rb =
     (if same_side rb then take (widx rb - ridx rb) (drop (ridx rb) (buffer_ptr rb))
      else drop (ridx rb) (buffer_ptr rb) @ take (widx rb) (buffer_ptr rb))"

definition space :: "dg_ringbuffer \<Rightarrow> nat" where
  "space rb = cap rb - length (contents rb)"

lemma cap_bound: "cap rb < 2 ^ 15"
proof -
  have "sint (buffer_size rb) < 2 ^ 15"
    using sint_lt [of "buffer_size rb"] by simp
  then show ?thesis by (simp add: cap_def nat_less_iff)
qed

lemma sint_size [ring_view]: "rb_inv rb \<Longrightarrow> sint (buffer_size rb) = int (cap rb)"
  by (simp add: rb_inv_def cap_def)

lemma uint_read_index [ring_view]: "uint (read_index rb) = int (ridx rb)"
  by (simp add: ridx_def)

lemma uint_write_index [ring_view]: "uint (write_index rb) = int (widx rb)"
  by (simp add: widx_def)

lemma index_eq [ring_view]: "read_index rb = write_index rb \<longleftrightarrow> ridx rb = widx rb"
  by (auto simp: ridx_def widx_def word_unat_eq_iff)

lemma index_less [ring_view]: "read_index rb < write_index rb \<longleftrightarrow> ridx rb < widx rb"
  by (simp add: ridx_def widx_def word_less_nat_alt)

lemma mirror_eq [ring_view]: "read_mirror rb = write_mirror rb \<longleftrightarrow> same_side rb"
  by (simp add: same_side_def)

lemma length_contents:
  "rb_inv rb \<Longrightarrow>
     length (contents rb) =
       (if same_side rb then widx rb - ridx rb else cap rb - ridx rb + widx rb)"
  by (auto simp: contents_def rb_inv_def)

lemma length_contents_le: "rb_inv rb \<Longrightarrow> length (contents rb) \<le> cap rb"
  by (simp add: length_contents) (auto simp: rb_inv_def split: if_splits)

lemma status_view:
  "rb_inv rb \<Longrightarrow>
     dg_ringbuffer_status rb =
       (if contents rb = [] then RB_EMPTY
        else if length (contents rb) = cap rb then RB_FULL else RB_HALFFULL)"
  by (simp add: dg_ringbuffer_status_def ring_view length_contents flip: length_0_conv)
    (auto simp: rb_inv_def split: if_splits)

lemma data_len_view [ring_view]:
  assumes "rb_inv rb"
  shows "dg_ringbuffer_data_len rb = word_of_nat (length (contents rb))"
  using assms
  by (auto simp: dg_ringbuffer_data_len_def dg_ringbuffer_status_def ring_view length_contents
        rb_inv_def of_nat_diff split: if_splits)

lemma unat_data_len: "rb_inv rb \<Longrightarrow> unat (dg_ringbuffer_data_len rb) = length (contents rb)"
  using length_contents_le [of rb] cap_bound [of rb]
  by (simp add: data_len_view word_of_nat_unat_small)

lemma space_len_view [ring_view]:
  "rb_inv rb \<Longrightarrow> dg_ringbuffer_space_len rb = word_of_nat (space rb)"
  using length_contents_le [of rb]
  by (simp add: dg_ringbuffer_space_len_def ring_view space_def)

lemma space_bound: "space rb < 2 ^ 15"
  using cap_bound [of rb] by (simp add: space_def)

lemma unat_space_len: "rb_inv rb \<Longrightarrow> unat (dg_ringbuffer_space_len rb) = space rb"
  using space_bound [of rb] by (simp add: space_len_view word_of_nat_unat_small)

section \<open>Writing and reading a run of bytes\<close>

text \<open>
  What every operation that stores bytes does to the state, on natural numbers: the bytes go in
  at the write index and continue at the start of the pool, and the write index advances.
  \<open>rb_read\<close> is the advance of the read index. They are used in proofs only.
\<close>

definition rb_write :: "dg_ringbuffer \<Rightarrow> byte list \<Rightarrow> dg_ringbuffer" where
  "rb_write rb xs =
     (let n = length xs; room = cap rb - widx rb in
      if n < room
      then rb\<lparr>buffer_ptr :=
                take (widx rb) (buffer_ptr rb) @ xs @ drop (widx rb + n) (buffer_ptr rb),
              write_index := word_of_nat (widx rb + n)\<rparr>
      else rb\<lparr>buffer_ptr :=
                drop room xs @ drop (n - room) (take (widx rb) (buffer_ptr rb)) @
                drop (n - room - widx rb) (take room xs),
              write_mirror := NOT (write_mirror rb),
              write_index := word_of_nat (n - room)\<rparr>)"

definition rb_read :: "dg_ringbuffer \<Rightarrow> nat \<Rightarrow> dg_ringbuffer" where
  "rb_read rb n =
     (let room = cap rb - ridx rb in
      if n < room then rb\<lparr>read_index := word_of_nat (ridx rb + n)\<rparr>
      else rb\<lparr>read_mirror := NOT (read_mirror rb), read_index := word_of_nat (n - room)\<rparr>)"

lemma unat_index15: "n < cap rb \<Longrightarrow> unat (word_of_nat n :: 15 word) = n"
  using cap_bound [of rb] by (simp add: word_of_nat_unat_small)

lemma same_side_flip [simp]:
  "(NOT (read_mirror rb) = write_mirror rb) = (\<not> same_side rb)"
  "(read_mirror rb = NOT (write_mirror rb)) = (\<not> same_side rb)"
  using bit1_cases [of "read_mirror rb"] bit1_cases [of "write_mirror rb"]
  by (auto simp: same_side_def)

lemma view_updates [simp]:
  "widx (rb\<lparr>write_index := w\<rparr>) = unat w"
  "widx (rb\<lparr>buffer_ptr := p\<rparr>) = widx rb"
  "widx (rb\<lparr>write_mirror := m\<rparr>) = widx rb"
  "widx (rb\<lparr>read_mirror := m\<rparr>) = widx rb"
  "widx (rb\<lparr>read_index := r\<rparr>) = widx rb"
  "ridx (rb\<lparr>write_index := w\<rparr>) = ridx rb"
  "ridx (rb\<lparr>buffer_ptr := p\<rparr>) = ridx rb"
  "ridx (rb\<lparr>write_mirror := m\<rparr>) = ridx rb"
  "ridx (rb\<lparr>read_mirror := m\<rparr>) = ridx rb"
  "ridx (rb\<lparr>read_index := r\<rparr>) = unat r"
  "cap (rb\<lparr>write_index := w\<rparr>) = cap rb"
  "cap (rb\<lparr>buffer_ptr := p\<rparr>) = cap rb"
  "cap (rb\<lparr>write_mirror := m\<rparr>) = cap rb"
  "cap (rb\<lparr>read_mirror := m\<rparr>) = cap rb"
  "cap (rb\<lparr>read_index := r\<rparr>) = cap rb"
  "same_side (rb\<lparr>write_index := w\<rparr>) = same_side rb"
  "same_side (rb\<lparr>buffer_ptr := p\<rparr>) = same_side rb"
  "same_side (rb\<lparr>write_mirror := m\<rparr>) = (read_mirror rb = m)"
  "same_side (rb\<lparr>read_mirror := m\<rparr>) = (m = write_mirror rb)"
  "same_side (rb\<lparr>read_index := r\<rparr>) = same_side rb"
  by (auto simp: widx_def ridx_def cap_def same_side_def)

text \<open>The effect of the two advances on each component of the state.\<close>

lemma rb_write_fields:
  assumes "rb_inv rb" "length xs \<le> space rb"
  shows "ridx (rb_write rb xs) = ridx rb"
    "widx (rb_write rb xs) =
       (if length xs < cap rb - widx rb then widx rb + length xs
        else length xs - (cap rb - widx rb))"
    "same_side (rb_write rb xs) =
       (if length xs < cap rb - widx rb then same_side rb else \<not> same_side rb)"
    "cap (rb_write rb xs) = cap rb"
  using assms cap_bound [of rb]
  by (auto simp: rb_write_def Let_def unat_index15 [where rb = rb] space_def rb_inv_def
        simp del: of_nat_add of_nat_diff)

lemma rb_read_fields:
  assumes "rb_inv rb" "n \<le> length (contents rb)"
  shows "widx (rb_read rb n) = widx rb"
    "ridx (rb_read rb n) =
       (if n < cap rb - ridx rb then ridx rb + n else n - (cap rb - ridx rb))"
    "same_side (rb_read rb n) =
       (if n < cap rb - ridx rb then same_side rb else \<not> same_side rb)"
    "cap (rb_read rb n) = cap rb"
    "buffer_ptr (rb_read rb n) = buffer_ptr rb"
  using assms length_contents_le [OF assms(1)]
  by (auto simp: rb_read_def Let_def unat_index15 [where rb = rb] rb_inv_def simp del: of_nat_add of_nat_diff)

lemma rb_write_Nil [simp]: "rb_inv rb \<Longrightarrow> rb_write rb [] = rb"
  by (simp add: rb_write_def rb_inv_def widx_def)

lemma rb_read_0 [simp]: "rb_inv rb \<Longrightarrow> rb_read rb 0 = rb"
  by (simp add: rb_read_def rb_inv_def ridx_def)

lemma rb_write_inv:
  assumes inv: "rb_inv rb" and fits: "length xs \<le> space rb"
  shows "rb_inv (rb_write rb xs)"
proof -
  note f = rb_write_fields [OF inv fits]
  have "length (buffer_ptr (rb_write rb xs)) = cap rb"
    using inv fits by (auto simp: rb_write_def Let_def rb_inv_def space_def)
  with inv fits show ?thesis
    using length_contents [OF inv] unfolding rb_inv_def f space_def
    by (auto split: if_splits)
qed

lemma rb_write_contents:
  assumes inv: "rb_inv rb" and fits: "length xs \<le> space rb"
  shows "contents (rb_write rb xs) = contents rb @ xs"
proof (cases "length xs < cap rb - widx rb")
  case True
  with inv fits show ?thesis
    unfolding contents_def rb_write_fields [OF inv fits]
    using length_contents [OF inv] 
    by (auto simp: rb_write_def Let_def rb_inv_def space_def drop_take)
next
  case False
  with inv fits show ?thesis
    unfolding contents_def rb_write_fields [OF inv fits]
    using length_contents [OF inv]
    by (auto simp: rb_write_def Let_def rb_inv_def space_def drop_take)
qed

lemma rb_read_inv:
  assumes inv: "rb_inv rb" and fits: "n \<le> length (contents rb)"
  shows "rb_inv (rb_read rb n)"
  using inv fits length_contents [OF inv] unfolding rb_inv_def rb_read_fields [OF inv fits]
  by (auto split: if_splits)

lemma rb_read_contents:
  assumes inv: "rb_inv rb" and fits: "n \<le> length (contents rb)"
  shows "contents (rb_read rb n) = drop n (contents rb)"
  using inv fits length_contents [OF inv]
  unfolding contents_def rb_read_fields [OF inv fits]
  by (auto simp: rb_inv_def drop_take add.commute)

section \<open>The operations in terms of the two advances\<close>

lemma u16_small:
  assumes "n < 2 ^ 15"
  shows "unat (word_of_nat n :: u16) = n" "uint (word_of_nat n :: u16) = int n"
    "(ucast (word_of_nat n :: u16) :: size_t) = word_of_nat n"
    "(ucast (word_of_nat n :: size_t) :: u16) = word_of_nat n"
    "unat (word_of_nat n :: size_t) = n"
  using assms
  by (simp_all add: word_of_nat_unat_small uint_word_of_nat_small ucast_word_of_nat)

lemma put_amount:
  assumes "rb_inv rb"
  shows "(if (ucast (dg_ringbuffer_space_len rb) :: u16) < len
          then ucast (dg_ringbuffer_space_len rb) else len) =
         (word_of_nat (min (unat len) (space rb)) :: u16)"
  using assms u16_small [OF space_bound [of rb]]
  by (auto simp: ring_view word_less_nat_alt min_def)

lemma put_empty:
  assumes "rb_inv rb"
  shows "(ucast (dg_ringbuffer_space_len rb) :: u16) = 0 \<longleftrightarrow> space rb = 0"
  using assms u16_small [OF space_bound [of rb]]
  by (auto simp: ring_view simp flip: unat_eq_0)

lemma dg_ringbuffer_put_write:
  assumes inv: "rb_inv rb" and n: "n = min (unat len) (space rb)" and src: "n \<le> length ptr"
  shows "dg_ringbuffer_put rb ptr len = Inr (word_of_nat n, rb_write rb (take n ptr))"
proof (cases "space rb = 0")
  case True
  with inv n show ?thesis
    by (simp add: dg_ringbuffer_put_def put_empty)
next
  case False
  have "n < 2 ^ 15" using n space_bound [of rb] by simp
  note small = u16_small [OF this]
  have le: "n \<le> cap rb" using n by (simp add: space_def)
  note unfold = dg_ringbuffer_put_def Let_def put_empty [OF inv] put_amount [OF inv]
    n [symmetric] small uint_write_index sint_size [OF inv] memcpy_def
  show ?thesis
  proof (cases "n < cap rb - widx rb")
    case True
    with inv src False show ?thesis
      unfolding unfold by (auto simp: rb_write_def rb_inv_def Let_def)
  next
    case wrap: False
    obtain room where room: "cap rb = widx rb + room" "0 < room"
      using inv by (auto simp: rb_inv_def dest: less_imp_Suc_add)
    then obtain k where k: "n = room + k" using wrap by (metis add_diff_cancel_left' le_Suc_ex not_less)
    have "int (cap rb) - int (widx rb) = int room" "int n - int room = int k" "k \<le> widx rb"
      using room k le by simp_all
    with inv src False show ?thesis
      unfolding unfold by (simp add: rb_write_def rb_inv_def Let_def drop_take room k)
  qed
qed

lemma data_bound: "rb_inv rb \<Longrightarrow> length (contents rb) < 2 ^ 15"
  using length_contents_le [of rb] cap_bound [of rb] by simp

lemma get_amount:
  assumes "rb_inv rb"
  shows "(if dg_ringbuffer_data_len rb < ucast len
          then ucast (dg_ringbuffer_data_len rb) else len) =
         (word_of_nat (min (unat len) (length (contents rb))) :: u16)"
  using assms u16_small [OF data_bound [OF assms]]
  by (auto simp: ring_view word_less_nat_alt min_def)

lemma get_empty:
  assumes "rb_inv rb"
  shows "dg_ringbuffer_data_len rb = 0 \<longleftrightarrow> contents rb = []"
  using unat_data_len [OF assms] by (auto simp flip: unat_eq_0)

text \<open>The bytes between the read index and the end of the pool come first.\<close>

lemma take_contents:
  assumes inv: "rb_inv rb" and n: "n \<le> length (contents rb)"
  shows "take n (contents rb) =
     (if n < cap rb - ridx rb then take n (drop (ridx rb) (buffer_ptr rb))
      else drop (ridx rb) (buffer_ptr rb) @ take (n - (cap rb - ridx rb)) (buffer_ptr rb))"
  using inv n length_contents [OF inv] by (auto simp: contents_def rb_inv_def min_def)

lemma dg_ringbuffer_get_read:
  assumes inv: "rb_inv rb" and n: "n = min (unat len) (length (contents rb))"
    and dst: "n \<le> length ptr"
  shows "dg_ringbuffer_get rb ptr len =
           Inr (word_of_nat n, take n (contents rb) @ drop n ptr, rb_read rb n)"
proof (cases "contents rb = []")
  case True
  with inv n show ?thesis
    by (simp add: dg_ringbuffer_get_def get_empty)
next
  case False
  have "n < 2 ^ 15" using n data_bound [OF inv] by simp
  note small = u16_small [OF this]
  have le: "n \<le> length (contents rb)" using n by simp
  note unfold = dg_ringbuffer_get_def Let_def get_empty [OF inv] get_amount [OF inv]
    n [symmetric] small uint_read_index sint_size [OF inv] memcpy_def
  show ?thesis
  proof (cases "n < cap rb - ridx rb")
    case True
    with inv dst False take_contents [OF inv le] show ?thesis
      unfolding unfold by (auto simp: rb_read_def rb_inv_def Let_def)
  next
    case wrap: False
    obtain room where room: "cap rb = ridx rb + room" "0 < room"
      using inv by (auto simp: rb_inv_def dest: less_imp_Suc_add)
    then obtain k where k: "n = room + k" using wrap by (metis add_diff_cancel_left' le_Suc_ex not_less)
    have "int (cap rb) - int (ridx rb) = int room" "int n - int room = int k" "k \<le> cap rb"
      using room k le length_contents_le [OF inv] by simp_all
    with inv dst False take_contents [OF inv le] show ?thesis
      unfolding unfold by (simp add: rb_read_def rb_inv_def Let_def drop_take room k add.commute)
  qed
qed

lemma store_char_view:
  "i < length xs \<Longrightarrow> store_char xs i b = Inr (take i xs @ b # drop (Suc i) xs)"
  by (simp add: store_char_def upd_conv_take_nth_drop)

lemma index_unat [ring_view]:
  "unat (read_index rb) = ridx rb" "unat (write_index rb) = widx rb"
  by (simp_all add: ridx_def widx_def)

lemma index_word [ring_view]:
  "word_of_nat (ridx rb) = read_index rb" "word_of_nat (widx rb) = write_index rb"
  by (simp_all add: ridx_def widx_def)

lemma space_zero:
  "rb_inv rb \<Longrightarrow> dg_ringbuffer_space_len rb = 0 \<longleftrightarrow> space rb = 0"
  using unat_space_len [of rb] by (auto simp flip: unat_eq_0)

lemma dg_ringbuffer_putchar_write:
  assumes inv: "rb_inv rb" and room: "0 < space rb"
  shows "dg_ringbuffer_putchar rb ch = Inr (1, rb_write rb [ch])"
proof (cases "Suc (widx rb) = cap rb")
  case True
  with inv room show ?thesis
    unfolding dg_ringbuffer_putchar_def space_zero [OF inv]
    by (auto simp: ring_view store_char_view rb_write_def
          rb_inv_def Let_def)
next
  case False
  with inv room show ?thesis
    unfolding dg_ringbuffer_putchar_def space_zero [OF inv]
    by (auto simp: ring_view store_char_view rb_write_def
          rb_inv_def Let_def)
qed

lemma dg_ringbuffer_putchar_full:
  "rb_inv rb \<Longrightarrow> space rb = 0 \<Longrightarrow> dg_ringbuffer_putchar rb ch = Inr (0, rb)"
  by (simp add: dg_ringbuffer_putchar_def space_zero)

lemma hd_contents:
  assumes inv: "rb_inv rb" and "contents rb \<noteq> []"
  shows "hd (contents rb) = buffer_ptr rb ! ridx rb"
  using inv assms(2) length_contents [OF inv]
  by (auto simp: contents_def rb_inv_def hd_append hd_drop_conv_nth split: if_splits)

lemma dg_ringbuffer_getchar_read:
  assumes inv: "rb_inv rb" and some: "contents rb \<noteq> []"
  shows "dg_ringbuffer_getchar rb = Inr (1, Some (hd (contents rb)), rb_read rb 1)"
  using inv some hd_contents [OF inv some]
  unfolding dg_ringbuffer_getchar_def get_empty [OF inv]
  by (auto simp: ring_view rb_read_def rb_inv_def Let_def)

lemma dg_ringbuffer_getchar_empty:
  "rb_inv rb \<Longrightarrow> contents rb = [] \<Longrightarrow> dg_ringbuffer_getchar rb = Inr (0, None, rb)"
  by (simp add: dg_ringbuffer_getchar_def get_empty)

lemma dg_ringbuffer_peak_read:
  assumes inv: "rb_inv rb" and some: "contents rb \<noteq> []"
    and n: "n = min (length (contents rb)) (cap rb - ridx rb)"
  shows "dg_ringbuffer_peak rb = (word_of_nat n, Some (ridx rb), rb_read rb n)"
proof -
  obtain room where room: "cap rb = ridx rb + room" "0 < room" "room < 2 ^ 15"
    using inv cap_bound [of rb] by (auto simp: rb_inv_def dest: less_imp_Suc_add)
  have w: "word_of_int (sint (buffer_size rb) - uint (read_index rb)) = (word_of_nat room :: size_t)"
    using room by (simp add: sint_size [OF inv] uint_read_index)
  have lt: "dg_ringbuffer_data_len rb < word_of_nat room \<longleftrightarrow> length (contents rb) < room"
    using u16_small(5) [OF room(3)] unat_data_len [OF inv] by (simp add: word_less_nat_alt)
  note small = u16_small [OF data_bound [OF inv]]
  have "(ucast (word_of_nat (length (contents rb)) :: size_t) :: 15 word) =
      word_of_nat (length (contents rb))"
    using data_bound [OF inv] by (simp add: ucast_word_of_nat)
  then show ?thesis
    unfolding dg_ringbuffer_peak_def Let_def get_empty [OF inv] w lt
    using some n room small data_len_view [OF inv]
    by (auto simp: rb_read_def min_def index_unat uint_read_index uint_nat [of "dg_ringbuffer_data_len rb"]
        unat_data_len [OF inv])
qed

text \<open>
  Overwriting writes. \<open>putchar_force\<close> drops the oldest byte of a full buffer. \<open>put_force\<close>
  keeps the last \<open>cap rb\<close> bytes of its input; what it makes room with is right only when
  reader and writer are on different sides.
\<close>

lemma dg_ringbuffer_putchar_force_write:
  assumes inv: "rb_inv rb"
  shows "dg_ringbuffer_putchar_force rb ch =
     Inr (1, if space rb = 0 then rb_write (rb_read rb 1) [ch] else rb_write rb [ch])"
proof -
  have full: "dg_ringbuffer_status rb = RB_FULL \<longleftrightarrow> space rb = 0"
    using inv length_contents_le [OF inv] by (auto simp: status_view space_def rb_inv_def)
  have at: "\<not> same_side rb \<and> read_index rb = write_index rb \<and> ridx rb = widx rb" if "space rb = 0"
    using that inv length_contents [OF inv]
    by (auto simp: space_def rb_inv_def index_eq split: if_splits)
  show ?thesis
  proof (cases "Suc (widx rb) = cap rb")
    case True
    with inv at show ?thesis
      unfolding dg_ringbuffer_putchar_force_def Let_def full
      by (auto simp: ring_view store_char_view rb_write_def rb_read_def rb_inv_def Let_def)
  next
    case False
    with inv at show ?thesis
      unfolding dg_ringbuffer_putchar_force_def Let_def full
      by (auto simp: ring_view store_char_view rb_write_def rb_read_def rb_inv_def Let_def)
  qed
qed

text \<open>The state \<open>put_force\<close> leaves, with the read index set by \<open>over\<close>.\<close>

definition rb_overwrite :: "dg_ringbuffer \<Rightarrow> byte list \<Rightarrow> dg_ringbuffer" where
  "rb_overwrite rb xs =
     (let rb' = rb_write rb xs in
      if length xs \<le> space rb then rb'
      else if length xs < cap rb - widx rb then rb'\<lparr>read_index := write_index rb'\<rparr>
      else rb'\<lparr>read_mirror := NOT (read_mirror rb'), read_index := write_index rb'\<rparr>)"

lemma put_force_amount:
  assumes inv: "rb_inv rb"
  shows "(if int (cap rb) < uint len then word_of_int (int (cap rb)) else len) =
         (word_of_nat (min (unat len) (cap rb)) :: u16)"
    "(if int (cap rb) < uint len then uint len - int (cap rb) else 0) =
       int (unat len - min (unat len) (cap rb))"
proof -
  obtain m where m: "unat len = m" "uint len = int m" "word_of_nat m = len"
    by (rule that [OF refl uint_nat]) simp
  show "(if int (cap rb) < uint len then word_of_int (int (cap rb)) else len) =
         (word_of_nat (min (unat len) (cap rb)) :: u16)"
    "(if int (cap rb) < uint len then uint len - int (cap rb) else 0) =
       int (unat len - min (unat len) (cap rb))"
    unfolding m(1,2) using m(3) by (auto simp: min_def)
qed

lemma dg_ringbuffer_put_force_write:
  assumes inv: "rb_inv rb" and n: "n = min (unat len) (cap rb)" and src: "unat len \<le> length ptr"
  shows "dg_ringbuffer_put_force rb ptr len =
     Inr (word_of_nat n, rb_overwrite rb (take n (drop (unat len - n) ptr)))"
proof -
  have "n < 2 ^ 15" using n cap_bound [of rb] by simp
  note small = u16_small [OF this]
  have sp: "(ucast (dg_ringbuffer_space_len rb) :: u16) < word_of_nat n \<longleftrightarrow> space rb < n"
    using u16_small [OF space_bound [of rb]] small
    by (simp add: space_len_view [OF inv] word_less_nat_alt)
  have le: "n \<le> cap rb" "n \<le> unat len" using n by simp_all
  define off where "off = unat len - n"
  have off: "off + n \<le> length ptr" using src le by (simp add: off_def)
  note unfold = dg_ringbuffer_put_force_def Let_def sint_size [OF inv] put_force_amount [OF inv]
    n [symmetric] small sp uint_write_index memcpy_def off_def [symmetric]
  show ?thesis
  proof (cases "n < cap rb - widx rb")
    case True
    with inv off show ?thesis
      unfolding unfold
      by (auto simp: rb_overwrite_def rb_write_def rb_inv_def Let_def)
  next
    case wrap: False
    obtain room where room: "cap rb = widx rb + room" "0 < room"
      using inv by (auto simp: rb_inv_def dest: less_imp_Suc_add)
    then obtain k where k: "n = room + k" using wrap by (metis add_diff_cancel_left' le_Suc_ex not_less)
    have "int (cap rb) - int (widx rb) = int room" "int n - int room = int k" "k \<le> widx rb"
      using room k le by simp_all
    with inv off show ?thesis
      unfolding unfold
      by (simp add: rb_overwrite_def rb_write_def rb_inv_def Let_def drop_take room k nat_add_distrib add.commute)
  qed
qed

lemma rb_overwrite_same_side:
  assumes inv: "rb_inv rb" and over: "space rb < length xs" "length xs \<le> cap rb"
    and side: "same_side rb"
  shows "contents (rb_overwrite rb xs) = []" "rb_inv (rb_overwrite rb xs)"
proof -
  have wrap: "\<not> length xs < cap rb - widx rb" "0 < cap rb"
    using inv over side length_contents [OF inv] by (auto simp: rb_inv_def space_def)
  let ?r = "rb_overwrite rb xs"
  have w: "widx ?r = length xs - (cap rb - widx rb)" "ridx ?r = widx ?r" "same_side ?r"
    "cap ?r = cap rb" "length (buffer_ptr ?r) = cap rb"
    using inv over side wrap unat_index15 [of "length xs - (cap rb - widx rb)" rb]
    by (auto simp: rb_overwrite_def rb_write_def Let_def rb_inv_def index_unat mirror_eq
        simp del: of_nat_diff)
  show "contents ?r = []" using w by (simp add: contents_def)
  show "rb_inv ?r" using inv over w by (auto simp: rb_inv_def)
qed

lemma rb_overwrite_other_side:
  assumes inv: "rb_inv rb" and over: "space rb < length xs" "length xs \<le> cap rb"
    and side: "\<not> same_side rb"
  shows "rb_overwrite rb xs = rb_write (rb_read rb (length xs - space rb)) xs"
proof -
  have sp: "space rb = ridx rb - widx rb" "widx rb \<le> ridx rb" "ridx rb < cap rb"
    using inv side length_contents [OF inv] by (auto simp: rb_inv_def space_def)
  have eq: "length xs - space rb < cap rb - ridx rb \<longleftrightarrow> length xs < cap rb - widx rb"
    using sp over by auto
  have idx: "ridx rb + (length xs - space rb) = widx rb + length xs"
    "length xs - space rb - (cap rb - ridx rb) = length xs - (cap rb - widx rb)"
    using sp over by auto
  show ?thesis
    unfolding rb_overwrite_def rb_read_def Let_def eq idx
    using over by (auto simp: rb_write_def Let_def simp del: of_nat_add of_nat_diff)
qed
section \<open>Construction\<close>

lemma unat_align_down4: "unat (align_down4 sz) = 4 * (unat sz div 4)"
proof -
  have "bit (mask 2 :: u16) n \<longleftrightarrow> n < 2" for n
    unfolding bit_mask_iff by auto
  then have three: "bit (3 :: u16) n \<longleftrightarrow> n < 2" for n
    by (simp add: mask_eq_exp_minus_1)
  have suc: "2 \<le> n \<Longrightarrow> Suc (Suc (n - 2)) = n" for n by simp
  have "align_down4 sz = push_bit 2 (drop_bit 2 sz)"
    unfolding align_down4_def by (rule bit_word_eqI) (simp only: bit_and_iff bit_not_iff three bit_push_bit_iff bit_drop_bit_eq o_def; auto simp: suc)
  also have "\<dots> = 4 * drop_bit 2 sz" by (simp add: push_bit_eq_mult)
  finally have "align_down4 sz = 4 * drop_bit 2 sz" .
  moreover have "unat (4 * drop_bit 2 sz :: u16) = (4 * (unat sz div 4)) mod 2 ^ 16"
    by (simp add: unat_word_ariths unat_drop_bit_eq drop_bit_eq_div mod_mult_right_eq)
  moreover have "4 * (unat sz div 4) < 2 ^ 16"
  proof -
    have "unat sz < 2 ^ LENGTH(16)" by (rule unsigned_less)
    then show ?thesis by simp
  qed
  ultimately show ?thesis by simp
qed

text \<open>A buffer of \<open>n\<close> bytes as the constructor leaves it.\<close>

definition rb_fresh :: "nat \<Rightarrow> dg_ringbuffer" where
  "rb_fresh n =
     \<lparr>buffer_ptr = replicate n 0, read_mirror = 0, read_index = 0,
      write_mirror = 0, write_index = 0, buffer_size = word_of_nat n\<rparr>"

lemma rb_fresh_ok:
  assumes "0 < n" "n < 2 ^ 15"
  shows "rb_inv (rb_fresh n)" "contents (rb_fresh n) = []" "cap (rb_fresh n) = n"
proof -
  show c: "cap (rb_fresh n) = n"
    using assms by (simp add: cap_def rb_fresh_def sint_eq_unat word_of_nat_unat_small)
  then show "rb_inv (rb_fresh n)" "contents (rb_fresh n) = []"
    using assms by (auto simp: rb_inv_def contents_def ridx_def widx_def same_side_def rb_fresh_def)
qed

lemma dg_ringbuffer_create_cases:
  "dg_ringbuffer_create m1 m2 sz =
     (if sz = 0 then Inl Assertion_Failed
      else if \<not> (m1 \<and> m2) then Inr None
      else if 4 \<le> unat sz \<and> unat sz < 2 ^ 15 then Inr (Some (rb_fresh (4 * (unat sz div 4))))
      else Inl Assertion_Failed)"
proof -
  define n where "n = 4 * (unat sz div 4)"
  have u: "unat (align_down4 sz) = n" by (simp add: unat_align_down4 n_def)
  have "unat sz < 2 ^ LENGTH(16)" by (rule unsigned_less)
  then have n: "n < 2 ^ 16" by (simp add: n_def)
  have w: "align_down4 sz = word_of_nat n" unfolding u [symmetric] by simp
  have w2: "unat (align_down4 (align_down4 sz)) = n"
    by (simp add: unat_align_down4 n_def)
  have w3: "align_down4 (align_down4 sz) = word_of_nat n" unfolding w2 [symmetric] by simp
  have pos: "0 < sint (align_down4 sz) \<longleftrightarrow> 0 < n \<and> n < 2 ^ 15"
    using n by (simp add: sint_eq_unat u)
  have range: "0 < n \<and> n < 2 ^ 15 \<longleftrightarrow> 4 \<le> unat sz \<and> unat sz < 2 ^ 15"
    unfolding n_def by auto
  show ?thesis
    using range by (auto simp: dg_ringbuffer_create_def dg_ringbuffer_init_def Let_def u c_assert_def pos
        rb_fresh_def w3 word_gt_0 simp flip: n_def)
qed

section \<open>The ring buffer is a bounded queue\<close>

lemma put_result:
  assumes inv: "rb_inv rb" and n: "n = min (unat len) (space rb)" and src: "n \<le> length ptr"
  shows "\<exists>rb'. dg_ringbuffer_put rb ptr len = Inr (word_of_nat n, rb') \<and> rb_inv rb' \<and>
     cap rb' = cap rb \<and> contents rb' = contents rb @ take n ptr"
proof -
  have fits: "length (take n ptr) \<le> space rb" using n by simp
  show ?thesis
    using dg_ringbuffer_put_write [OF assms] rb_write_inv [OF inv fits]
      rb_write_contents [OF inv fits] rb_write_fields(4) [OF inv fits] by simp
qed

lemma get_result:
  assumes inv: "rb_inv rb" and n: "n = min (unat len) (length (contents rb))"
    and dst: "n \<le> length ptr"
  shows "\<exists>rb'. dg_ringbuffer_get rb ptr len =
       Inr (word_of_nat n, take n (contents rb) @ drop n ptr, rb') \<and> rb_inv rb' \<and>
     cap rb' = cap rb \<and> contents rb' = drop n (contents rb)"
proof -
  have fits: "n \<le> length (contents rb)" using n by simp
  show ?thesis
    using dg_ringbuffer_get_read [OF assms] rb_read_inv [OF inv fits]
      rb_read_contents [OF inv fits] rb_read_fields(4) [OF inv fits] by simp
qed

interpretation ring: byte_queue rb_inv contents cap dg_ringbuffer_put dg_ringbuffer_get
proof unfold_locales
  fix rb :: dg_ringbuffer and n :: nat and len :: u16 and data :: "byte list"
  show "cap rb < 2 ^ 15" by (rule cap_bound)
  assume inv: "rb_inv rb"
  then show "length (contents rb) \<le> cap rb" by (rule length_contents_le)
  show "n = min (unat len) (cap rb - length (contents rb)) \<Longrightarrow> n \<le> length data \<Longrightarrow>
      \<exists>q'. dg_ringbuffer_put rb data len = Inr (word_of_nat n, q') \<and> rb_inv q' \<and>
        cap q' = cap rb \<and> contents q' = contents rb @ take n data"
    by (rule put_result [OF inv]) (simp_all add: space_def)
  show "n = min (unat len) (length (contents rb)) \<Longrightarrow> n \<le> length data \<Longrightarrow>
      \<exists>q'. dg_ringbuffer_get rb data len =
          Inr (word_of_nat n, take n (contents rb) @ drop n data, q') \<and> rb_inv q' \<and>
        cap q' = cap rb \<and> contents q' = drop n (contents rb)"
    by (rule get_result [OF inv])
qed

section \<open>Properties\<close>

text \<open>
  Creating a buffer of \<open>sz\<close> bytes: the process aborts when \<open>sz\<close> is 0, and, both
  allocations having succeeded, when the size rounded down to a multiple of 4 is not a positive
  \<open>int16_t\<close>; a failed allocation gives \<open>NULL\<close>; otherwise the result is a well-formed empty buffer
  that holds exactly the rounded size.
\<close>
theorem ring_create:
  "case dg_ringbuffer_create m1 m2 sz of
     Inl f \<Rightarrow> f = Assertion_Failed \<and>
       (sz = 0 \<or> m1 \<and> m2 \<and> (unat sz < 4 \<or> 2 ^ 15 \<le> unat sz))
   | Inr None \<Rightarrow> sz \<noteq> 0 \<and> (m1 = False \<or> m2 = False)
   | Inr (Some rb) \<Rightarrow> m1 \<and> m2 \<and> 4 \<le> unat sz \<and> unat sz < 2 ^ 15 \<and>
       rb_inv rb \<and> contents rb = [] \<and> cap rb = 4 * (unat sz div 4)"
  using rb_fresh_ok [of "4 * (unat sz div 4)"]
  by (auto simp: dg_ringbuffer_create_cases)

text \<open>
  \<open>dg_ringbuffer_put\<close> never overruns the pool or its source; it accepts as many of
  the \<open>len\<close> bytes as there is room for, appends exactly these to the queued bytes, reports their
  number and keeps the buffer well formed.
\<close>
theorem ring_put:
  assumes "rb_inv rb" and "unat len \<le> length ptr"
  shows "\<exists>rb'. dg_ringbuffer_put rb ptr len = Inr (word_of_nat (min (unat len) (space rb)), rb') \<and>
    rb_inv rb' \<and> cap rb' = cap rb \<and>
    contents rb' = contents rb @ take (min (unat len) (space rb)) ptr"
  using put_result [OF assms(1) refl, of len ptr] assms(2) by auto

theorem ring_put_witness:
  "rb_inv (rb_fresh 4) \<and> unat (6 :: u16) \<le> length [1, 2, 3, 4, 5, 6 :: byte] \<and>
   (\<exists>rb'. dg_ringbuffer_put (rb_fresh 4) [1, 2, 3, 4, 5, 6] 6 =
       Inr (word_of_nat (min (unat (6 :: u16)) (space (rb_fresh 4))), rb') \<and>
     contents rb' = [1, 2, 3, 4])"
proof -
  have h: "rb_inv (rb_fresh 4)" "unat (6 :: u16) \<le> length [1, 2, 3, 4, 5, 6 :: byte]"
    by (simp_all add: rb_fresh_ok)
  show ?thesis
    using ring_put [OF h] h by (auto simp: rb_fresh_ok space_def)
qed

text \<open>
  \<open>dg_ringbuffer_get\<close> never overruns the pool or its destination; it delivers the
  oldest queued bytes, as many as were asked for and are there, leaves the rest of the caller's
  buffer alone, removes exactly the bytes it delivered and keeps the buffer well formed.
\<close>
theorem ring_get:
  assumes "rb_inv rb" and "unat len \<le> length ptr"
  shows "\<exists>rb'. dg_ringbuffer_get rb ptr len =
      Inr (word_of_nat (min (unat len) (length (contents rb))),
           take (unat len) (contents rb) @ drop (min (unat len) (length (contents rb))) ptr, rb') \<and>
    rb_inv rb' \<and> cap rb' = cap rb \<and> contents rb' = drop (unat len) (contents rb)"
  using get_result [OF assms(1) refl, of len ptr] assms(2) by (auto simp: min_def)

theorem ring_get_witness:
  "rb_inv (rb_fresh 4) \<and> unat (3 :: u16) \<le> length [7, 8, 9 :: byte] \<and>
   (\<exists>rb'. dg_ringbuffer_get (rb_fresh 4) [7, 8, 9] 3 = Inr (0, [7, 8, 9], rb') \<and> rb_inv rb')"
proof -
  have h: "rb_inv (rb_fresh 4)" "unat (3 :: u16) \<le> length [7, 8, 9 :: byte]"
    by (simp_all add: rb_fresh_ok)
  show ?thesis
    using ring_get [OF h] h by (auto simp: rb_fresh_ok)
qed

text \<open>
  Property C31. Any sequence of writes and reads on a newly created buffer runs without a fault, and
  the bytes it delivers, followed by the bytes still queued, are exactly the bytes it accepted, in
  the order in which they came: nothing is lost, repeated or reordered.
\<close>
theorem ring_stream:
  assumes "dg_ringbuffer_create True True sz = Inr (Some rb)"
    and "\<forall>c \<in> set cs. call_fits c"
  shows "\<exists>ins outs rb'.
    run_calls dg_ringbuffer_put dg_ringbuffer_get rb cs = Inr (ins, outs, rb') \<and>
    rb_inv rb' \<and> ins = outs @ contents rb'"
proof -
  have "rb_inv rb" "contents rb = []"
    using assms(1) rb_fresh_ok [of "4 * (unat sz div 4)"]
    by (auto simp: dg_ringbuffer_create_cases split: if_splits)
  with ring.run_stream [OF this(1) assms(2)] show ?thesis by auto
qed

theorem ring_stream_witness:
  "dg_ringbuffer_create True True 5 = Inr (Some (rb_fresh 4)) \<and>
   (\<exists>ins outs rb'. run_calls dg_ringbuffer_put dg_ringbuffer_get (rb_fresh 4)
       [Qput [1, 2, 3], Qget 2, Qput [4, 5, 6], Qget 9] = Inr (ins, outs, rb') \<and>
     ins = outs @ contents rb')"
proof -
  have h: "dg_ringbuffer_create True True 5 = Inr (Some (rb_fresh 4))"
    by (simp add: dg_ringbuffer_create_cases)
  show ?thesis
    using h ring_stream [OF h, of "[Qput [1, 2, 3], Qget 2, Qput [4, 5, 6], Qget 9]"] by auto
qed

text \<open>
  The one-byte operations agree with the block operations: \<open>putchar\<close> is a \<open>put\<close> of one
  byte, and \<open>getchar\<close> a \<open>get\<close> into a one-byte buffer, on every well-formed buffer, the full and
  the empty one included.
\<close>
theorem ring_char_block:
  assumes "rb_inv rb"
  shows "dg_ringbuffer_putchar rb ch = dg_ringbuffer_put rb [ch] 1 \<and>
    dg_ringbuffer_getchar rb =
      bind_res (dg_ringbuffer_get rb [0] 1) (\<lambda>(n, buf, rb').
        Inr (n, if n = 0 then None else Some (hd buf), rb'))"
proof
  show "dg_ringbuffer_putchar rb ch = dg_ringbuffer_put rb [ch] 1"
    using dg_ringbuffer_put_write [OF assms refl, of 1 "[ch]"] assms
    by (cases "space rb = 0")
      (simp_all add: dg_ringbuffer_putchar_full dg_ringbuffer_putchar_write)
  show "dg_ringbuffer_getchar rb =
      bind_res (dg_ringbuffer_get rb [0] 1) (\<lambda>(n, buf, rb').
        Inr (n, if n = 0 then None else Some (hd buf), rb'))"
    using dg_ringbuffer_get_read [OF assms refl, of 1 "[0]"] assms
    by (cases "contents rb")
      (simp_all add: dg_ringbuffer_getchar_empty dg_ringbuffer_getchar_read)
qed

theorem ring_char_block_witness:
  "rb_inv (rb_fresh 4) \<and>
   dg_ringbuffer_putchar (rb_fresh 4) 7 = dg_ringbuffer_put (rb_fresh 4) [7] 1"
  using ring_char_block [of "rb_fresh 4" 7] by (simp add: rb_fresh_ok)

text \<open>
  \<open>putchar_force\<close> always stores its byte as the newest one, and on a full buffer
  drops exactly the oldest.
\<close>
theorem ring_putchar_force:
  assumes "rb_inv rb"
  shows "\<exists>rb'. dg_ringbuffer_putchar_force rb ch = Inr (1, rb') \<and> rb_inv rb' \<and>
    cap rb' = cap rb \<and>
    contents rb' = (if space rb = 0 then tl (contents rb) else contents rb) @ [ch]"
proof (cases "space rb = 0")
  case True
  have some: "Suc 0 \<le> length (contents rb)"
    using True assms length_contents_le [OF assms] by (auto simp: space_def rb_inv_def)
  have inv: "rb_inv (rb_read rb (Suc 0))" and c: "contents (rb_read rb (Suc 0)) = tl (contents rb)"
    using rb_read_inv [OF assms some] rb_read_contents [OF assms some] by (simp_all add: drop_Suc)
  have fits: "length [ch] \<le> space (rb_read rb (Suc 0))"
    using some length_contents_le [OF assms] by (simp add: space_def c rb_read_fields [OF assms some])
  show ?thesis
    using True rb_write_inv [OF inv fits] rb_write_contents [OF inv fits] c
      rb_write_fields(4) [OF inv fits] rb_read_fields(4) [OF assms some]
    by (simp add: dg_ringbuffer_putchar_force_write [OF assms])
next
  case False
  then have fits: "length [ch] \<le> space rb" by simp
  show ?thesis
    using False rb_write_inv [OF assms fits] rb_write_contents [OF assms fits]
      rb_write_fields(4) [OF assms fits]
    by (simp add: dg_ringbuffer_putchar_force_write [OF assms])
qed

theorem ring_putchar_force_witness:
  "rb_inv (rb_fresh 4) \<and>
   (\<exists>rb'. dg_ringbuffer_putchar_force (rb_fresh 4) 7 = Inr (1, rb') \<and> contents rb' = [7])"
  using ring_putchar_force [of "rb_fresh 4" 7] by (auto simp: rb_fresh_ok space_def)

text \<open>
  \<open>peak\<close> hands out a pointer into the pool: the bytes at it are the oldest queued
  bytes, as far as they are contiguous, the returned length never runs past the pool, and the call
  consumes them. On an empty buffer it returns a null pointer and length 0.
\<close>
theorem ring_peak:
  assumes "rb_inv rb"
  shows "case dg_ringbuffer_peak rb of (n, p, rb') \<Rightarrow>
    rb_inv rb' \<and> cap rb' = cap rb \<and> buffer_ptr rb' = buffer_ptr rb \<and>
    contents rb' = drop (unat n) (contents rb) \<and>
    (case p of
       None \<Rightarrow> contents rb = [] \<and> n = 0
     | Some i \<Rightarrow> 0 < unat n \<and> i + unat n \<le> length (buffer_ptr rb) \<and>
         take (unat n) (drop i (buffer_ptr rb)) = take (unat n) (contents rb))"
proof (cases "contents rb = []")
  case True
  then show ?thesis using assms by (simp add: dg_ringbuffer_peak_def get_empty)
next
  case False
  define n where "n = min (length (contents rb)) (cap rb - ridx rb)"
  have le: "n \<le> length (contents rb)" "n \<le> cap rb - ridx rb" by (simp_all add: n_def)
  have inv: "ridx rb < cap rb" "length (buffer_ptr rb) = cap rb"
    using assms by (simp_all add: rb_inv_def)
  have u: "unat (word_of_nat n :: size_t) = n"
    using le data_bound [OF assms] by (simp add: word_of_nat_unat_small)
  have "0 < n" using False inv by (simp add: n_def)
  moreover have "take n (contents rb) = take n (drop (ridx rb) (buffer_ptr rb))"
    using take_contents [OF assms le(1)] le(2) inv by auto
  ultimately show ?thesis
    using rb_read_inv [OF assms le(1)] rb_read_contents [OF assms le(1)]
      rb_read_fields [OF assms le(1)] inv le u
    by (simp add: dg_ringbuffer_peak_read [OF assms False n_def])
qed

theorem ring_peak_witness:
  "rb_inv (rb_fresh 4) \<and> (case dg_ringbuffer_peak (rb_fresh 4) of (n, p, rb') \<Rightarrow> rb_inv rb')"
  using ring_peak [of "rb_fresh 4"] by (auto simp: rb_fresh_ok)

text \<open>
  Property C36. What \<open>put_force\<close> does on every well-formed buffer. With \<open>xs\<close> the last \<open>cap rb\<close> of
  the \<open>len\<close> bytes: when they fit, or when reader and writer are on different sides of the mirror,
  the oldest bytes make room and \<open>xs\<close> is appended, as the comment on the function says. When they
  do not fit and reader and writer are on the same side, flipping the read mirror makes the
  buffer report itself empty: the queued bytes and the new ones are all lost.
\<close>
theorem ring_put_force:
  assumes "rb_inv rb" and "unat len \<le> length ptr"
    and "xs = take (min (unat len) (cap rb)) (drop (unat len - min (unat len) (cap rb)) ptr)"
  shows "\<exists>rb'. dg_ringbuffer_put_force rb ptr len = Inr (word_of_nat (length xs), rb') \<and>
    rb_inv rb' \<and> cap rb' = cap rb \<and>
    contents rb' =
      (if length xs \<le> space rb then contents rb @ xs
       else if same_side rb then []
       else drop (length xs - space rb) (contents rb) @ xs)"
proof -
  define n where "n = min (unat len) (cap rb)"
  have len: "length xs = n" "length xs \<le> cap rb" using assms(2,3) by (auto simp: n_def)
  have put: "dg_ringbuffer_put_force rb ptr len = Inr (word_of_nat n, rb_overwrite rb xs)"
    using dg_ringbuffer_put_force_write [OF assms(1) n_def assms(2)] assms(3) by (simp add: n_def)
  consider (fits) "length xs \<le> space rb" | (same) "space rb < length xs" "same_side rb"
    | (other) "space rb < length xs" "\<not> same_side rb" by linarith
  then show ?thesis
  proof cases
    case fits
    then have "rb_overwrite rb xs = rb_write rb xs" by (simp add: rb_overwrite_def)
    with fits put len show ?thesis
      using rb_write_inv [OF assms(1) fits] rb_write_contents [OF assms(1) fits]
        rb_write_fields(4) [OF assms(1) fits] by simp
  next
    case same
    note o = rb_overwrite_same_side [OF assms(1) same(1) len(2) same(2)]
    have "cap (rb_overwrite rb xs) = cap rb"
      by (simp add: rb_overwrite_def rb_write_def Let_def)
    with same put len o show ?thesis by simp
  next
    case other
    let ?k = "length xs - space rb"
    have k: "?k \<le> length (contents rb)"
      using len(2) length_contents_le [OF assms(1)] by (simp add: space_def)
    note inv = rb_read_inv [OF assms(1) k] and c = rb_read_contents [OF assms(1) k]
      and f = rb_read_fields(4) [OF assms(1) k]
    have fits: "length xs \<le> space (rb_read rb ?k)"
      unfolding space_def [of "rb_read rb ?k"] c f
      using len(2) other length_contents_le [OF assms(1)] by (simp add: space_def)
    show ?thesis
      using other put len rb_write_inv [OF inv fits] rb_write_contents [OF inv fits]
        rb_write_fields(4) [OF inv fits] c f
      by (simp add: rb_overwrite_other_side [OF assms(1) other(1) len(2) other(2)])
  qed
qed

theorem ring_put_force_witness:
  "rb_inv (rb_fresh 4) \<and>
   (\<exists>rb'. dg_ringbuffer_put_force (rb_fresh 4) [1, 2, 3, 4, 5, 6] 6 = Inr (4, rb') \<and>
      contents rb' = [3, 4, 5, 6])"
  using ring_put_force [of "rb_fresh 4" 6 "[1, 2, 3, 4, 5, 6]" "[3, 4, 5, 6]"]
  by (auto simp: rb_fresh_ok space_def)

text \<open>The losing branch is reachable: four queued bytes of eight, then six more, leave none.\<close>

lemma put_force_loses_bytes:
  "bind_res (dg_ringbuffer_put (rb_fresh 8) [1, 2, 3, 4] 4) (\<lambda>(n, rb).
   bind_res (dg_ringbuffer_put_force rb [5, 6, 7, 8, 9, 10] 6) (\<lambda>(n, rb).
   Inr (n, dg_ringbuffer_data_len rb))) = Inr (6, 0)"
  by code_simp

end
