(* ===== verification/List_Head.thy ===== *)
theory List_Head
  imports Ldal_Prelude
begin

text \<open>
  The intrusive circular doubly linked lists of \<open>inc/list.h\<close>, on an explicit store of nodes.
  A node is embedded in a device or class structure at the node's address, so \<open>container_of\<close>
  is the identity here.
\<close>

section \<open>Nodes and the store\<close>

type_synonym addr = nat

record list_head =
  nxt :: "addr option" \<comment> \<open>\<open>None\<close> is \<open>NULL\<close>\<close>
  prv :: "addr option"

lemma list_head_update [simp]: "n\<lparr>nxt := a, prv := b\<rparr> = \<lparr>nxt = a, prv = b\<rparr>" for n :: list_head
  by (cases n) simp

type_synonym nodes = "addr \<rightharpoonup> list_head"

definition load :: "nodes \<Rightarrow> addr option \<Rightarrow> list_head result" where
  "load h p =
     (case p of None \<Rightarrow> Inl Null_Pointer
      | Some a \<Rightarrow> (case h a of None \<Rightarrow> Inl Use_After_Free | Some n \<Rightarrow> Inr n))"

definition set_next :: "nodes \<Rightarrow> addr option \<Rightarrow> addr option \<Rightarrow> nodes result" where
  "set_next h p v =
     bind_res (load h p) (\<lambda>n. Inr (h(the p \<mapsto> n\<lparr>nxt := v\<rparr>)))"

definition set_prev :: "nodes \<Rightarrow> addr option \<Rightarrow> addr option \<Rightarrow> nodes result" where
  "set_prev h p v =
     bind_res (load h p) (\<lambda>n. Inr (h(the p \<mapsto> n\<lparr>prv := v\<rparr>)))"

section \<open>Operations\<close>

definition init_list_head :: "nodes \<Rightarrow> addr \<Rightarrow> nodes result" where
  "init_list_head h a =
     bind_res (set_next h (Some a) (Some a)) (\<lambda>h. set_prev h (Some a) (Some a))"

definition list_add_between ::
    "nodes \<Rightarrow> addr \<Rightarrow> addr option \<Rightarrow> addr option \<Rightarrow> nodes result" where
  "list_add_between h new p n =
     bind_res (set_prev h n (Some new)) (\<lambda>h.
     bind_res (set_next h (Some new) n) (\<lambda>h.
     bind_res (set_prev h (Some new) p) (\<lambda>h.
     set_next h p (Some new))))"

definition list_add :: "nodes \<Rightarrow> addr \<Rightarrow> addr \<Rightarrow> nodes result" where
  "list_add h new head =
     bind_res (load h (Some head)) (\<lambda>n. list_add_between h new (Some head) (nxt n))"

definition list_add_tail :: "nodes \<Rightarrow> addr \<Rightarrow> addr \<Rightarrow> nodes result" where
  "list_add_tail h new head =
     bind_res (load h (Some head)) (\<lambda>n. list_add_between h new (prv n) (Some head))"

definition list_empty :: "nodes \<Rightarrow> addr \<Rightarrow> bool result" where
  "list_empty h head = bind_res (load h (Some head)) (\<lambda>n. Inr (nxt n = Some head))"

definition list_del_between :: "nodes \<Rightarrow> addr option \<Rightarrow> addr option \<Rightarrow> nodes result" where
  "list_del_between h p n =
     bind_res (set_prev h n p) (\<lambda>h. set_next h p n)"

definition list_del :: "nodes \<Rightarrow> addr \<Rightarrow> nodes result" where
  "list_del h e =
     bind_res (load h (Some e)) (\<lambda>n.
     bind_res (list_del_between h (prv n) (nxt n)) (\<lambda>h.
     bind_res (set_next h (Some e) None) (\<lambda>h.
     set_prev h (Some e) None)))"

text \<open>
  \<open>list_for_each_entry\<close> with a body that returns at the first entry satisfying \<open>P\<close>: \<open>None\<close> is a
  loop that never returns, \<open>Some (Inr None)\<close> a loop that reaches the head again. A null link is
  dereferenced at the next entry's body.
\<close>

definition follow :: "nodes \<Rightarrow> addr \<Rightarrow> addr result" where
  "follow h a =
     bind_res (load h (Some a)) (\<lambda>n. case nxt n of None \<Rightarrow> Inl Null_Pointer | Some b \<Rightarrow> Inr b)"

partial_function (option) walk ::
    "nodes \<Rightarrow> addr \<Rightarrow> (addr \<Rightarrow> bool result) \<Rightarrow> addr \<Rightarrow> addr option result option" where
  "walk h head P a =
     (if a = head then Some (Inr None)
      else (case P a of
              Inl f \<Rightarrow> Some (Inl f)
            | Inr b \<Rightarrow>
                if b then Some (Inr (Some a))
                else (case follow h a of
                        Inl f \<Rightarrow> Some (Inl f)
                      | Inr a' \<Rightarrow> walk h head P a')))"

definition list_find :: "nodes \<Rightarrow> addr \<Rightarrow> (addr \<Rightarrow> bool result) \<Rightarrow> addr option result" where
  "list_find h head P =
     bind_res (follow h head) (\<lambda>a.
     case walk h head P a of None \<Rightarrow> Inl Diverges | Some r \<Rightarrow> r)"

section \<open>Well-formed lists\<close>

definition next_of :: "nodes \<Rightarrow> addr \<Rightarrow> addr option" where
  "next_of h a = Option.bind (h a) nxt"

definition prev_of :: "nodes \<Rightarrow> addr \<Rightarrow> addr option" where
  "prev_of h a = Option.bind (h a) prv"

definition linked :: "nodes \<Rightarrow> addr \<Rightarrow> addr \<Rightarrow> bool" where
  "linked h a b \<longleftrightarrow> next_of h a = Some b \<and> prev_of h b = Some a"

fun links :: "nodes \<Rightarrow> addr \<Rightarrow> addr list \<Rightarrow> addr \<Rightarrow> bool" where
  "links h a [] z = linked h a z"
| "links h a (x # xs) z = (linked h a x \<and> links h x xs z)"

text \<open>\<open>dlist h head xs\<close>: from the head the nodes \<open>xs\<close> follow one another and lead back to it.\<close>

definition dlist :: "nodes \<Rightarrow> addr \<Rightarrow> addr list \<Rightarrow> bool" where
  "dlist h head xs \<longleftrightarrow> distinct (head # xs) \<and> links h head xs head"

lemma links_append: "links h a (xs @ y # ys) z \<longleftrightarrow> links h a xs y \<and> links h y ys z"
  by (induction xs arbitrary: a) auto

text \<open>A segment depends on the forward links of its nodes but the last, and backward but the first.\<close>

lemma links_cong:
  assumes "\<forall>b \<in> set (a # xs). next_of h' b = next_of h b"
    "\<forall>b \<in> set (xs @ [z]). prev_of h' b = prev_of h b"
  shows "links h' a xs z = links h a xs z"
  using assms by (induction xs arbitrary: a) (auto simp: linked_def)

lemma linkedD:
  assumes "linked h a b"
  obtains n m where "h a = Some n" "nxt n = Some b" "h b = Some m" "prv m = Some a"
  using assms by (auto simp: linked_def next_of_def prev_of_def bind_eq_Some_conv)

lemma dlist_frame:
  "dlist h head xs \<Longrightarrow> (\<forall>b \<in> set (head # xs). h' b = h b) \<Longrightarrow> dlist h' head xs"
  using links_cong [of head xs h' h head] by (auto simp: dlist_def next_of_def prev_of_def)

lemma links_nodes: "links h a xs z \<Longrightarrow> b \<in> set (a # xs @ [z]) \<Longrightarrow> \<exists>n. h b = Some n"
  by (induction xs arbitrary: a) (auto elim: linkedD)

lemma dlist_nodes: "dlist h head xs \<Longrightarrow> b \<in> set (head # xs) \<Longrightarrow> \<exists>n. h b = Some n"
  using links_nodes [of h head xs head b] by (auto simp: dlist_def)

section \<open>Splicing\<close>

text \<open>What the two pointer splices do to the links, field by field.\<close>

lemma list_add_between_ok:
  assumes "h p = Some np" "h q = Some nq" "h new = Some nn" "new \<noteq> p" "new \<noteq> q"
  obtains h' where "list_add_between h new (Some p) (Some q) = Inr h'"
    "next_of h' = (next_of h)(p := Some new, new := Some q)"
    "prev_of h' = (prev_of h)(q := Some new, new := Some p)"
    "\<forall>b. b \<notin> {p, q, new} \<longrightarrow> h' b = h b" "dom h' = dom h"
proof -
  define h' where "h' = the_elem (case list_add_between h new (Some p) (Some q) of Inr h' \<Rightarrow> {h'} | Inl _ \<Rightarrow> {})"
  have "list_add_between h new (Some p) (Some q) = Inr h'"
    using assms by (cases "p = q") (auto simp: h'_def list_add_between_def set_next_def set_prev_def load_def)
  moreover have "next_of h' = (next_of h)(p := Some new, new := Some q)"
    "prev_of h' = (prev_of h)(q := Some new, new := Some p)"
    "\<forall>b. b \<notin> {p, q, new} \<longrightarrow> h' b = h b" "dom h' = dom h"
    using assms
    by (cases "p = q"; auto simp: h'_def list_add_between_def set_next_def set_prev_def load_def
        next_of_def prev_of_def fun_eq_iff split: if_splits)+
  ultimately show thesis by (rule that)
qed


lemma list_del_between_ok:
  assumes "h p = Some np" "h q = Some nq"
  obtains h' where "list_del_between h (Some p) (Some q) = Inr h'"
    "next_of h' = (next_of h)(p := Some q)" "prev_of h' = (prev_of h)(q := Some p)"
    "\<forall>b. b \<notin> {p, q} \<longrightarrow> h' b = h b" "dom h' = dom h"
proof -
  define h' where "h' = the_elem (case list_del_between h (Some p) (Some q) of Inr h' \<Rightarrow> {h'} | Inl _ \<Rightarrow> {})"
  have "list_del_between h (Some p) (Some q) = Inr h'"
    using assms by (cases "p = q") (auto simp: h'_def list_del_between_def set_next_def set_prev_def load_def)
  moreover have "next_of h' = (next_of h)(p := Some q)" "prev_of h' = (prev_of h)(q := Some p)"
    "\<forall>b. b \<notin> {p, q} \<longrightarrow> h' b = h b" "dom h' = dom h"
    using assms
    by (cases "p = q"; auto simp: h'_def list_del_between_def set_next_def set_prev_def load_def
        next_of_def prev_of_def fun_eq_iff split: if_splits)+
  ultimately show thesis by (rule that)
qed

section \<open>The operations on a well-formed list\<close>

lemma dlist_single: "dlist h a [] \<longleftrightarrow> next_of h a = Some a \<and> prev_of h a = Some a"
  by (simp add: dlist_def linked_def)

lemma init_list_head_ok:
  assumes "h a = Some n"
  shows "init_list_head h a = Inr (h(a \<mapsto> \<lparr>nxt = Some a, prv = Some a\<rparr>))"
  using assms by (simp add: init_list_head_def set_next_def set_prev_def load_def)

lemma links_last: "links h a xs z \<Longrightarrow> linked h (last (a # xs)) z"
  by (induction xs arbitrary: a) auto

lemma links_hd: "links h a xs z \<Longrightarrow> linked h a (hd (xs @ [z]))"
  by (cases xs) auto

lemma list_add_tail_ok:
  assumes l: "dlist h head xs" and new: "h new = Some nn" "new \<notin> set (head # xs)"
  obtains h' where "list_add_tail h new head = Inr h'" "dlist h' head (xs @ [new])"
    "\<forall>b. b \<notin> set (new # head # xs) \<longrightarrow> h' b = h b" "dom h' = dom h"
proof -
  define p where "p = last (head # xs)"
  have k: "links h head xs head" "distinct (head # xs)" using l by (auto simp: dlist_def)
  then have "linked h p head" unfolding p_def by (intro links_last)
  then obtain np nh where n: "h p = Some np" "nxt np = Some head" "h head = Some nh" "prv nh = Some p"
    by (rule linkedD)
  have p: "p \<in> set (head # xs)" unfolding p_def by (rule last_in_set) simp
  with new have "new \<noteq> p" "new \<noteq> head" by auto
  then obtain h' where h': "list_add_between h new (Some p) (Some head) = Inr h'"
    "next_of h' = (next_of h)(p := Some new, new := Some head)"
    "prev_of h' = (prev_of h)(head := Some new, new := Some p)"
    "\<forall>b. b \<notin> {p, head, new} \<longrightarrow> h' b = h b" "dom h' = dom h"
    by (rule list_add_between_ok [OF n(1) n(3) new(1)])
  have "links h' head xs new \<and> linked h' new head"
  proof (cases xs rule: rev_cases)
    case Nil
    with h' p_def \<open>new \<noteq> head\<close> show ?thesis by (simp add: linked_def)
  next
    case (snoc ys y)
    then have y: "y = p" by (simp add: p_def)
    then have "links h head ys p" using k(1) snoc by (simp add: links_append)
    moreover have "links h' head ys p = links h head ys p"
      by (rule links_cong) (use k(2) snoc y new(2) h' in auto)
    ultimately show ?thesis using snoc y h' \<open>new \<noteq> p\<close> \<open>new \<noteq> head\<close>
      by (simp add: links_append linked_def)
  qed
  then have "dlist h' head (xs @ [new])"
    using k(2) new(2) by (auto simp: dlist_def links_append)
  moreover have "list_add_tail h new head = Inr h'"
    using n h'(1) by (simp add: list_add_tail_def load_def)
  moreover have "\<forall>b. b \<notin> set (new # head # xs) \<longrightarrow> h' b = h b" using h'(4) p by auto
  ultimately show thesis using h'(5) that by blast
qed

lemma list_del_ok:
  assumes l: "dlist h head (xs @ e # ys)"
  obtains h' where "list_del h e = Inr h'" "dlist h' head (xs @ ys)"
    "h' e = Some \<lparr>nxt = None, prv = None\<rparr>"
    "\<forall>b. b \<notin> set (head # xs @ e # ys) \<longrightarrow> h' b = h b" "dom h' = dom h"
proof -
  define p where "p = last (head # xs)"
  define q where "q = hd (ys @ [head])"
  have k: "links h head xs e" "links h e ys head" "distinct (head # xs @ e # ys)"
    using l by (auto simp: dlist_def links_append)
  from k have lk: "linked h p e" "linked h e q" unfolding p_def q_def by (blast intro: links_last links_hd)+
  then obtain np ne nq where n: "h p = Some np" "h e = Some ne" "prv ne = Some p" "nxt ne = Some q" "h q = Some nq"
    by (metis linkedD option.inject)
  have p: "p \<in> set (head # xs)" unfolding p_def by (rule last_in_set) simp
  have q: "q \<in> set (head # ys)" unfolding q_def by (cases ys) auto
  have ne: "e \<noteq> p" "e \<noteq> q" using p q k(3) by auto
  obtain h1 where h1: "list_del_between h (Some p) (Some q) = Inr h1"
    "next_of h1 = (next_of h)(p := Some q)" "prev_of h1 = (prev_of h)(q := Some p)"
    "\<forall>b. b \<notin> {p, q} \<longrightarrow> h1 b = h b" "dom h1 = dom h"
    by (rule list_del_between_ok [OF n(1) n(5)])
  have e1: "h1 e = Some ne" using h1(4) ne n(2) by auto
  define h' where "h' = h1(e \<mapsto> \<lparr>nxt = None, prv = None\<rparr>)"
  have "list_del h e = Inr h'"
    using n h1(1) e1 by (simp add: list_del_def load_def h'_def set_next_def set_prev_def)
  moreover have nh: "next_of h' = (next_of h)(p := Some q, e := None)"
    "prev_of h' = (prev_of h)(q := Some p, e := None)"
    using h1(2,3) by (auto simp: h'_def next_of_def prev_of_def fun_eq_iff)
  have "links h' head (xs @ ys) head"
  proof (cases xs rule: rev_cases)
    case Nil
    then have p: "p = head" by (simp add: p_def)
    show ?thesis
    proof (cases ys)
      case Nil
      with \<open>xs = []\<close> p q_def nh ne show ?thesis by (simp add: linked_def)
    next
      case (Cons z zs)
      have "links h' q zs head = links h q zs head"
        by (rule links_cong) (use k(3) Cons q_def p nh in auto)
      with \<open>xs = []\<close> Cons p q_def nh k(2) ne show ?thesis by (simp add: linked_def)
    qed
  next
    case (snoc us u)
    then have u: "u = p" by (simp add: p_def)
    have a: "links h' head us p = links h head us p"
      by (rule links_cong) (use k(3) snoc u q nh in auto)
    show ?thesis
    proof (cases ys)
      case Nil
      with snoc u a k(1) q_def nh ne show ?thesis by (simp add: links_append linked_def)
    next
      case (Cons z zs)
      have "links h' q zs head = links h q zs head"
        by (rule links_cong) (use k(3) Cons snoc q_def u nh in auto)
      with snoc u a Cons k q_def nh ne show ?thesis by (simp add: links_append linked_def)
    qed
  qed
  then have "dlist h' head (xs @ ys)" using k(3) by (auto simp: dlist_def)
  moreover have "h' e = Some \<lparr>nxt = None, prv = None\<rparr>" by (simp add: h'_def)
  moreover have "\<forall>b. b \<notin> set (head # xs @ e # ys) \<longrightarrow> h' b = h b"
    using h1(4) p q by (auto simp: h'_def)
  moreover have "dom h' = dom h" using h1(5) n(2) by (auto simp: h'_def)
  ultimately show thesis by (rule that)
qed

text \<open>A node that \<open>list_del\<close> has taken out cannot be taken out again.\<close>

lemma list_del_unlinked: "h e = Some n \<Longrightarrow> nxt n = None \<Longrightarrow> list_del h e = Inl Null_Pointer"
  by (simp add: list_del_def list_del_between_def set_prev_def load_def)

section \<open>Searching\<close>

lemma follow_next: "next_of h a = Some b \<Longrightarrow> follow h a = Inr b"
  by (auto simp: follow_def next_of_def load_def bind_eq_Some_conv)

lemma walk_links:
  assumes "links h a xs head" "head \<notin> set xs" "\<forall>b \<in> set xs. \<exists>v. P b = Inr v"
    "follow h a = Inr b"
  shows "walk h head P b = Some (Inr (List.find (\<lambda>b. P b = Inr True) xs))"
  using assms
proof (induction xs arbitrary: a b)
  case Nil
  then have "b = head" using follow_next [of h a head] by (simp add: linked_def)
  then show ?case by (simp add: walk.simps)
next
  case (Cons x xs)
  have b: "b = x" using Cons.prems(1,4) follow_next [of h a x] by (simp add: linked_def)
  obtain v where v: "P x = Inr v" using Cons.prems(3) by auto
  show ?case
  proof (cases v)
    case True
    with v b Cons.prems(2) show ?thesis by (subst walk.simps) auto
  next
    case False
    have "linked h x (hd (xs @ [head]))" using Cons.prems(1) by (auto intro: links_hd)
    then have f: "follow h x = Inr (hd (xs @ [head]))" by (auto simp: linked_def intro: follow_next)
    have "walk h head P (hd (xs @ [head])) = Some (Inr (List.find (\<lambda>b. P b = Inr True) xs))"
      by (rule Cons.IH [OF _ _ _ f]) (use Cons.prems in auto)
    with f v b False Cons.prems(2) show ?thesis by (subst walk.simps) auto
  qed
qed

text \<open>On a well-formed list the search returns, with the first entry that satisfies the test.\<close>

lemma list_find_ok:
  assumes "dlist h head xs" "\<forall>b \<in> set xs. \<exists>v. P b = Inr v"
  shows "list_find h head P = Inr (List.find (\<lambda>b. P b = Inr True) xs)"
proof -
  have l: "links h head xs head" "head \<notin> set xs" using assms(1) by (auto simp: dlist_def)
  then have "linked h head (hd (xs @ [head]))" by (intro links_hd)
  then have f: "follow h head = Inr (hd (xs @ [head]))" by (auto simp: linked_def intro: follow_next)
  from walk_links [OF l(1,2) assms(2) f] f show ?thesis by (simp add: list_find_def)
qed

section \<open>Traversal with a body that does not return\<close>

text \<open>\<open>list_for_each_entry\<close> whose body updates a state \<open>x\<close>; \<open>None\<close> is a loop that never returns.\<close>

partial_function (option) walk_each ::
    "nodes \<Rightarrow> addr \<Rightarrow> ('b \<Rightarrow> addr \<Rightarrow> 'b result) \<Rightarrow> 'b \<Rightarrow> addr \<Rightarrow> 'b result option" where
  "walk_each h head f x a =
     (if a = head then Some (Inr x)
      else (case f x a of
              Inl e \<Rightarrow> Some (Inl e)
            | Inr x' \<Rightarrow>
                (case follow h a of
                   Inl e \<Rightarrow> Some (Inl e)
                 | Inr a' \<Rightarrow> walk_each h head f x' a')))"

definition list_for_each :: "nodes \<Rightarrow> addr \<Rightarrow> ('b \<Rightarrow> addr \<Rightarrow> 'b result) \<Rightarrow> 'b \<Rightarrow> 'b result" where
  "list_for_each h head f x =
     bind_res (follow h head) (\<lambda>a.
     case walk_each h head f x a of None \<Rightarrow> Inl Diverges | Some r \<Rightarrow> r)"

text \<open>On a well-formed list it ends, and is the loop over the list of entries.\<close>

fun each_res :: "('b \<Rightarrow> 'a \<Rightarrow> 'b result) \<Rightarrow> 'b \<Rightarrow> 'a list \<Rightarrow> 'b result" where
  "each_res f x [] = Inr x"
| "each_res f x (a # as) = bind_res (f x a) (\<lambda>x. each_res f x as)"

lemma walk_each_links:
  assumes "links h a xs head" "head \<notin> set xs" "follow h a = Inr b"
  shows "walk_each h head f x b = Some (each_res f x xs)"
  using assms
proof (induction xs arbitrary: a b x)
  case Nil
  then have "b = head" using follow_next [of h a head] by (simp add: linked_def)
  then show ?case by (simp add: walk_each.simps)
next
  case (Cons y ys)
  have b: "b = y" "y \<noteq> head" using Cons.prems follow_next [of h a y] by (auto simp: linked_def)
  have l: "links h y ys head" using Cons.prems(1) by simp
  then have "linked h y (hd (ys @ [head]))" by (rule links_hd)
  then have n: "follow h y = Inr (hd (ys @ [head]))" by (auto simp: linked_def intro: follow_next)
  show ?case
    using Cons.IH [OF l _ n] Cons.prems(2) b n
    by (cases "f x y") (simp_all add: walk_each.simps [of h head f x y])
qed

lemma list_for_each_ok:
  assumes "dlist h head xs"
  shows "list_for_each h head f x = each_res f x xs"
proof -
  have l: "links h head xs head" "head \<notin> set xs" using assms by (auto simp: dlist_def)
  then have "linked h head (hd (xs @ [head]))" by (intro links_hd)
  then have n: "follow h head = Inr (hd (xs @ [head]))" by (auto simp: linked_def intro: follow_next)
  show ?thesis by (simp add: list_for_each_def n walk_each_links [OF l n])
qed

lemma each_res_append: "each_res f x (xs @ ys) = bind_res (each_res f x xs) (\<lambda>x. each_res f x ys)"
  by (induction xs arbitrary: x) (simp_all add: bind_res_assoc)

end
