(* ===== verification/C_String.thy ===== *)
theory C_String
  imports Ldal_Prelude "HOL-Library.Sublist"
begin

text \<open>
  The parts of C's string library the program uses, on character buffers. A pointer argument
  \<open>const char *s\<close> is a HOL string \<open>s\<close> without its terminator; an array member of a structure is
  the whole array, terminator and stale bytes included.
\<close>

section \<open>Terminated buffers\<close>

definition NUL :: char where
  "NUL = CHR 0x00"

definition c_string :: "string \<Rightarrow> bool" where
  "c_string s \<longleftrightarrow> NUL \<notin> set s"

text \<open>The string a buffer holds; reading an unterminated buffer overruns it.\<close>

definition cstr :: "char list \<Rightarrow> string" where
  "cstr buf = takeWhile (\<lambda>c. c \<noteq> NUL) buf"

definition read_cstr :: "char list \<Rightarrow> string result" where
  "read_cstr buf = (if NUL \<in> set buf then Inr (cstr buf) else Inl Out_Of_Bounds)"

lemma cstr_terminated [simp]: "c_string s \<Longrightarrow> cstr (s @ NUL # junk) = s"
  by (auto simp: cstr_def c_string_def takeWhile_append)

lemma cstr_plain [simp]: "c_string s \<Longrightarrow> cstr s = s"
  by (auto simp: cstr_def c_string_def takeWhile_eq_all_conv)

lemma c_string_cstr [simp]: "c_string (cstr buf)"
  by (auto simp: cstr_def c_string_def dest: set_takeWhileD)

lemma read_cstr_terminated [simp]: "c_string s \<Longrightarrow> read_cstr (s @ NUL # junk) = Inr s"
  by (simp add: read_cstr_def)

lemma c_string_simps [simp]:
  "c_string []"
  "c_string (c # s) \<longleftrightarrow> c \<noteq> NUL \<and> c_string s"
  "c_string (s @ t) \<longleftrightarrow> c_string s \<and> c_string t"
  by (auto simp: c_string_def)

section \<open>Comparison\<close>

text \<open>\<open>strncmp(a, b, n) == 0\<close> on two memory areas.\<close>

fun strncmp_eq :: "char list \<Rightarrow> char list \<Rightarrow> nat \<Rightarrow> bool result" where
  "strncmp_eq a b 0 = Inr True"
| "strncmp_eq (x # a) (y # b) (Suc n) =
     (if x \<noteq> y then Inr False else if x = NUL then Inr True else strncmp_eq a b n)"
| "strncmp_eq _ _ (Suc n) = Inl Out_Of_Bounds"

text \<open>Whether the string in a terminated buffer starts with \<open>s\<close>.\<close>

lemma strncmp_cstr:
  assumes "c_string s" "NUL \<in> set buf"
  shows "strncmp_eq buf (s @ [NUL]) (length s) = Inr (take (length s) (cstr buf) = s)"
  using assms
proof (induction s arbitrary: buf)
  case Nil
  show ?case by simp
next
  case (Cons c s)
  then obtain d buf' where buf: "buf = d # buf'" by (cases buf) auto
  show ?case
  proof (cases "d = NUL")
    case True
    with Cons.prems buf show ?thesis by (auto simp: cstr_def)
  next
    case False
    with Cons buf show ?thesis by (auto simp: cstr_def)
  qed
qed

section \<open>Copying into an array\<close>

text \<open>
  \<open>memcpy(buf, s, strlen(s))\<close> (no terminator is copied) and \<open>sprintf\<close>/\<open>strcpy\<close> of \<open>s\<close> (one is).
\<close>

definition copy_chars :: "char list \<Rightarrow> string \<Rightarrow> char list result" where
  "copy_chars buf s = memcpy buf 0 s 0 (int (length s))"

definition copy_string :: "char list \<Rightarrow> string \<Rightarrow> char list result" where
  "copy_string buf s = memcpy buf 0 (s @ [NUL]) 0 (int (length s) + 1)"

lemma copy_chars_ok:
  "length s \<le> length buf \<Longrightarrow> copy_chars buf s = Inr (s @ drop (length s) buf)"
  by (simp add: copy_chars_def memcpy_def)

lemma copy_string_ok:
  "length s < length buf \<Longrightarrow> copy_string buf s = Inr (s @ NUL # drop (Suc (length s)) buf)"
  by (simp add: copy_string_def memcpy_def nat_add_distrib)

lemma copy_string_overrun: "length buf \<le> length s \<Longrightarrow> copy_string buf s = Inl Out_Of_Bounds"
  by (simp add: copy_string_def memcpy_def)

lemma copy_chars_overrun: "length buf < length s \<Longrightarrow> copy_chars buf s = Inl Out_Of_Bounds"
  by (simp add: copy_chars_def memcpy_def)

section \<open>Decimal numbers\<close>

definition digit_char :: "nat \<Rightarrow> char" where
  "digit_char d = char_of (48 + d)"

definition is_digit :: "char \<Rightarrow> bool" where
  "is_digit c \<longleftrightarrow> 48 \<le> (of_char c :: nat) \<and> (of_char c :: nat) \<le> 57"

definition digit_value :: "char \<Rightarrow> nat" where
  "digit_value c = of_char c - 48"

text \<open>What \<open>%u\<close> and \<open>%d\<close> of a non-negative number print.\<close>

fun decimal :: "nat \<Rightarrow> string" where
  "decimal n = (if n < 10 then [digit_char n] else decimal (n div 10) @ [digit_char (n mod 10)])"

declare decimal.simps [simp del]

lemma decimal_length: "n < 10 ^ k \<Longrightarrow> 0 < k \<Longrightarrow> length (decimal n) \<le> k"
proof (induction n arbitrary: k rule: decimal.induct)
  case (1 n)
  show ?case
  proof (cases "n < 10")
    case True
    then show ?thesis using 1 by (simp add: decimal.simps [of n])
  next
    case False
    obtain j where k: "k = Suc j" using 1(3) by (cases k) auto
    have "0 < j" using False 1(2) k by (cases j) auto
    moreover have "n div 10 < 10 ^ j" using 1(2) k by (simp add: less_mult_imp_div_less mult.commute)
    ultimately have "length (decimal (n div 10)) \<le> j" using 1(1) [OF False] by simp
    then show ?thesis using False k by (simp add: decimal.simps [of n])
  qed
qed

fun digits_value :: "nat \<Rightarrow> string \<Rightarrow> nat" where
  "digits_value acc [] = acc"
| "digits_value acc (c # s) =
     (if is_digit c then digits_value (10 * acc + digit_value c) s else acc)"

definition is_space :: "char \<Rightarrow> bool" where
  "is_space c \<longleftrightarrow> (of_char c :: nat) = 32 \<or> 9 \<le> (of_char c :: nat) \<and> (of_char c :: nat) \<le> 13"

text \<open>\<open>atoi\<close>: leading white space, a sign, digits. A value out of the range of \<open>int\<close> is undefined.\<close>

definition atoi :: "string \<Rightarrow> int result" where
  "atoi s =
     (let s = dropWhile is_space s;
          v = (case s of
                 [] \<Rightarrow> 0
               | c # r \<Rightarrow>
                   if c = CHR ''-'' then - int (digits_value 0 r)
                   else if c = CHR ''+'' then int (digits_value 0 r)
                   else int (digits_value 0 s))
      in if - (2 ^ 31) \<le> v \<and> v < 2 ^ 31 then Inr v else Inl Int_Overflow)"

lemma of_char_digit: "d < 10 \<Longrightarrow> (of_char (digit_char d) :: nat) = 48 + d"
  by (simp add: digit_char_def)

lemma digit_char_facts [simp]:
  assumes "d < 10"
  shows "is_digit (digit_char d)" "digit_value (digit_char d) = d"
    "\<not> is_space (digit_char d)" "digit_char d \<noteq> NUL" "digit_char d \<noteq> CHR '':''"
    "digit_char d \<noteq> CHR ''-''" "digit_char d \<noteq> CHR ''+''"
proof -
  note o = of_char_digit [OF assms]
  show "is_digit (digit_char d)" "digit_value (digit_char d) = d" "\<not> is_space (digit_char d)"
    using o assms by (simp_all add: is_digit_def digit_value_def is_space_def)
  have "(of_char c :: nat) \<noteq> 48 + d \<Longrightarrow> digit_char d \<noteq> c" for c using o by auto
  then show "digit_char d \<noteq> NUL" "digit_char d \<noteq> CHR '':''"
    "digit_char d \<noteq> CHR ''-''" "digit_char d \<noteq> CHR ''+''"
    using assms by (simp_all add: NUL_def)
qed

lemma decimal_digits: "\<forall>c \<in> set (decimal n). \<exists>d < 10. c = digit_char d"
proof (induction n rule: decimal.induct)
  case (1 n)
  show ?case
  proof (cases "n < 10")
    case True
    then show ?thesis by (auto simp: decimal.simps [of n])
  next
    case False
    have "n mod 10 < 10" by simp
    then have "\<exists>d < 10. digit_char (n mod 10) = digit_char d" by blast
    with 1 [OF False] False show ?thesis by (auto simp: decimal.simps [of n])
  qed
qed

lemma decimal_nonempty [simp]: "decimal n \<noteq> []"
  by (subst decimal.simps) simp

lemma digits_value_append:
  "\<forall>c \<in> set s. is_digit c \<Longrightarrow> digits_value acc (s @ t) = digits_value (digits_value acc s) t"
  by (induction s arbitrary: acc) auto

lemma digits_value_decimal: "digits_value 0 (decimal n) = n"
proof (induction n rule: decimal.induct)
  case (1 n)
  show ?case
  proof (cases "n < 10")
    case True
    then show ?thesis by (simp add: decimal.simps [of n])
  next
    case False
    have "\<forall>c \<in> set (decimal (n div 10)). is_digit c" using decimal_digits by fastforce
    then show ?thesis
      using 1 [OF False] False by (simp add: decimal.simps [of n] digits_value_append)
  qed
qed

lemma decimal_c_string [simp]: "c_string (decimal n)"
  using decimal_digits [of n] digit_char_facts(4) unfolding c_string_def by metis

lemma decimal_no_colon: "CHR '':'' \<notin> set (decimal n)"
  using decimal_digits [of n] digit_char_facts(5) by metis

lemma atoi_decimal:
  assumes "n < 2 ^ 31"
  shows "atoi (decimal n) = Inr (int n)"
proof -
  obtain c r where cr: "decimal n = c # r" by (cases "decimal n") auto
  then obtain d where d: "d < 10" "c = digit_char d" using decimal_digits [of n] by auto
  have v: "digits_value 0 (c # r) = n" using digits_value_decimal [of n] cr by simp
  have "int n < 2 ^ 31" using assms by simp
  with v d show ?thesis
    unfolding atoi_def cr by (simp del: digits_value.simps)
qed

section \<open>Printing and scanning \<open>%d\<close>\<close>

definition print_d :: "int \<Rightarrow> string" where
  "print_d v = (if v < 0 then CHR ''-'' # decimal (nat (- v)) else decimal (nat v))"

text \<open>
  The outcomes of \<open>fscanf(fp, "%d", &v)\<close> on the text of the stream: the input ends before a number could
  begin, what is there is not a number, or a number, whose size is not checked here.
\<close>

datatype scan = Scan_Eof | Scan_Mismatch | Scan_Int int

definition scan_d :: "string \<Rightarrow> scan" where
  "scan_d s =
     (let s = dropWhile is_space s;
          neg = (s \<noteq> [] \<and> hd s = CHR ''-'');
          r = (if neg \<or> s \<noteq> [] \<and> hd s = CHR ''+'' then tl s else s)
      in if s = [] then Scan_Eof
         else if r = [] \<or> \<not> is_digit (hd r) then Scan_Mismatch
         else Scan_Int (if neg then - int (digits_value 0 r) else int (digits_value 0 r)))"

lemma scan_print_d: "scan_d (print_d v) = Scan_Int v"
proof -
  obtain c r where cr: "decimal (nat \<bar>v\<bar>) = c # r" by (cases "decimal (nat \<bar>v\<bar>)") auto
  then obtain d where d: "d < 10" "c = digit_char d" using decimal_digits [of "nat \<bar>v\<bar>"] by auto
  have "digits_value 0 (c # r) = nat \<bar>v\<bar>" using digits_value_decimal [of "nat \<bar>v\<bar>"] cr by simp
  moreover have "\<not> is_space (CHR ''-'')" by (simp add: is_space_def)
  ultimately show ?thesis
    using cr d by (cases "v < 0") (simp_all add: scan_d_def print_d_def Let_def del: digits_value.simps)
qed

section \<open>Splitting at a delimiter\<close>

text \<open>
  Two successive calls \<open>strtok(s, d)\<close>, \<open>strtok(NULL, d)\<close> with a one-character delimiter: each
  skips leading delimiters and takes the characters up to the next one.
\<close>

definition strtok :: "char \<Rightarrow> string \<Rightarrow> string option \<times> string" where
  "strtok d s =
     (let s = dropWhile (\<lambda>c. c = d) s in
      if s = [] then (None, [])
      else (Some (takeWhile (\<lambda>c. c \<noteq> d) s), drop 1 (dropWhile (\<lambda>c. c \<noteq> d) s)))"

lemma strtok_token:
  assumes "s \<noteq> []" "d \<notin> set s"
  shows "strtok d (s @ d # t) = (Some s, t)" "strtok d s = (Some s, [])"
proof -
  have "dropWhile (\<lambda>c. c = d) (s @ d # t) = s @ d # t" "dropWhile (\<lambda>c. c = d) s = s"
    using assms by (cases s; auto)+
  moreover have "takeWhile (\<lambda>c. c \<noteq> d) (s @ d # t) = s" "dropWhile (\<lambda>c. c \<noteq> d) (s @ d # t) = d # t"
    "takeWhile (\<lambda>c. c \<noteq> d) s = s" "dropWhile (\<lambda>c. c \<noteq> d) s = []"
    using assms(2) by (induction s) auto
  ultimately show "strtok d (s @ d # t) = (Some s, t)" "strtok d s = (Some s, [])"
    using assms by (simp_all add: strtok_def del: dropWhile_eq_Nil_conv)
qed

section \<open>Strings inside a buffer\<close>

text \<open>
  \<open>strlen(buf + p)\<close> and the string at \<open>buf + p\<close>; \<open>strstr(s, t) != NULL\<close>.
\<close>

definition cstr_at :: "char list \<Rightarrow> nat \<Rightarrow> string result" where
  "cstr_at buf p = (if p \<le> length buf then read_cstr (drop p buf) else Inl Out_Of_Bounds)"

definition strstr :: "string \<Rightarrow> string \<Rightarrow> bool" where
  "strstr s t \<longleftrightarrow> sublist t s"

text \<open>Lines that follow each other in a buffer, each terminated.\<close>

definition pack_lines :: "string list \<Rightarrow> char list" where
  "pack_lines ls = concat (map (\<lambda>l. l @ [NUL]) ls)"

lemma pack_lines_simps [simp]:
  "pack_lines [] = []" "pack_lines (l # ls) = l @ NUL # pack_lines ls"
  "pack_lines (ks @ ls) = pack_lines ks @ pack_lines ls"
  by (simp_all add: pack_lines_def)

lemma cstr_at_line: "c_string l \<Longrightarrow> cstr_at (pack_lines ks @ l @ NUL # rest) (length (pack_lines ks)) = Inr l"
  by (simp add: cstr_at_def)

text \<open>The bytes of a string.\<close>

definition str_bytes :: "string \<Rightarrow> byte list" where
  "str_bytes s = map (\<lambda>c. word_of_nat (of_char c)) s"

definition bytes_str :: "byte list \<Rightarrow> string" where
  "bytes_str bs = map (\<lambda>b. char_of (unat b)) bs"

lemma bytes_str_bytes [simp]: "bytes_str (str_bytes s) = s"
proof (induction s)
  case (Cons c s)
  have "(of_char c :: nat) < 2 ^ 8" using of_char_mod_256 [of c, where 'a = nat] mod_less_divisor [of 256 "of_char c"] by simp
  then have "unat (word_of_nat (of_char c) :: byte) = of_char c" by (intro word_of_nat_unat_small) simp
  with Cons show ?case by (simp add: str_bytes_def bytes_str_def)
qed (simp add: str_bytes_def bytes_str_def)

lemma length_str_bytes [simp]: "length (str_bytes s) = length s" "length (bytes_str bs) = length bs"
  by (simp_all add: str_bytes_def bytes_str_def)

section \<open>Hexadecimal digits\<close>

definition hex_value :: "char \<Rightarrow> nat option" where
  "hex_value c =
     (let n = (of_char c :: nat) in
      if 48 \<le> n \<and> n \<le> 57 then Some (n - 48)
      else if 65 \<le> n \<and> n \<le> 70 then Some (n - 55)
      else if 97 \<le> n \<and> n \<le> 102 then Some (n - 87) else None)"

fun hex_digits :: "nat \<Rightarrow> string \<Rightarrow> nat" where
  "hex_digits acc [] = acc"
| "hex_digits acc (c # s) = (case hex_value c of Some d \<Rightarrow> hex_digits (16 * acc + d) s | None \<Rightarrow> acc)"

text \<open>The digit \<open>%x\<close> prints.\<close>

definition hex_char :: "nat \<Rightarrow> char" where
  "hex_char d = char_of (if d < 10 then 48 + d else 87 + d)"

lemma of_char_hex: "d < 16 \<Longrightarrow> (of_char (hex_char d) :: nat) = (if d < 10 then 48 + d else 87 + d)"
  by (simp add: hex_char_def)

lemma hex_value_char: "d < 16 \<Longrightarrow> hex_value (hex_char d) = Some d"
  by (auto simp: hex_value_def of_char_hex)

end
