(* ===== verification/Kernel.thy ===== *)
theory Kernel
  imports C_String
begin

text \<open>
  The operating system below the library, which is not part of the repository: a record of
  functions on an abstract world \<open>'w\<close>, one per system call the modelled code makes. Every
  theorem holds for all such records unless it states what it relies on. The calls return what
  the C calls return (\<open>-1\<close> on failure) and the new world; \<open>errno\<close> is read from the world.
\<close>

section \<open>Arguments of the calls\<close>

text \<open>\<open>struct sockaddr_in\<close>, port and address in network byte order, and \<open>struct rtc_time\<close>.\<close>

record sockaddr_in =
  sin_family :: nat
  sin_port :: u16
  sin_addr :: u32

record rtc_time =
  tm_sec :: int
  tm_min :: int
  tm_hour :: int
  tm_mday :: int
  tm_mon :: int
  tm_year :: int
  tm_wday :: int
  tm_yday :: int
  tm_isdst :: int

text \<open>\<open>struct termios\<close>; the control characters are those at \<open>VTIME\<close> and \<open>VMIN\<close>, the only ones used.\<close>

record termios =
  c_iflag :: u32
  c_oflag :: u32
  c_cflag :: u32
  c_lflag :: u32
  c_vtime :: byte
  c_vmin :: byte

text \<open>
  \<open>struct ai_type\<close> and \<open>struct ai_calibrate\<close> of \<open>inc/ldal_analog.h\<close>, which the analog driver passes to the
  kernel; the four floats are their bit patterns.
\<close>

record ai_type =
  at_dev :: byte
  at_type :: byte

record ai_calibrate =
  cal_dev :: byte
  vol_a :: u32
  vol_b :: u32
  cur_a :: u32
  cur_b :: u32
  cal_crc :: u16

datatype sockopt =
    Opt_Int int
  | Opt_Timeval int int    \<comment> \<open>seconds and microseconds\<close>
  | Opt_Ifname string

text \<open>
  \<open>k_select\<close> waits for one descriptor, forever or for seconds and microseconds, and also says whether the
  descriptor is in the set afterwards. \<open>k_ftext\<close> is the text that is left of a stream.
\<close>

record 'w kernel =
  k_open :: "string \<Rightarrow> nat \<Rightarrow> nat \<Rightarrow> 'w \<Rightarrow> int \<times> 'w"
  k_close :: "int \<Rightarrow> 'w \<Rightarrow> int \<times> 'w"
  k_read :: "int \<Rightarrow> nat \<Rightarrow> 'w \<Rightarrow> int \<times> byte list \<times> 'w"
  k_write :: "int \<Rightarrow> byte list \<Rightarrow> 'w \<Rightarrow> int \<times> 'w"
  k_lseek :: "int \<Rightarrow> int \<Rightarrow> int \<Rightarrow> 'w \<Rightarrow> int \<times> 'w"
  k_ioctl_null :: "int \<Rightarrow> u32 \<Rightarrow> 'w \<Rightarrow> int \<times> 'w"
  k_ioctl_long :: "int \<Rightarrow> u32 \<Rightarrow> 64 word \<Rightarrow> 'w \<Rightarrow> int \<times> 64 word \<times> 'w"
  k_ioctl_short :: "int \<Rightarrow> u32 \<Rightarrow> u16 \<Rightarrow> 'w \<Rightarrow> int \<times> u16 \<times> 'w"
  k_ioctl_char :: "int \<Rightarrow> u32 \<Rightarrow> byte \<Rightarrow> 'w \<Rightarrow> int \<times> byte \<times> 'w"
  k_ioctl_rtc :: "int \<Rightarrow> u32 \<Rightarrow> rtc_time \<Rightarrow> 'w \<Rightarrow> int \<times> rtc_time \<times> 'w"
  k_fcntl :: "int \<Rightarrow> int \<Rightarrow> int \<Rightarrow> 'w \<Rightarrow> int \<times> 'w"
  k_socket :: "int \<Rightarrow> int \<Rightarrow> int \<Rightarrow> 'w \<Rightarrow> int \<times> 'w"
  k_setsockopt :: "int \<Rightarrow> int \<Rightarrow> int \<Rightarrow> sockopt \<Rightarrow> 'w \<Rightarrow> int \<times> 'w"
  k_getsockopt :: "int \<Rightarrow> int \<Rightarrow> int \<Rightarrow> int \<Rightarrow> 'w \<Rightarrow> int \<times> int \<times> 'w"
  k_bind :: "int \<Rightarrow> sockaddr_in \<Rightarrow> 'w \<Rightarrow> int \<times> 'w"
  k_connect :: "int \<Rightarrow> sockaddr_in \<Rightarrow> 'w \<Rightarrow> int \<times> 'w"
  k_send :: "int \<Rightarrow> byte list \<Rightarrow> int \<Rightarrow> 'w \<Rightarrow> int \<times> 'w"
  k_recv :: "int \<Rightarrow> nat \<Rightarrow> int \<Rightarrow> 'w \<Rightarrow> int \<times> byte list \<times> 'w"
  k_sendto :: "int \<Rightarrow> byte list \<Rightarrow> int \<Rightarrow> sockaddr_in \<Rightarrow> 'w \<Rightarrow> int \<times> 'w"
  k_recvfrom :: "int \<Rightarrow> nat \<Rightarrow> int \<Rightarrow> 'w \<Rightarrow> int \<times> byte list \<times> sockaddr_in option \<times> 'w"
  k_sleep :: "nat \<Rightarrow> 'w \<Rightarrow> 'w"
  k_usleep :: "nat \<Rightarrow> 'w \<Rightarrow> 'w"
  k_isatty :: "int \<Rightarrow> 'w \<Rightarrow> int"
  k_tcgetattr :: "int \<Rightarrow> 'w \<Rightarrow> int \<times> termios \<times> 'w"
  k_tcsetattr :: "int \<Rightarrow> termios \<Rightarrow> 'w \<Rightarrow> int \<times> 'w"
  k_tcflush :: "int \<Rightarrow> int \<Rightarrow> 'w \<Rightarrow> int \<times> 'w"
  k_select :: "int \<Rightarrow> (int \<times> int) option \<Rightarrow> 'w \<Rightarrow> int \<times> bool \<times> 'w"
  k_access :: "string \<Rightarrow> 'w \<Rightarrow> int"
  k_fopen :: "string \<Rightarrow> string \<Rightarrow> 'w \<Rightarrow> int option \<times> 'w"
  k_ftext :: "int \<Rightarrow> 'w \<Rightarrow> string \<times> 'w"
  k_fputs :: "int \<Rightarrow> string \<Rightarrow> 'w \<Rightarrow> int \<times> 'w"
  k_fclose :: "int \<Rightarrow> 'w \<Rightarrow> int \<times> 'w"
  k_ioctl_aitype :: "int \<Rightarrow> u32 \<Rightarrow> ai_type \<Rightarrow> 'w \<Rightarrow> int \<times> 'w"
  k_ioctl_cal :: "int \<Rightarrow> u32 \<Rightarrow> ai_calibrate \<Rightarrow> 'w \<Rightarrow> int \<times> ai_calibrate \<times> 'w"
  k_clock :: "'w \<Rightarrow> int \<times> int \<times> int \<times> 'w"    \<comment> \<open>result, seconds, nanoseconds\<close>
  k_sem_wait :: "int \<Rightarrow> int \<Rightarrow> 'w \<Rightarrow> 'w"    \<comment> \<open>a wait until a time that is not cut short\<close>
  k_calloc :: "'w \<Rightarrow> bool \<times> 'w"    \<comment> \<open>whether the memory could be had\<close>
  k_errno :: "'w \<Rightarrow> int"
  k_inet_addr :: "string \<Rightarrow> u32"
  k_stack_rtc :: "'w \<Rightarrow> rtc_time"    \<comment> \<open>uninitialised local variables\<close>
  k_stack_int :: "'w \<Rightarrow> int"
  k_stack_cal :: "'w \<Rightarrow> ai_calibrate"
  k_heap :: "nat \<Rightarrow> 'w \<Rightarrow> char list"    \<comment> \<open>what new memory holds that was not cleared\<close>

section \<open>Constants of the Linux headers\<close>

definition O_RDWR :: nat where "O_RDWR = 2"
definition O_CREAT :: nat where "O_CREAT = 64"
definition O_RDONLY :: nat where "O_RDONLY = 0"
definition O_WRONLY :: nat where "O_WRONLY = 1"
definition O_NOCTTY :: nat where "O_NOCTTY = 256"
definition O_NDELAY :: nat where "O_NDELAY = 2048"
definition O_NONBLOCK :: nat where "O_NONBLOCK = 2048"
definition SEEK_SET :: int where "SEEK_SET = 0"
definition F_GETFL :: int where "F_GETFL = 3"
definition F_SETFL :: int where "F_SETFL = 4"
definition AF_INET :: nat where "AF_INET = 2"
definition SOCK_STREAM :: int where "SOCK_STREAM = 1"
definition SOCK_DGRAM :: int where "SOCK_DGRAM = 2"
definition SOL_SOCKET :: int where "SOL_SOCKET = 1"
definition SOL_TCP :: int where "SOL_TCP = 6"
definition SO_REUSEADDR :: int where "SO_REUSEADDR = 2"
definition SO_ERROR :: int where "SO_ERROR = 4"
definition SO_KEEPALIVE :: int where "SO_KEEPALIVE = 9"
definition SO_RCVTIMEO :: int where "SO_RCVTIMEO = 20"
definition SO_SNDTIMEO :: int where "SO_SNDTIMEO = 21"
definition SO_BINDTODEVICE :: int where "SO_BINDTODEVICE = 25"
definition TCP_KEEPIDLE :: int where "TCP_KEEPIDLE = 4"
definition TCP_KEEPINTVL :: int where "TCP_KEEPINTVL = 5"
definition TCP_KEEPCNT :: int where "TCP_KEEPCNT = 6"

text \<open>\<open>_IOW(type, nr, size)\<close> and \<open>_IOR\<close>: direction, size, type and number of a request.\<close>

definition iow :: "char \<Rightarrow> nat \<Rightarrow> nat \<Rightarrow> u32" where
  "iow t nr sz = word_of_nat (2 ^ 30 + sz * 2 ^ 16 + of_char t * 2 ^ 8 + nr)"

definition ior :: "char \<Rightarrow> nat \<Rightarrow> nat \<Rightarrow> u32" where
  "ior t nr sz = word_of_nat (2 ^ 31 + sz * 2 ^ 16 + of_char t * 2 ^ 8 + nr)"

definition RTC_RD_TIME :: u32 where "RTC_RD_TIME = ior (CHR ''p'') 9 36"
definition RTC_SET_TIME :: u32 where "RTC_SET_TIME = iow (CHR ''p'') 10 36"

text \<open>\<open>htons\<close> on a little-endian machine.\<close>

definition htons :: "u16 \<Rightarrow> u16" where
  "htons w = push_bit 8 w OR drop_bit 8 w"

lemma htons_htons [simp]: "htons (htons w) = w"
proof (rule bit_eqI)
  fix n
  assume "possible_bit TYPE(u16) n"
  then have "n < 16" by (simp add: possible_bit_word)
  then show "bit (htons (htons w)) n \<longleftrightarrow> bit w n"
    by (cases "n < 8") (auto simp: htons_def bit_simps dest: bit_imp_le_length)
qed

section \<open>Integers\<close>

text \<open>Conversion of a \<open>ssize_t\<close> or a \<open>size_t\<close> to \<open>int\<close>; signed arithmetic that may overflow.\<close>

definition to_int :: "int \<Rightarrow> int" where
  "to_int v = signed_take_bit 31 v"

definition in_int :: "int \<Rightarrow> bool" where
  "in_int v \<longleftrightarrow> - (2 ^ 31) \<le> v \<and> v < 2 ^ 31"

definition c_add :: "int \<Rightarrow> int \<Rightarrow> int result" where
  "c_add a b = (if in_int (a + b) then Inr (a + b) else Inl Int_Overflow)"

lemma to_int_id [simp]: "in_int v \<Longrightarrow> to_int v = v"
  by (simp add: to_int_def in_int_def signed_take_bit_int_eq_self)

lemma in_int_small [simp]: "- 1 \<le> v \<Longrightarrow> v < 2 ^ 31 \<Longrightarrow> in_int v"
  by (simp add: in_int_def)

section \<open>Integers in memory\<close>

text \<open>A little-endian 32-bit \<open>int\<close>.\<close>

definition int_bytes :: "int \<Rightarrow> byte list" where
  "int_bytes v =
     [word_of_int v, word_of_int (v div 2 ^ 8), word_of_int (v div 2 ^ 16), word_of_int (v div 2 ^ 24)]"

definition bytes_int :: "byte list \<Rightarrow> int" where
  "bytes_int bs =
     to_int (uint (bs ! 0) + 2 ^ 8 * uint (bs ! 1) + 2 ^ 16 * uint (bs ! 2) + 2 ^ 24 * uint (bs ! 3))"

lemma div_digit: "0 \<le> a \<Longrightarrow> a < 2 ^ 8 \<Longrightarrow> (a + 2 ^ 8 * k) div 2 ^ 8 = k" for a k :: int
  by simp

lemma byte_of_sum: "word_of_int (uint a + 2 ^ 8 * k) = (a :: byte)"
proof -
  have "word_of_int (uint a + 2 ^ 8 * k) = (a :: byte) + word_of_int (2 ^ 8) * word_of_int k"
    by (simp only: wi_hom_add [symmetric] wi_hom_mult [symmetric] word_of_int_uint)
  also have "(word_of_int (2 ^ 8) :: byte) = 0" by (simp add: word_of_int_2p_len)
  finally show ?thesis by simp
qed

lemma to_int_shift: "\<exists>s. to_int u = u + 2 ^ 32 * s"
proof
  show "to_int u = u + 2 ^ 32 * ((to_int u - u) div 2 ^ 32)"
  proof -
    have "take_bit 32 (to_int u) = take_bit 32 u"
      by (simp add: to_int_def take_bit_signed_take_bit)
    then have "2 ^ 32 dvd (to_int u - u)"
      by (simp only: take_bit_eq_mod mod_eq_dvd_iff)
    then show ?thesis by simp
  qed
qed

lemma int_bytes_bytes:
  assumes "length bs = 4"
  shows "int_bytes (bytes_int bs) = bs"
proof -
  obtain a b c d where bs: "bs = [a, b, c, d]"
    using assms by (auto simp: eval_nat_numeral length_Suc_conv)
  obtain s where s: "bytes_int bs =
      uint a + 2 ^ 8 * uint b + 2 ^ 16 * uint c + 2 ^ 24 * uint d + 2 ^ 32 * s"
    using to_int_shift by (auto simp: bytes_int_def bs)
  define k3 where "k3 = uint d + 2 ^ 8 * s"
  define k2 where "k2 = uint c + 2 ^ 8 * k3"
  define k1 where "k1 = uint b + 2 ^ 8 * k2"
  have v: "bytes_int bs = uint a + 2 ^ 8 * k1"
    unfolding s k1_def k2_def k3_def by (simp add: algebra_simps)
  have lt: "uint x < 2 ^ 8" for x :: byte using uint_lt2p [of x] by simp
  have 1: "bytes_int bs div 2 ^ 8 = k1" unfolding v by (rule div_digit) (simp_all only: lt uint_ge_0)
  have 2: "k1 div 2 ^ 8 = k2" unfolding k1_def by (rule div_digit) (simp_all only: lt uint_ge_0)
  have 3: "k2 div 2 ^ 8 = k3" unfolding k2_def by (rule div_digit) (simp_all only: lt uint_ge_0)
  have "bytes_int bs div 2 ^ 16 = bytes_int bs div 2 ^ 8 div 2 ^ 8"
    by (simp flip: zdiv_zmult2_eq)
  then have 16: "bytes_int bs div 2 ^ 16 = k2" using 1 2 by simp
  have "bytes_int bs div 2 ^ 24 = bytes_int bs div 2 ^ 16 div 2 ^ 8"
    by (simp flip: zdiv_zmult2_eq)
  then have 24: "bytes_int bs div 2 ^ 24 = k3" using 16 3 by simp
  have "word_of_int (bytes_int bs) = a" unfolding v by (rule byte_of_sum)
  moreover have "word_of_int k1 = b" unfolding k1_def by (rule byte_of_sum)
  moreover have "word_of_int k2 = c" unfolding k2_def by (rule byte_of_sum)
  moreover have "word_of_int k3 = d" unfolding k3_def by (rule byte_of_sum)
  ultimately show ?thesis unfolding int_bytes_def 1 16 24 by (simp add: bs)
qed

lemma length_int_bytes [simp]: "length (int_bytes v) = 4"
  by (simp add: int_bytes_def)

lemma bytes_int_bytes:
  assumes "in_int v"
  shows "bytes_int (int_bytes v) = v"
proof -
  have u: "uint (word_of_int x :: byte) = x mod 2 ^ 8" for x
    by (simp add: uint_word_of_int)
  have p: "(2::int) ^ 32 = 2 ^ 24 * 2 ^ 8" "(2::int) ^ 24 = 2 ^ 16 * 2 ^ 8" "(2::int) ^ 16 = 2 ^ 8 * 2 ^ 8"
    by simp_all
  have 1: "v mod 2 ^ 32 = 2 ^ 24 * (v div 2 ^ 24 mod 2 ^ 8) + v mod 2 ^ 24"
    by (subst p(1), rule zmod_zmult2_eq) simp
  have 2: "v mod 2 ^ 24 = 2 ^ 16 * (v div 2 ^ 16 mod 2 ^ 8) + v mod 2 ^ 16"
    by (subst p(2), rule zmod_zmult2_eq) simp
  have 3: "v mod 2 ^ 16 = 2 ^ 8 * (v div 2 ^ 8 mod 2 ^ 8) + v mod 2 ^ 8"
    by (subst p(3), rule zmod_zmult2_eq) simp
  have "v mod 2 ^ 32 = v mod 2 ^ 8 + 2 ^ 8 * (v div 2 ^ 8 mod 2 ^ 8) +
      2 ^ 16 * (v div 2 ^ 16 mod 2 ^ 8) + 2 ^ 24 * (v div 2 ^ 24 mod 2 ^ 8)"
    unfolding 1 2 3 by (simp only: ac_simps)
  moreover have "bytes_int (int_bytes v) = to_int (v mod 2 ^ 8 + 2 ^ 8 * (v div 2 ^ 8 mod 2 ^ 8) +
      2 ^ 16 * (v div 2 ^ 16 mod 2 ^ 8) + 2 ^ 24 * (v div 2 ^ 24 mod 2 ^ 8))"
    unfolding bytes_int_def int_bytes_def by (simp only: nth_Cons_0 nth_Cons_Suc One_nat_def numeral_2_eq_2 numeral_3_eq_3 u)
  ultimately have "bytes_int (int_bytes v) = to_int (v mod 2 ^ 32)" by (simp only:)
  also have "v mod 2 ^ 32 = take_bit 32 v" by (simp add: take_bit_eq_mod)
  also have "to_int (take_bit 32 v) = to_int v" by (simp add: to_int_def signed_take_bit_take_bit)
  finally show ?thesis using assms by simp
qed

lemma c_add_ok [simp]: "in_int (a + b) \<Longrightarrow> c_add a b = Inr (a + b)"
  by (simp add: c_add_def)

section \<open>Reading into a caller's buffer\<close>

text \<open>
  \<open>read(fd, buf, len)\<close> and \<open>recv\<close>: the kernel stores the bytes it returns at \<open>buf\<close>, which overruns
  a buffer shorter than what arrived.
\<close>

definition store_reply :: "byte list \<Rightarrow> int \<Rightarrow> byte list \<Rightarrow> byte list result" where
  "store_reply buf ret data = (if ret \<le> 0 then Inr buf else memcpy buf 0 data 0 ret)"

text \<open>What POSIX says of a \<open>read\<close>: at most \<open>len\<close> bytes arrive, and their number is returned.\<close>

definition reply_ok :: "nat \<Rightarrow> int \<Rightarrow> byte list \<Rightarrow> bool" where
  "reply_ok len ret data \<longleftrightarrow> ret = -1 \<or> 0 \<le> ret \<and> ret = int (length data) \<and> length data \<le> len"

lemma store_reply_ok:
  assumes "reply_ok len ret data" "len \<le> length buf"
  shows "store_reply buf ret data =
     Inr (if ret = -1 then buf else data @ drop (length data) buf)"
  using assms memcpy_nat [of 0 "length data" buf 0 data] by (auto simp: store_reply_def reply_ok_def)

lemma store_reply_length:
  "store_reply buf ret data = Inr buf' \<Longrightarrow> length buf' = length buf"
  by (auto simp: store_reply_def dest: memcpy_length split: if_splits)

text \<open>
  The calls with a caller's buffer and a \<open>size_t\<close> length. Writing more than the buffer holds reads
  past its end. The results are assigned to an \<open>int\<close>.
\<close>

definition sys_read ::
    "'w kernel \<Rightarrow> int \<Rightarrow> byte list \<Rightarrow> size_t \<Rightarrow> 'w \<Rightarrow> (int \<times> byte list \<times> 'w) result" where
  "sys_read K f buf len w =
     (let (ret, data, w) = k_read K f (unat len) w in
      bind_res (store_reply buf ret data) (\<lambda>buf. Inr (to_int ret, buf, w)))"

definition sys_write ::
    "'w kernel \<Rightarrow> int \<Rightarrow> byte list \<Rightarrow> size_t \<Rightarrow> 'w \<Rightarrow> (int \<times> 'w) result" where
  "sys_write K f buf len w =
     (if length buf < unat len then Inl Out_Of_Bounds
      else let (ret, w) = k_write K f (take (unat len) buf) w in Inr (to_int ret, w))"

lemma sys_read_ok:
  assumes "k_read K f (unat len) w = (ret, data, w')" "reply_ok (unat len) ret data"
    "unat len \<le> length buf" "unat len < 2 ^ 31"
  shows "sys_read K f buf len w =
     Inr (ret, if ret = -1 then buf else data @ drop (length data) buf, w')"
proof -
  have "in_int ret" using assms(2,4) by (auto simp: reply_ok_def in_int_def)
  with store_reply_ok [OF assms(2,3)] assms(1) show ?thesis by (simp add: sys_read_def)
qed

lemma sys_write_ok:
  assumes "k_write K f buf w = (ret, w')" "length buf = unat len" "in_int ret"
  shows "sys_write K f buf len w = Inr (ret, w')"
  using assms by (simp add: sys_write_def)

section \<open>An instance\<close>

text \<open>
  A kernel on which every call succeeds and the world counts them: descriptor 3, one byte per read.
  The hypotheses on the kernel are shown to be satisfiable on it.
\<close>

definition blank_termios :: termios where
  "blank_termios = \<lparr>c_iflag = 0, c_oflag = 0, c_cflag = 0, c_lflag = 0, c_vtime = 0, c_vmin = 0\<rparr>"

definition sample_kernel :: "nat kernel" where
  "sample_kernel =
     \<lparr>k_open = (\<lambda>_ _ _ w. (3, Suc w)),
      k_close = (\<lambda>_ w. (0, Suc w)),
      k_read = (\<lambda>_ n w. if n = 0 then (0, [], Suc w) else (1, [42], Suc w)),
      k_write = (\<lambda>_ bs w. (int (length bs), Suc w)),
      k_lseek = (\<lambda>_ off _ w. (off, Suc w)),
      k_ioctl_null = (\<lambda>_ _ w. (0, Suc w)),
      k_ioctl_long = (\<lambda>_ _ _ w. (0, 7, Suc w)),
      k_ioctl_short = (\<lambda>_ _ v w. (0, v, Suc w)),
      k_ioctl_char = (\<lambda>_ _ _ w. (0, 1, Suc w)),
      k_ioctl_rtc = (\<lambda>_ _ t w. (0, t, Suc w)),
      k_fcntl = (\<lambda>_ _ _ w. (0, Suc w)),
      k_socket = (\<lambda>_ _ _ w. (4, Suc w)),
      k_setsockopt = (\<lambda>_ _ _ _ w. (0, Suc w)),
      k_getsockopt = (\<lambda>_ _ _ _ w. (0, 0, Suc w)),
      k_bind = (\<lambda>_ _ w. (0, Suc w)),
      k_connect = (\<lambda>_ _ w. (0, Suc w)),
      k_send = (\<lambda>_ bs _ w. (int (length bs), Suc w)),
      k_recv = (\<lambda>_ n _ w. if n = 0 then (0, [], Suc w) else (1, [42], Suc w)),
      k_sendto = (\<lambda>_ bs _ _ w. (int (length bs), Suc w)),
      k_recvfrom = (\<lambda>_ n _ w. if n = 0 then (0, [], None, Suc w) else (1, [42], None, Suc w)),
      k_sleep = (\<lambda>_ w. Suc w),
      k_usleep = (\<lambda>_ w. Suc w),
      k_isatty = (\<lambda>_ _. 1),
      k_tcgetattr = (\<lambda>_ w. (0, blank_termios, Suc w)),
      k_tcsetattr = (\<lambda>_ _ w. (0, Suc w)),
      k_tcflush = (\<lambda>_ _ w. (0, Suc w)),
      k_select = (\<lambda>_ _ w. (1, True, Suc w)),
      k_access = (\<lambda>_ _. 0),
      k_fopen = (\<lambda>_ _ w. (Some 5, Suc w)),
      k_ftext = (\<lambda>_ w. (''100'', Suc w)),
      k_fputs = (\<lambda>_ s w. (int (length s), Suc w)),
      k_fclose = (\<lambda>_ w. (0, Suc w)),
      k_ioctl_aitype = (\<lambda>_ _ _ w. (0, Suc w)),
      k_ioctl_cal = (\<lambda>_ _ c w. (0, c, Suc w)),
      k_clock = (\<lambda>w. (0, int w, 0, Suc w)),
      k_sem_wait = (\<lambda>_ _ w. Suc w),
      k_calloc = (\<lambda>w. (True, Suc w)),
      k_errno = (\<lambda>_. 11),
      k_inet_addr = (\<lambda>_. 0x0100007F),
      k_stack_rtc = (\<lambda>_. \<lparr>tm_sec = 0, tm_min = 0, tm_hour = 0, tm_mday = 0, tm_mon = 0, tm_year = 0,
        tm_wday = 0, tm_yday = 0, tm_isdst = 0\<rparr>),
      k_stack_int = (\<lambda>_. 0),
      k_stack_cal = (\<lambda>_. \<lparr>cal_dev = 0, vol_a = 0, vol_b = 0, cur_a = 0, cur_b = 0, cal_crc = 0\<rparr>),
      k_heap = (\<lambda>n _. replicate n (CHR ''?''))\<rparr>"

text \<open>A kernel on any world on which every call succeeds and changes nothing, to be updated.\<close>

definition quiet_kernel :: "'w kernel" where
  "quiet_kernel =
     \<lparr>k_open = (\<lambda>_ _ _ w. (3, w)), k_close = (\<lambda>_ w. (0, w)), k_read = (\<lambda>_ _ w. (0, [], w)),
      k_write = (\<lambda>_ bs w. (int (length bs), w)), k_lseek = (\<lambda>_ off _ w. (off, w)),
      k_ioctl_null = (\<lambda>_ _ w. (0, w)), k_ioctl_long = (\<lambda>_ _ v w. (0, v, w)),
      k_ioctl_short = (\<lambda>_ _ v w. (0, v, w)), k_ioctl_char = (\<lambda>_ _ v w. (0, v, w)),
      k_ioctl_rtc = (\<lambda>_ _ t w. (0, t, w)), k_fcntl = (\<lambda>_ _ _ w. (0, w)),
      k_socket = (\<lambda>_ _ _ w. (4, w)), k_setsockopt = (\<lambda>_ _ _ _ w. (0, w)),
      k_getsockopt = (\<lambda>_ _ _ _ w. (0, 0, w)), k_bind = (\<lambda>_ _ w. (0, w)), k_connect = (\<lambda>_ _ w. (0, w)),
      k_send = (\<lambda>_ bs _ w. (int (length bs), w)), k_recv = (\<lambda>_ _ _ w. (0, [], w)),
      k_sendto = (\<lambda>_ bs _ _ w. (int (length bs), w)), k_recvfrom = (\<lambda>_ _ _ w. (0, [], None, w)),
      k_sleep = (\<lambda>_ w. w), k_usleep = (\<lambda>_ w. w), k_isatty = (\<lambda>_ _. 1), k_tcgetattr = (\<lambda>_ w. (0, blank_termios, w)),
      k_tcsetattr = (\<lambda>_ _ w. (0, w)), k_tcflush = (\<lambda>_ _ w. (0, w)), k_select = (\<lambda>_ _ w. (1, True, w)),
      k_access = (\<lambda>_ _. 0), k_fopen = (\<lambda>_ _ w. (Some 5, w)), k_ftext = (\<lambda>_ w. ([], w)),
      k_fputs = (\<lambda>_ s w. (int (length s), w)), k_fclose = (\<lambda>_ w. (0, w)),
      k_ioctl_aitype = (\<lambda>_ _ _ w. (0, w)), k_ioctl_cal = (\<lambda>_ _ c w. (0, c, w)),
      k_clock = (\<lambda>w. (0, 0, 0, w)), k_sem_wait = (\<lambda>_ _ w. w), k_calloc = (\<lambda>w. (True, w)), k_errno = (\<lambda>_. 0),
      k_inet_addr = (\<lambda>_. 0), k_stack_rtc = (\<lambda>_. k_stack_rtc sample_kernel 0), k_stack_int = (\<lambda>_. 0),
      k_stack_cal = (\<lambda>_. k_stack_cal sample_kernel 0),
      k_heap = (\<lambda>n _. replicate n (CHR ''?''))\<rparr>"

end
