(* ===== verification/Ldal_Device.thy ===== *)
theory Ldal_Device
  imports List_Head Kernel
begin

text \<open>
  The device object of \<open>inc/ldal.h\<close>, the table of operations a device class supplies, and the generic
  operations of \<open>src/ldal.c\<close> that dispatch to it: \<open>startup_device\<close> and \<open>stop_device\<close> with the reference
  count, and the six calls made under the device's mutex. What these rely on is that a driver leaves
  alone what identifies the device, the contract of the locale \<open>driver\<close>.
\<close>

section \<open>Devices, classes and operation tables\<close>

text \<open>
  \<open>user_data\<close> points at the class's own structure; \<open>'p\<close> is what that structure holds besides the
  device. The node \<open>list\<close> is in the store of nodes, at the device's address. \<open>mutex\<close> is whether the mutex
  is held. The unused members \<open>max_dev_num\<close>, \<open>read_mutex\<close> and \<open>write_mutex\<close> are left out.
\<close>

record 'p ldal_device =
  fd :: int
  name :: "char list"
  filename :: "char list"
  is_init :: bool
  ref :: u16
  mutex :: bool
  dclass :: "addr option"
  user_data :: "'p option"

abbreviation LDAL_NAME_MAX :: nat where "LDAL_NAME_MAX \<equiv> 32"
abbreviation LDAL_FILENAME_MAX :: nat where "LDAL_FILENAME_MAX \<equiv> 64"

text \<open>
  The structures a control call of the serial and the analog class takes: \<open>struct port_option\<close> (its enum
  members are unsigned), \<open>struct ai_conf\<close>, whose members for pollutant codes no code reads, with floats as
  bit patterns, and \<open>struct ai_correct_cfg\<close>.
\<close>

record port_option =
  baudrate :: u32
  data_bits :: byte
  parity :: u32
  stop_bits :: u32
  flowctrl :: u32
  fcopt :: "byte list"
  po_mn :: "char list"
  po_addr :: int

record ai_conf =
  current_voltage :: int
  value_max :: u32
  value_min :: u32

record ai_correct_cfg =
  signal_type :: int
  value_type :: u32

text \<open>What the \<open>void *arg\<close> of a control call points at, or the value it is cast to.\<close>

datatype ctrl_arg =
    Arg_Null
  | Arg_Int int
  | Arg_Long "64 word"
  | Arg_Short u16
  | Arg_Char byte
  | Arg_Str string
  | Arg_Addr sockaddr_in
  | Arg_Port port_option
  | Arg_Ai_Conf ai_conf
  | Arg_Correct ai_correct_cfg
  | Arg_Value "64 word"

type_synonym ('p, 'w) dev_call = "'p ldal_device \<Rightarrow> 'w \<Rightarrow> (int \<times> 'p ldal_device \<times> 'w) result"

record ('p, 'w) device_ops =
  op_init :: "('p, 'w) dev_call option"
  op_deinit :: "('p, 'w) dev_call option"
  op_open :: "('p, 'w) dev_call option"
  op_close :: "('p, 'w) dev_call option"
  op_read :: "('p ldal_device \<Rightarrow> byte list option \<Rightarrow> size_t \<Rightarrow> 'w \<Rightarrow>
                (int \<times> byte list option \<times> 'p ldal_device \<times> 'w) result) option"
  op_write :: "('p ldal_device \<Rightarrow> byte list option \<Rightarrow> size_t \<Rightarrow> 'w \<Rightarrow>
                (int \<times> 'p ldal_device \<times> 'w) result) option"
  op_control :: "('p ldal_device \<Rightarrow> int \<Rightarrow> ctrl_arg \<Rightarrow> 'w \<Rightarrow>
                (int \<times> ctrl_arg \<times> 'p ldal_device \<times> 'w) result) option"
  op_check :: "('p, 'w) dev_call option"
  op_bind :: "('p ldal_device \<Rightarrow> string option \<Rightarrow> u16 \<Rightarrow> 'w \<Rightarrow>
                (int \<times> 'p ldal_device \<times> 'w) result) option"
  op_connect :: "('p ldal_device \<Rightarrow> string option \<Rightarrow> u16 \<Rightarrow> 'w \<Rightarrow>
                (int \<times> 'p ldal_device \<times> 'w) result) option"

text \<open>A table with no operation: what an initialiser leaves out is \<open>NULL\<close>.\<close>

definition no_ops :: "('p, 'w) device_ops" where
  "no_ops =
     \<lparr>op_init = None, op_deinit = None, op_open = None, op_close = None, op_read = None,
      op_write = None, op_control = None, op_check = None, op_bind = None, op_connect = None\<rparr>"

record ('p, 'w) ldal_device_class =
  class_id :: u16
  dev_count :: u16
  device_ops :: "('p, 'w) device_ops option"

type_synonym ('p, 'w) class_store = "addr \<rightharpoonup> ('p, 'w) ldal_device_class"

section \<open>Dispatch\<close>

text \<open>\<open>device->class->device_ops->f\<close>, each pointer of which may be null.\<close>

definition ops_of :: "('p, 'w) class_store \<Rightarrow> 'p ldal_device \<Rightarrow> ('p, 'w) device_ops result" where
  "ops_of cls d =
     (case dclass d of
        None \<Rightarrow> Inl Null_Pointer
      | Some a \<Rightarrow>
          (case cls a of
             None \<Rightarrow> Inl Use_After_Free
           | Some c \<Rightarrow> (case device_ops c of None \<Rightarrow> Inl Null_Pointer | Some ops \<Rightarrow> Inr ops)))"

definition fetch ::
    "('p, 'w) class_store \<Rightarrow> 'p ldal_device \<Rightarrow> (('p, 'w) device_ops \<Rightarrow> 'f option) \<Rightarrow> 'f result" where
  "fetch cls d sel =
     bind_res (ops_of cls d) (\<lambda>ops. case sel ops of None \<Rightarrow> Inl Null_Pointer | Some f \<Rightarrow> Inr f)"

definition mutex_lock :: "'p ldal_device \<Rightarrow> 'p ldal_device result" where
  "mutex_lock d = (if mutex d then Inl Diverges else Inr (d\<lparr>mutex := True\<rparr>))"

definition mutex_unlock :: "'p ldal_device \<Rightarrow> 'p ldal_device" where
  "mutex_unlock d = d\<lparr>mutex := False\<rparr>"

section \<open>The generic operations\<close>

definition startup_device ::
    "('p, 'w) class_store \<Rightarrow> 'p ldal_device \<Rightarrow> 'w \<Rightarrow> (int \<times> 'p ldal_device \<times> 'w) result" where
  "startup_device cls d w =
     (if \<not> is_init d then Inr (- LDAL_ERROR, d, w)
      else if 0 < ref d then Inr (LDAL_EOK, d\<lparr>ref := ref d + 1\<rparr>, w)
      else
        bind_res (fetch cls d op_open) (\<lambda>open.
        bind_res (open d w) (\<lambda>(ret, d, w).
        if ret = LDAL_EOK then Inr (LDAL_EOK, d\<lparr>ref := ref d + 1\<rparr>, w)
        else Inr (LDAL_EOK, d, w))))"

definition stop_device ::
    "('p, 'w) class_store \<Rightarrow> 'p ldal_device \<Rightarrow> 'w \<Rightarrow> (int \<times> 'p ldal_device \<times> 'w) result" where
  "stop_device cls d w =
     (if \<not> is_init d then Inr (- LDAL_ERROR, d, w)
      else if 0 < ref d then
        (let d = d\<lparr>ref := ref d - 1\<rparr> in
         if ref d = 0 then bind_res (fetch cls d op_close) (\<lambda>close. close d w)
         else Inr (LDAL_EOK, d, w))
      else Inr (LDAL_EOK, d, w))"

definition read_device ::
    "('p, 'w) class_store \<Rightarrow> 'p ldal_device \<Rightarrow> byte list option \<Rightarrow> size_t \<Rightarrow> 'w \<Rightarrow>
     (int \<times> byte list option \<times> 'p ldal_device \<times> 'w) result" where
  "read_device cls d buff len w =
     bind_res (mutex_lock d) (\<lambda>d.
     bind_res (fetch cls d op_read) (\<lambda>f.
     bind_res (f d buff len w) (\<lambda>(ret, buff, d, w).
     Inr (ret, buff, mutex_unlock d, w))))"

definition write_device ::
    "('p, 'w) class_store \<Rightarrow> 'p ldal_device \<Rightarrow> byte list option \<Rightarrow> size_t \<Rightarrow> 'w \<Rightarrow>
     (int \<times> 'p ldal_device \<times> 'w) result" where
  "write_device cls d buff len w =
     bind_res (mutex_lock d) (\<lambda>d.
     bind_res (fetch cls d op_write) (\<lambda>f.
     bind_res (f d buff len w) (\<lambda>(ret, d, w).
     Inr (ret, mutex_unlock d, w))))"

definition control_device ::
    "('p, 'w) class_store \<Rightarrow> 'p ldal_device \<Rightarrow> int \<Rightarrow> ctrl_arg \<Rightarrow> 'w \<Rightarrow>
     (int \<times> ctrl_arg \<times> 'p ldal_device \<times> 'w) result" where
  "control_device cls d cmd arg w =
     bind_res (mutex_lock d) (\<lambda>d.
     bind_res (fetch cls d op_control) (\<lambda>f.
     bind_res (f d cmd arg w) (\<lambda>(ret, arg, d, w).
     Inr (ret, arg, mutex_unlock d, w))))"

definition check_status ::
    "('p, 'w) class_store \<Rightarrow> 'p ldal_device \<Rightarrow> 'w \<Rightarrow> (int \<times> 'p ldal_device \<times> 'w) result" where
  "check_status cls d w =
     bind_res (mutex_lock d) (\<lambda>d.
     bind_res (fetch cls d op_check) (\<lambda>f.
     bind_res (f d w) (\<lambda>(ret, d, w).
     Inr (ret, mutex_unlock d, w))))"

definition bind_local_addr ::
    "('p, 'w) class_store \<Rightarrow> 'p ldal_device \<Rightarrow> string option \<Rightarrow> u16 \<Rightarrow> 'w \<Rightarrow>
     (int \<times> 'p ldal_device \<times> 'w) result" where
  "bind_local_addr cls d ipaddr port w =
     bind_res (mutex_lock d) (\<lambda>d.
     bind_res (fetch cls d op_bind) (\<lambda>f.
     bind_res (f d ipaddr port w) (\<lambda>(ret, d, w).
     Inr (ret, mutex_unlock d, w))))"

definition connect_server_addr ::
    "('p, 'w) class_store \<Rightarrow> 'p ldal_device \<Rightarrow> string option \<Rightarrow> u16 \<Rightarrow> 'w \<Rightarrow>
     (int \<times> 'p ldal_device \<times> 'w) result" where
  "connect_server_addr cls d ipaddr port w =
     bind_res (mutex_lock d) (\<lambda>d.
     bind_res (fetch cls d op_connect) (\<lambda>f.
     bind_res (f d ipaddr port w) (\<lambda>(ret, d, w).
     Inr (ret, mutex_unlock d, w))))"

section \<open>Drivers\<close>

type_synonym ('p, 'w) read_call =
  "'p ldal_device \<Rightarrow> byte list option \<Rightarrow> size_t \<Rightarrow> 'w \<Rightarrow>
   (int \<times> byte list option \<times> 'p ldal_device \<times> 'w) result"
type_synonym ('p, 'w) write_call =
  "'p ldal_device \<Rightarrow> byte list option \<Rightarrow> size_t \<Rightarrow> 'w \<Rightarrow> (int \<times> 'p ldal_device \<times> 'w) result"
type_synonym ('p, 'w) control_call =
  "'p ldal_device \<Rightarrow> int \<Rightarrow> ctrl_arg \<Rightarrow> 'w \<Rightarrow> (int \<times> ctrl_arg \<times> 'p ldal_device \<times> 'w) result"

text \<open>\<open>assert(buf)\<close>.\<close>

definition assert_ptr :: "'b option \<Rightarrow> ('b \<Rightarrow> 'c result) \<Rightarrow> 'c result" where
  "assert_ptr p k = (case p of None \<Rightarrow> Inl Assertion_Failed | Some b \<Rightarrow> k b)"

lemma assert_ptr_simps [simp]:
  "assert_ptr None k = Inl Assertion_Failed" "assert_ptr (Some b) k = k b"
  by (simp_all add: assert_ptr_def)

lemma assert_ptr_Inr: "assert_ptr p k = Inr y \<longleftrightarrow> (\<exists>b. p = Some b \<and> k b = Inr y)"
  by (cases p) auto

lemma device_mutex_same: "\<not> mutex d \<Longrightarrow> d\<lparr>mutex := False\<rparr> = d"
  by (cases d) simp

text \<open>\<open>device->user_data\<close>, dereferenced.\<close>

definition parent :: "'p ldal_device \<Rightarrow> 'p result" where
  "parent d = (case user_data d of None \<Rightarrow> Inl Null_Pointer | Some p \<Rightarrow> Inr p)"

lemma parent_Some [simp]: "user_data d = Some p \<Longrightarrow> parent d = Inr p"
  by (simp add: parent_def)

lemma parent_Inr: "parent d = Inr p \<longleftrightarrow> user_data d = Some p"
  by (auto simp: parent_def split: option.splits)

section \<open>Histories of calls\<close>

text \<open>One call of the interface on a device; the state is the device and the world.\<close>

inductive api_step ::
    "('p, 'w) class_store \<Rightarrow> 'p ldal_device \<times> 'w \<Rightarrow> 'p ldal_device \<times> 'w \<Rightarrow> bool"
  for cls :: "('p, 'w) class_store" where
  api_startup: "startup_device cls d w = Inr (r, d', w') \<Longrightarrow> api_step cls (d, w) (d', w')"
| api_stop: "stop_device cls d w = Inr (r, d', w') \<Longrightarrow> api_step cls (d, w) (d', w')"
| api_read: "read_device cls d buf len w = Inr (r, buf', d', w') \<Longrightarrow> api_step cls (d, w) (d', w')"
| api_write: "write_device cls d buf len w = Inr (r, d', w') \<Longrightarrow> api_step cls (d, w) (d', w')"
| api_control: "control_device cls d cmd arg w = Inr (r, arg', d', w') \<Longrightarrow> api_step cls (d, w) (d', w')"
| api_check: "check_status cls d w = Inr (r, d', w') \<Longrightarrow> api_step cls (d, w) (d', w')"
| api_bind: "bind_local_addr cls d ip port w = Inr (r, d', w') \<Longrightarrow> api_step cls (d, w) (d', w')"
| api_connect: "connect_server_addr cls d ip port w = Inr (r, d', w') \<Longrightarrow>
    api_step cls (d, w) (d', w')"

inductive_cases api_stepE [elim!]: "api_step cls (d, w) (d', w')"

text \<open>A history of \<open>startup_device\<close> (\<open>True\<close>) and \<open>stop_device\<close> (\<open>False\<close>) calls and their results.\<close>

fun run_sessions ::
    "('p, 'w) class_store \<Rightarrow> bool list \<Rightarrow> 'p ldal_device \<Rightarrow> 'w \<Rightarrow>
     (int list \<times> 'p ldal_device \<times> 'w) result" where
  "run_sessions cls [] d w = Inr ([], d, w)"
| "run_sessions cls (c # cs) d w =
     bind_res (if c then startup_device cls d w else stop_device cls d w) (\<lambda>(r, d, w).
     bind_res (run_sessions cls cs d w) (\<lambda>(rs, d, w).
     Inr (r # rs, d, w)))"

section \<open>The driver contract\<close>

text \<open>What identifies a device and is no business of its driver.\<close>

definition dev_id :: "'p ldal_device \<Rightarrow> char list \<times> bool \<times> u16 \<times> bool \<times> addr option \<times> bool" where
  "dev_id d = (name d, is_init d, ref d, mutex d, dclass d, user_data d = None)"

definition has_ops :: "('p, 'w) class_store \<Rightarrow> 'p ldal_device \<Rightarrow> ('p, 'w) device_ops \<Rightarrow> bool" where
  "has_ops cls d ops \<longleftrightarrow> ops_of cls d = Inr ops"

lemma dev_id_simps [dev_frame]:
  "dev_id d' = dev_id d \<longleftrightarrow>
     name d' = name d \<and> is_init d' = is_init d \<and> ref d' = ref d \<and> mutex d' = mutex d \<and>
     dclass d' = dclass d \<and> (user_data d' = None) = (user_data d = None)"
  by (auto simp: dev_id_def)

lemma fetch_Inr: "fetch cls d sel = Inr f \<longleftrightarrow> (\<exists>ops. has_ops cls d ops \<and> sel ops = Some f)"
  by (auto simp: fetch_def has_ops_def split: option.splits)

lemma has_ops_fetch: "has_ops cls d ops \<Longrightarrow>
    fetch cls d sel = (case sel ops of None \<Rightarrow> Inl Null_Pointer | Some f \<Rightarrow> Inr f)"
  by (simp add: fetch_def has_ops_def)

lemma has_ops_unique: "has_ops cls d ops \<Longrightarrow> has_ops cls d ops' \<Longrightarrow> ops' = ops"
  by (simp add: has_ops_def)

lemma has_ops_class: "dclass d' = dclass d \<Longrightarrow> has_ops cls d' ops = has_ops cls d ops"
  by (simp add: has_ops_def ops_of_def)

lemma fetch_class: "dclass d' = dclass d \<Longrightarrow> fetch cls d' sel = fetch cls d sel"
  by (simp add: fetch_def ops_of_def)

lemma fetch_update [simp]:
  "fetch cls (d\<lparr>mutex := m\<rparr>) sel = fetch cls d sel" "fetch cls (d\<lparr>ref := n\<rparr>) sel = fetch cls d sel"
  by (auto intro: fetch_class)

lemma mutex_lock_Inr: "mutex_lock d = Inr d' \<longleftrightarrow> \<not> mutex d \<and> d' = d\<lparr>mutex := True\<rparr>"
  by (auto simp: mutex_lock_def)

locale driver =
  fixes ops :: "('p, 'w) device_ops"
  assumes init_frame: "op_init ops = Some f \<Longrightarrow> f d w = Inr (r, d', w') \<Longrightarrow> dev_id d' = dev_id d"
    and open_frame: "op_open ops = Some f \<Longrightarrow> f d w = Inr (r, d', w') \<Longrightarrow> dev_id d' = dev_id d"
    and close_frame: "op_close ops = Some f \<Longrightarrow> f d w = Inr (r, d', w') \<Longrightarrow> dev_id d' = dev_id d"
    and read_frame: "op_read ops = Some g \<Longrightarrow> g d buf len w = Inr (r, buf', d', w') \<Longrightarrow>
      dev_id d' = dev_id d"
    and write_frame: "op_write ops = Some h \<Longrightarrow> h d buf len w = Inr (r, d', w') \<Longrightarrow>
      dev_id d' = dev_id d"
    and control_frame: "op_control ops = Some k \<Longrightarrow> k d cmd arg w = Inr (r, arg', d', w') \<Longrightarrow>
      dev_id d' = dev_id d"
    and check_frame: "op_check ops = Some f \<Longrightarrow> f d w = Inr (r, d', w') \<Longrightarrow> dev_id d' = dev_id d"
    and bind_frame: "op_bind ops = Some b \<Longrightarrow> b d ip port w = Inr (r, d', w') \<Longrightarrow>
      dev_id d' = dev_id d"
    and connect_frame: "op_connect ops = Some b \<Longrightarrow> b d ip port w = Inr (r, d', w') \<Longrightarrow>
      dev_id d' = dev_id d"
begin

text \<open>No call changes what identifies the device, and every call that returns has released the mutex.\<close>

lemma api_step_frame:
  assumes "api_step cls (d, w) (d', w')" "has_ops cls d ops"
  shows "name d' = name d" "is_init d' = is_init d" "dclass d' = dclass d"
    "(user_data d' = None) = (user_data d = None)" "mutex d' \<longrightarrow> mutex d"
proof -
  have fetched: "fetch cls d sel = Inr f \<longleftrightarrow> sel ops = Some f" for sel and f :: "'f"
    using assms(2) by (auto simp: has_ops_fetch split: option.splits)
  have "name d' = name d \<and> is_init d' = is_init d \<and> dclass d' = dclass d \<and>
    (user_data d' = None) = (user_data d = None) \<and> (mutex d' \<longrightarrow> mutex d)"
    using assms(1)
  proof (rule api_stepE, goal_cases)
    case (1 r)
    then show ?case
      by (auto simp: startup_device_def fetched split: if_splits dest: open_frame [unfolded dev_id_simps])
  next
    case (2 r)
    then show ?case
      by (auto simp: stop_device_def fetched Let_def split: if_splits dest: close_frame [unfolded dev_id_simps])
  next
    case (3 buf len r buf')
    then show ?case
      by (auto simp: read_device_def fetched mutex_lock_Inr mutex_unlock_def
          dest: read_frame [unfolded dev_id_simps])
  next
    case (4 buf len r)
    then show ?case
      by (auto simp: write_device_def fetched mutex_lock_Inr mutex_unlock_def
          dest: write_frame [unfolded dev_id_simps])
  next
    case (5 cmd arg r arg')
    then show ?case
      by (auto simp: control_device_def fetched mutex_lock_Inr mutex_unlock_def
          dest: control_frame [unfolded dev_id_simps])
  next
    case (6 r)
    then show ?case
      by (auto simp: check_status_def fetched mutex_lock_Inr mutex_unlock_def
          dest: check_frame [unfolded dev_id_simps])
  next
    case (7 ip port r)
    then show ?case
      by (auto simp: bind_local_addr_def fetched mutex_lock_Inr mutex_unlock_def
          dest: bind_frame [unfolded dev_id_simps])
  next
    case (8 ip port r)
    then show ?case
      by (auto simp: connect_server_addr_def fetched mutex_lock_Inr mutex_unlock_def
          dest: connect_frame [unfolded dev_id_simps])
  qed
  then show "name d' = name d" "is_init d' = is_init d" "dclass d' = dclass d"
    "(user_data d' = None) = (user_data d = None)" "mutex d' \<longrightarrow> mutex d" by auto
qed

lemma reachable_frame:
  assumes "(api_step cls)\<^sup>*\<^sup>* (d, w) (d', w')" "has_ops cls d ops"
  shows "name d' = name d \<and> is_init d' = is_init d \<and> dclass d' = dclass d \<and>
    (user_data d' = None) = (user_data d = None) \<and> (mutex d' \<longrightarrow> mutex d)"
  using assms(1)
proof (induction rule: rtranclp_induct2)
  case refl
  then show ?case by simp
next
  case (step d1 w1 d2 w2)
  have "has_ops cls d1 ops" using step.IH assms(2) has_ops_class [of d1 d cls ops] by auto
  from api_step_frame [OF step.hyps(2) this] step.IH show ?case by auto
qed

lemma more_startups:
  assumes "is_init d" "0 < unat (ref d)" "unat (ref d) + n < 2 ^ 16"
  shows "run_sessions cls (replicate n True @ cs) d w =
     bind_res (run_sessions cls cs (d\<lparr>ref := ref d + word_of_nat n\<rparr>) w)
       (\<lambda>(rs, d, w). Inr (replicate n LDAL_EOK @ rs, d, w))"
  using assms
proof (induction n arbitrary: d)
  case 0
  show ?case by (cases "run_sessions cls cs d w") auto
next
  case (Suc n)
  have p: "0 < ref d" using Suc.prems(2) by (simp add: word_less_nat_alt)
  have u: "unat (ref d + 1) = unat (ref d) + 1"
    using Suc.prems(3) by (subst unat_add_lem [THEN iffD1]) auto
  have "run_sessions cls (replicate n True @ cs) (d\<lparr>ref := ref d + 1\<rparr>) w =
     bind_res (run_sessions cls cs (d\<lparr>ref := ref d + 1 + word_of_nat n\<rparr>) w)
       (\<lambda>(rs, d, w). Inr (replicate n LDAL_EOK @ rs, d, w))"
    using Suc.IH [of "d\<lparr>ref := ref d + 1\<rparr>"] Suc.prems u by (simp add: case_prod_unfold)
  moreover have "ref d + 1 + word_of_nat n = ref d + word_of_nat (Suc n)" by simp
  moreover have "startup_device cls d w = Inr (LDAL_EOK, d\<lparr>ref := ref d + 1\<rparr>, w)"
    using p Suc.prems(1) by (simp add: startup_device_def)
  ultimately show ?case by (simp add: bind_res_assoc case_prod_unfold)
qed

lemma run_append:
  "run_sessions cls (cs @ cs') d w =
     bind_res (run_sessions cls cs d w) (\<lambda>(rs, d, w).
     bind_res (run_sessions cls cs' d w) (\<lambda>(rs', d, w). Inr (rs @ rs', d, w)))"
proof (induction cs arbitrary: d w)
  case Nil
  show ?case by (cases "run_sessions cls cs' d w") auto
next
  case (Cons c cs)
  then show ?case by (simp add: bind_res_assoc case_prod_unfold)
qed

text \<open>All stops but the last only count.\<close>

lemma more_stops:
  assumes "is_init d" "n < unat (ref d)"
  shows "run_sessions cls (replicate n False) d w =
     Inr (replicate n LDAL_EOK, d\<lparr>ref := ref d - word_of_nat n\<rparr>, w)"
  using assms
proof (induction n arbitrary: d)
  case 0
  show ?case by simp
next
  case (Suc n)
  have p: "0 < ref d" using Suc.prems(2) by (simp add: word_less_nat_alt)
  have u: "unat (ref d - 1) = unat (ref d) - 1"
    using p by (simp add: unat_sub_if_size word_le_nat_alt word_less_nat_alt)
  then have "ref d - 1 \<noteq> 0" using Suc.prems(2) by auto
  then have "stop_device cls d w = Inr (LDAL_EOK, d\<lparr>ref := ref d - 1\<rparr>, w)"
    using p Suc.prems(1) by (simp add: stop_device_def)
  moreover have "run_sessions cls (replicate n False) (d\<lparr>ref := ref d - 1\<rparr>) w =
     Inr (replicate n LDAL_EOK, d\<lparr>ref := ref d - 1 - word_of_nat n\<rparr>, w)"
    using Suc.IH [of "d\<lparr>ref := ref d - 1\<rparr>"] Suc.prems u by simp
  ultimately show ?case by (simp add: algebra_simps)
qed

text \<open>Nested sessions open the device once, at the first startup, and close it once, at the last stop.\<close>

lemma nested:
  assumes ops: "has_ops cls d ops" "op_open ops = Some f" "op_close ops = Some g"
    and d: "is_init d" "ref d = 0" and n: "n + 1 < 2 ^ 16"
    and open': "f d w = Inr (LDAL_EOK, d1, w1)"
  shows "run_sessions cls (replicate (Suc n) True @ replicate (Suc n) False) d w =
     bind_res (g d1 w1) (\<lambda>(r, d2, w2).
       Inr (replicate (Suc n) LDAL_EOK @ replicate n LDAL_EOK @ [r], d2, w2))"
proof -
  have fr: "is_init d1" "ref d1 = 0" "dclass d1 = dclass d"
    using open_frame [OF ops(2) open'] d by (auto simp: dev_frame)
  have w: "word_of_nat n + 1 = (word_of_nat (n + 1) :: u16)" by simp
  have u: "unat (word_of_nat n + 1 :: u16) = n + 1"
    unfolding w by (rule word_of_nat_unat_small) (use n in simp)
  have st: "startup_device cls d w = Inr (LDAL_EOK, d1\<lparr>ref := 1\<rparr>, w1)"
    using ops d open' fr by (simp add: startup_device_def has_ops_fetch)
  have a: "run_sessions cls (replicate n True @ replicate n False @ [False]) (d1\<lparr>ref := 1\<rparr>) w1 =
     bind_res (run_sessions cls (replicate n False @ [False]) (d1\<lparr>ref := word_of_nat n + 1\<rparr>) w1)
       (\<lambda>(rs, d, w). Inr (replicate n LDAL_EOK @ rs, d, w))"
    using more_startups [of "d1\<lparr>ref := 1\<rparr>" n cls "replicate n False @ [False]" w1] fr n
    by (simp add: add.commute)
  have b: "run_sessions cls (replicate n False) (d1\<lparr>ref := word_of_nat n + 1\<rparr>) w1 =
     Inr (replicate n LDAL_EOK, d1\<lparr>ref := 1\<rparr>, w1)"
    using more_stops [of "d1\<lparr>ref := word_of_nat n + 1\<rparr>" n cls w1] fr u
    by (simp del: replicate.simps)
  have same: "d1\<lparr>ref := 0\<rparr> = d1" using fr(2) by (cases d1) simp
  then have c: "stop_device cls (d1\<lparr>ref := 1\<rparr>) w1 = g d1 w1"
    using fr ops has_ops_class [of d1 d cls ops]
    by (simp add: stop_device_def has_ops_fetch same)
  have last: "run_sessions cls (replicate n False @ [False]) (d1\<lparr>ref := word_of_nat n + 1\<rparr>) w1 =
     bind_res (g d1 w1) (\<lambda>(r, d2, w2). Inr (replicate n LDAL_EOK @ [r], d2, w2))"
    unfolding run_append [of cls "replicate n False" "[False]"] b
    by (simp add: c case_prod_unfold bind_res_assoc)
  have "run_sessions cls (True # replicate n True @ replicate n False @ [False]) d w =
     bind_res (g d1 w1) (\<lambda>(r, d2, w2).
       Inr (replicate (Suc n) LDAL_EOK @ replicate n LDAL_EOK @ [r], d2, w2))"
    unfolding run_sessions.simps(2) [of cls True] if_True st bind_res.simps prod.case a last
    by (simp add: case_prod_unfold bind_res_assoc)
  then show ?thesis by (simp add: replicate_append_same)
qed

end

text \<open>The count has 16 bits: one startup more than it can hold makes an open device look stopped.\<close>

lemma startup_wraps:
  "is_init d \<Longrightarrow> ref d = 2 ^ 16 - 1 \<Longrightarrow>
     startup_device cls d w = Inr (LDAL_EOK, d\<lparr>ref := 0\<rparr>, w)"
  by (simp add: startup_device_def)

text \<open>A device as it stands after registration, and a store with its class at address 2.\<close>

definition fresh_device :: "string \<Rightarrow> string \<Rightarrow> 'p \<Rightarrow> 'p ldal_device" where
  "fresh_device s path p =
     \<lparr>fd = 0, name = s @ replicate (LDAL_NAME_MAX - length s) NUL,
      filename = path @ replicate (LDAL_FILENAME_MAX - length path) NUL,
      is_init = True, ref = 0, mutex = False, dclass = Some 2, user_data = Some p\<rparr>"

definition single_class :: "('p, 'w) device_ops \<Rightarrow> ('p, 'w) class_store" where
  "single_class ops = [2 \<mapsto> \<lparr>class_id = 0, dev_count = 0, device_ops = Some ops\<rparr>]"

lemma fresh_device_simps [simp]:
  "fd (fresh_device s path p) = 0" "is_init (fresh_device s path p)" "ref (fresh_device s path p) = 0"
  "\<not> mutex (fresh_device s path p)" "user_data (fresh_device s path p) = Some p"
  "has_ops (single_class ops) (fresh_device s path p) ops"
  by (simp_all add: fresh_device_def has_ops_def ops_of_def single_class_def)

lemma fresh_device_path [simp]:
  assumes "c_string path" "length path < LDAL_FILENAME_MAX"
  shows "read_cstr (filename (fresh_device s path p)) = Inr path"
proof -
  obtain n where "LDAL_FILENAME_MAX - length path = Suc n"
    using assms(2) by (metis diff_is_0_eq not_less old.nat.exhaust)
  then show ?thesis using assms(1) by (simp add: fresh_device_def)
qed

lemma fresh_device_name [simp]:
  assumes "c_string s" "length s < LDAL_NAME_MAX"
  shows "read_cstr (name (fresh_device s path p)) = Inr s"
proof -
  obtain n where "LDAL_NAME_MAX - length s = Suc n"
    using assms(2) by (metis diff_is_0_eq not_less old.nat.exhaust)
  then show ?thesis using assms(1) by (simp add: fresh_device_def)
qed

lemma unlock_data:
  "\<not> mutex d \<Longrightarrow> mutex_unlock (d\<lparr>mutex := True, user_data := x\<rparr>) = d\<lparr>user_data := x\<rparr>"
  by (cases d) (simp add: mutex_unlock_def)

lemma fd_mutex: "fd (d\<lparr>mutex := m\<rparr>) = fd d"
  by simp

end
