(* ===== verification/Fd_Drivers.thy ===== *)
theory Fd_Drivers
  imports Ldal_Device
begin

text \<open>
  The device classes that are a file descriptor and little else: \<open>src/class/ldal_file.c\<close>,
  \<open>ldal_gpio.c\<close>, \<open>ldal_digital.c\<close> and \<open>ldal_misc.c\<close>. Their drivers touch no member of the device but
  \<open>fd\<close>; what they share is the locale \<open>fd_driver\<close>, which gives the contract of every driver.
\<close>

section \<open>Regular files\<close>

definition file_open :: "'w kernel \<Rightarrow> ('p, 'w) dev_call" where
  "file_open K device w =
     bind_res (read_cstr (filename device)) (\<lambda>path.
     let (h, w) = k_open K path (O_RDWR OR O_CREAT) 420 w;
         device = device\<lparr>fd := h\<rparr>
     in if fd device < 0 then Inr (- LDAL_ERROR, device, w) else Inr (LDAL_EOK, device, w))"

definition file_close :: "'w kernel \<Rightarrow> ('p, 'w) dev_call" where
  "file_close K device w = (let (_, w) = k_close K (fd device) w in Inr (LDAL_EOK, device, w))"

definition file_read :: "'w kernel \<Rightarrow> ('p, 'w) read_call" where
  "file_read K device buf len w =
     assert_ptr buf (\<lambda>b.
     let (_, w) = k_lseek K (fd device) 0 SEEK_SET w in
     bind_res (sys_read K (fd device) b len w) (\<lambda>(ret, b, w).
     if ret = -1 then Inr (- LDAL_ERROR, Some b, device, w)
     else Inr (LDAL_EOK, Some b, device, w)))"

definition file_write :: "'w kernel \<Rightarrow> ('p, 'w) write_call" where
  "file_write K device buf len w =
     assert_ptr buf (\<lambda>b.
     bind_res (sys_write K (fd device) b len w) (\<lambda>(ret, w).
     if ret = -1 then Inr (- LDAL_ERROR, device, w) else Inr (LDAL_EOK, device, w)))"

definition file_device_ops :: "'w kernel \<Rightarrow> ('p, 'w) device_ops" where
  "file_device_ops K = no_ops
     \<lparr>op_open := Some (file_open K), op_close := Some (file_close K),
      op_read := Some (file_read K), op_write := Some (file_write K)\<rparr>"

section \<open>GPIO\<close>

definition gpio_open :: "'w kernel \<Rightarrow> ('p, 'w) dev_call" where
  "gpio_open K device w =
     bind_res (read_cstr (filename device)) (\<lambda>path.
     let (h, w) = k_open K path O_RDWR 0 w;
         device = device\<lparr>fd := h\<rparr>
     in if fd device < 0 then Inr (- LDAL_ERROR, device, w) else Inr (LDAL_EOK, device, w))"

definition gpio_close :: "'w kernel \<Rightarrow> ('p, 'w) dev_call" where
  "gpio_close K device w = (let (_, w) = k_close K (fd device) w in Inr (LDAL_EOK, device, w))"

definition gpio_read :: "'w kernel \<Rightarrow> ('p, 'w) read_call" where
  "gpio_read K device buf len w =
     assert_ptr buf (\<lambda>b.
     bind_res (sys_read K (fd device) b len w) (\<lambda>(ret, b, w).
     if ret = -1 then Inr (- LDAL_ERROR, Some b, device, w)
     else Inr (LDAL_EOK, Some b, device, w)))"

definition gpio_write :: "'w kernel \<Rightarrow> ('p, 'w) write_call" where
  "gpio_write K device buf len w =
     assert_ptr buf (\<lambda>b.
     bind_res (sys_write K (fd device) b len w) (\<lambda>(ret, w).
     if ret = -1 then Inr (- LDAL_ERROR, device, w) else Inr (LDAL_EOK, device, w)))"

definition gpio_device_ops :: "'w kernel \<Rightarrow> ('p, 'w) device_ops" where
  "gpio_device_ops K = no_ops
     \<lparr>op_open := Some (gpio_open K), op_close := Some (gpio_close K),
      op_read := Some (gpio_read K), op_write := Some (gpio_write K)\<rparr>"

section \<open>Digital inputs and outputs\<close>

definition DO_CONF_PLUSE_PERIOD :: u32 where "DO_CONF_PLUSE_PERIOD = iow (CHR ''k'') 2 4"
definition DI_GET_PLUSE_COUNT :: u32 where "DI_GET_PLUSE_COUNT = iow (CHR ''k'') 3 4"
definition DI_CLR_PLUSE_COUNT :: u32 where "DI_CLR_PLUSE_COUNT = iow (CHR ''k'') 4 4"

definition digital_open :: "'w kernel \<Rightarrow> ('p, 'w) dev_call" where
  "digital_open K dev w =
     bind_res (read_cstr (filename dev)) (\<lambda>path.
     let (h, w) = k_open K path (O_RDWR OR O_NONBLOCK) 0 w;
         dev = dev\<lparr>fd := h\<rparr>
     in if fd dev < 0 then Inr (- LDAL_ERROR, dev, w) else Inr (LDAL_EOK, dev, w))"

definition digital_close :: "'w kernel \<Rightarrow> ('p, 'w) dev_call" where
  "digital_close K dev w = (let (_, w) = k_close K (fd dev) w in Inr (LDAL_EOK, dev, w))"

definition digital_read :: "'w kernel \<Rightarrow> ('p, 'w) read_call" where
  "digital_read K dev buf len w =
     assert_ptr buf (\<lambda>b.
     bind_res (sys_read K (fd dev) b len w) (\<lambda>(ret, b, w).
     if ret = -1 then Inr (- LDAL_ERROR, Some b, dev, w)
     else Inr (LDAL_EOK, Some b, dev, w)))"

definition digital_write :: "'w kernel \<Rightarrow> ('p, 'w) write_call" where
  "digital_write K dev buf len w =
     assert_ptr buf (\<lambda>b.
     bind_res (sys_write K (fd dev) b len w) (\<lambda>(ret, w).
     if ret = -1 then Inr (- LDAL_ERROR, dev, w) else Inr (LDAL_EOK, dev, w)))"

text \<open>The command is compared as an \<open>int\<close>; these request numbers are positive ones.\<close>

definition digital_control :: "'w kernel \<Rightarrow> ('p, 'w) control_call" where
  "digital_control K dev cmd arg w =
     (if cmd = uint DI_GET_PLUSE_COUNT then
        (let (ret, count, w) = k_ioctl_long K (fd dev) (word_of_int cmd) 0 w in
         if ret < 0 then Inr (- LDAL_ERROR, arg, dev, w)
         else (case arg of
                 Arg_Null \<Rightarrow> Inl Null_Pointer
               | Arg_Long _ \<Rightarrow> Inr (LDAL_EOK, Arg_Long count, dev, w)
               | _ \<Rightarrow> Inl Bad_Cast))
      else if cmd = uint DI_CLR_PLUSE_COUNT then
        (let (ret, w) = k_ioctl_null K (fd dev) (word_of_int cmd) w in
         if ret < 0 then Inr (- LDAL_ERROR, arg, dev, w) else Inr (LDAL_EOK, arg, dev, w))
      else if cmd = uint DO_CONF_PLUSE_PERIOD then
        (case arg of
           Arg_Null \<Rightarrow>
             (let (ret, w) = k_ioctl_null K (fd dev) (word_of_int cmd) w in
              if ret < 0 then Inr (- LDAL_ERROR, arg, dev, w) else Inr (LDAL_EOK, arg, dev, w))
         | Arg_Short v \<Rightarrow>
             (let (ret, v, w) = k_ioctl_short K (fd dev) (word_of_int cmd) v w in
              if ret < 0 then Inr (- LDAL_ERROR, Arg_Short v, dev, w)
              else Inr (LDAL_EOK, Arg_Short v, dev, w))
         | _ \<Rightarrow> Inl Bad_Cast)
      else Inr (LDAL_EOK, arg, dev, w))"

definition digital_device_ops :: "'w kernel \<Rightarrow> ('p, 'w) device_ops" where
  "digital_device_ops K = no_ops
     \<lparr>op_open := Some (digital_open K), op_close := Some (digital_close K),
      op_read := Some (digital_read K), op_write := Some (digital_write K),
      op_control := Some (digital_control K)\<rparr>"

section \<open>Miscellaneous devices\<close>

definition BATTERY_GET_POWER_SUPPLY :: int where "BATTERY_GET_POWER_SUPPLY = 0x3001"
definition BATTERY_GET_POWER_CHARGE :: int where "BATTERY_GET_POWER_CHARGE = 0x3002"
definition GET_K37A_POWER_SUPPLY :: u32 where "GET_K37A_POWER_SUPPLY = iow (CHR ''H'') 2 4"
definition GET_K37A_BATTERY_CHARGE :: u32 where "GET_K37A_BATTERY_CHARGE = iow (CHR ''H'') 3 4"

definition misc_open :: "'w kernel \<Rightarrow> ('p, 'w) dev_call" where
  "misc_open K device w =
     bind_res (read_cstr (filename device)) (\<lambda>path.
     let (h, w) = k_open K path (O_RDWR OR O_NONBLOCK) 0 w;
         device = device\<lparr>fd := h\<rparr>
     in if fd device < 0 then Inr (- LDAL_ERROR, device, w) else Inr (LDAL_EOK, device, w))"

definition misc_close :: "'w kernel \<Rightarrow> ('p, 'w) dev_call" where
  "misc_close K device w = (let (_, w) = k_close K (fd device) w in Inr (LDAL_EOK, device, w))"

definition misc_read :: "'w kernel \<Rightarrow> ('p, 'w) read_call" where
  "misc_read K device buf len w =
     assert_ptr buf (\<lambda>b.
     bind_res (sys_read K (fd device) b len w) (\<lambda>(ret, b, w).
     if ret = -1 then Inr (- LDAL_ERROR, Some b, device, w)
     else Inr (LDAL_EOK, Some b, device, w)))"

definition misc_write :: "'w kernel \<Rightarrow> ('p, 'w) write_call" where
  "misc_write K device buf len w =
     assert_ptr buf (\<lambda>b.
     bind_res (sys_write K (fd device) b len w) (\<lambda>(ret, w).
     if ret = -1 then Inr (- LDAL_ERROR, device, w) else Inr (LDAL_EOK, device, w)))"

text \<open>\<open>ioctl(fd, req, state)\<close> on the caller's character, or on a null pointer.\<close>

definition ioctl_state ::
    "'w kernel \<Rightarrow> int \<Rightarrow> u32 \<Rightarrow> ctrl_arg \<Rightarrow> 'w \<Rightarrow> (int \<times> ctrl_arg \<times> 'w) result" where
  "ioctl_state K f req arg w =
     (case arg of
        Arg_Null \<Rightarrow> (let (ret, w) = k_ioctl_null K f req w in Inr (ret, Arg_Null, w))
      | Arg_Char c \<Rightarrow> (let (ret, c, w) = k_ioctl_char K f req c w in Inr (ret, Arg_Char c, w))
      | _ \<Rightarrow> Inl Bad_Cast)"

definition misc_control :: "'w kernel \<Rightarrow> ('p, 'w) control_call" where
  "misc_control K dev cmd arg w =
     (if cmd = BATTERY_GET_POWER_SUPPLY then
        bind_res (ioctl_state K (fd dev) GET_K37A_POWER_SUPPLY arg w) (\<lambda>(ret, arg, w).
        Inr (if ret < 0 then - LDAL_ERROR else ret, arg, dev, w))
      else if cmd = BATTERY_GET_POWER_CHARGE then
        bind_res (ioctl_state K (fd dev) GET_K37A_BATTERY_CHARGE arg w) (\<lambda>(ret, arg, w).
        Inr (if ret < 0 then - LDAL_ERROR else ret, arg, dev, w))
      else Inr (- LDAL_EINVAL, arg, dev, w))"

definition misc_device_ops :: "'w kernel \<Rightarrow> ('p, 'w) device_ops" where
  "misc_device_ops K = no_ops
     \<lparr>op_open := Some (misc_open K), op_close := Some (misc_close K),
      op_read := Some (misc_read K), op_write := Some (misc_write K),
      op_control := Some (misc_control K)\<rparr>"

section \<open>What the four classes share\<close>

text \<open>The outcome of \<open>read\<close> and \<open>write\<close> as these drivers report it: how many bytes is lost.\<close>

definition io_result :: "int \<Rightarrow> int" where
  "io_result ret = (if ret = -1 then - LDAL_ERROR else LDAL_EOK)"

definition fd_open :: "'w kernel \<Rightarrow> nat \<Rightarrow> nat \<Rightarrow> ('p, 'w) dev_call" where
  "fd_open K flags mode d w =
     bind_res (read_cstr (filename d)) (\<lambda>path.
     Inr (if fst (k_open K path flags mode w) < 0 then - LDAL_ERROR else LDAL_EOK,
          d\<lparr>fd := fst (k_open K path flags mode w)\<rparr>, snd (k_open K path flags mode w)))"

definition fd_close :: "'w kernel \<Rightarrow> ('p, 'w) dev_call" where
  "fd_close K d w = Inr (LDAL_EOK, d, snd (k_close K (fd d) w))"

definition fd_read :: "'w kernel \<Rightarrow> (int \<Rightarrow> 'w \<Rightarrow> 'w) \<Rightarrow> ('p, 'w) read_call" where
  "fd_read K seek d buf len w =
     assert_ptr buf (\<lambda>b.
     bind_res (sys_read K (fd d) b len (seek (fd d) w)) (\<lambda>(ret, b, w).
     Inr (io_result ret, Some b, d, w)))"

definition fd_write :: "'w kernel \<Rightarrow> ('p, 'w) write_call" where
  "fd_write K d buf len w =
     assert_ptr buf (\<lambda>b.
     bind_res (sys_write K (fd d) b len w) (\<lambda>(ret, w). Inr (io_result ret, d, w)))"

locale fd_driver =
  fixes ops :: "('p, 'w) device_ops" and K :: "'w kernel" and flags mode :: nat
    and seek :: "int \<Rightarrow> 'w \<Rightarrow> 'w"
  assumes absent: "op_init ops = None" "op_check ops = None" "op_bind ops = None"
      "op_connect ops = None"
    and open_law: "op_open ops = Some (fd_open K flags mode)"
    and close_law: "op_close ops = Some (fd_close K)"
    and read_law: "op_read ops = Some (fd_read K seek)"
    and write_law: "op_write ops = Some (fd_write K)"
    and control_law: "op_control ops = Some k \<Longrightarrow> k d cmd arg w = Inr (r, arg', d', w') \<Longrightarrow> d' = d"
begin

lemma open_device:
  assumes "has_ops cls d ops" "is_init d" "ref d = 0" "read_cstr (filename d) = Inr path"
    "k_open K path flags mode w = (h, w')"
  shows "startup_device cls d w =
     Inr (LDAL_EOK, if 0 \<le> h then d\<lparr>fd := h, ref := 1\<rparr> else d\<lparr>fd := h\<rparr>, w')"
  using open_law assms by (auto simp: startup_device_def has_ops_fetch fd_open_def)

lemma close_device:
  assumes "has_ops cls d ops" "is_init d" "ref d = 1"
  shows "stop_device cls d w = Inr (LDAL_EOK, d\<lparr>ref := 0\<rparr>, snd (k_close K (fd d) w))"
  using close_law assms has_ops_class [of "d\<lparr>ref := 0\<rparr>" d cls ops]
  by (auto simp: stop_device_def has_ops_fetch fd_close_def)

lemma read_bytes:
  assumes "has_ops cls d ops" "\<not> mutex d" "unat len \<le> length buf" "unat len < 2 ^ 31"
    "k_read K (fd d) (unat len) (seek (fd d) w) = (ret, data, w')" "reply_ok (unat len) ret data"
  shows "read_device cls d (Some buf) len w =
     Inr (io_result ret, Some (if ret = -1 then buf else data @ drop (length data) buf), d, w')"
  using read_law assms sys_read_ok [OF assms(5,6,3,4)] device_mutex_same [OF assms(2)]
    has_ops_class [of "d\<lparr>mutex := True\<rparr>" d cls ops]
  by (auto simp: read_device_def mutex_lock_def mutex_unlock_def has_ops_fetch fd_read_def)

lemma write_bytes:
  assumes "has_ops cls d ops" "\<not> mutex d" "length data = unat len"
    "k_write K (fd d) data w = (ret, w')" "in_int ret"
  shows "write_device cls d (Some data) len w = Inr (io_result ret, d, w')"
  using write_law assms sys_write_ok [OF assms(4,3,5)] device_mutex_same [OF assms(2)]
    has_ops_class [of "d\<lparr>mutex := True\<rparr>" d cls ops]
  by (auto simp: write_device_def mutex_lock_def mutex_unlock_def has_ops_fetch fd_write_def)

lemma null_buffer:
  assumes "has_ops cls d ops" "\<not> mutex d"
  shows "read_device cls d None len w = Inl Assertion_Failed"
    "write_device cls d None len w = Inl Assertion_Failed"
  using read_law write_law assms has_ops_class [of "d\<lparr>mutex := True\<rparr>" d cls ops]
  by (auto simp: read_device_def write_device_def mutex_lock_def has_ops_fetch fd_read_def fd_write_def)

lemma absent_calls:
  assumes "has_ops cls d ops" "\<not> mutex d"
  shows "check_status cls d w = Inl Null_Pointer" "bind_local_addr cls d ip port w = Inl Null_Pointer"
    "connect_server_addr cls d ip port w = Inl Null_Pointer"
  using absent assms
  by (simp_all add: check_status_def bind_local_addr_def connect_server_addr_def mutex_lock_def
      has_ops_fetch)

end

sublocale fd_driver \<subseteq> driver ops
proof
  fix f d w r d' w'
  show "op_open ops = Some f \<Longrightarrow> f d w = Inr (r, d', w') \<Longrightarrow> dev_id d' = dev_id d"
    using open_law by (auto simp: fd_open_def dev_frame)
next
  fix f d w r d' w'
  show "op_close ops = Some f \<Longrightarrow> f d w = Inr (r, d', w') \<Longrightarrow> dev_id d' = dev_id d"
    using close_law by (auto simp: fd_close_def)
next
  fix g d buf len w r buf' d' w'
  show "op_read ops = Some g \<Longrightarrow> g d buf len w = Inr (r, buf', d', w') \<Longrightarrow> dev_id d' = dev_id d"
    using read_law by (cases buf) (auto simp: fd_read_def)
next
  fix h d buf len w r d' w'
  show "op_write ops = Some h \<Longrightarrow> h d buf len w = Inr (r, d', w') \<Longrightarrow> dev_id d' = dev_id d"
    using write_law by (cases buf) (auto simp: fd_write_def)
next
  fix k d cmd arg w r arg' d' w'
  show "op_control ops = Some k \<Longrightarrow> k d cmd arg w = Inr (r, arg', d', w') \<Longrightarrow> dev_id d' = dev_id d"
    using control_law by fastforce
qed (simp_all add: absent)

section \<open>The four instances\<close>

lemma assert_ptr_cong: "(\<And>b. k b = k' b) \<Longrightarrow> assert_ptr p k = assert_ptr p k'"
  by (cases p) auto

lemma fd_opens:
  "file_open K = fd_open K (O_RDWR OR O_CREAT) 420" "gpio_open K = fd_open K O_RDWR 0"
  "digital_open K = fd_open K (O_RDWR OR O_NONBLOCK) 0"
  "misc_open K = fd_open K (O_RDWR OR O_NONBLOCK) 0"
  by (auto simp: fun_eq_iff fd_open_def file_open_def gpio_open_def digital_open_def misc_open_def
      Let_def split: prod.splits intro!: bind_res_cong)

lemma fd_closes:
  "file_close K = fd_close K" "gpio_close K = fd_close K" "digital_close K = fd_close K"
  "misc_close K = fd_close K"
  by (auto simp: fun_eq_iff fd_close_def file_close_def gpio_close_def digital_close_def
      misc_close_def split: prod.splits)

lemma fd_reads:
  "file_read K = fd_read K (\<lambda>h w. snd (k_lseek K h 0 SEEK_SET w))" "gpio_read K = fd_read K (\<lambda>_ w. w)"
  "digital_read K = fd_read K (\<lambda>_ w. w)" "misc_read K = fd_read K (\<lambda>_ w. w)"
  by (auto simp: fun_eq_iff fd_read_def file_read_def gpio_read_def digital_read_def misc_read_def
      io_result_def split: prod.splits intro!: bind_res_cong assert_ptr_cong)

lemma fd_writes:
  "file_write K = fd_write K" "gpio_write K = fd_write K" "digital_write K = fd_write K"
  "misc_write K = fd_write K"
  by (auto simp: fun_eq_iff fd_write_def file_write_def gpio_write_def digital_write_def
      misc_write_def io_result_def split: prod.splits intro!: bind_res_cong assert_ptr_cong)

lemma digital_control_device:
  "digital_control K d cmd arg w = Inr (r, arg', d', w') \<Longrightarrow> d' = d"
  by (auto simp: digital_control_def split: if_splits prod.splits ctrl_arg.splits)

lemma misc_control_device: "misc_control K d cmd arg w = Inr (r, arg', d', w') \<Longrightarrow> d' = d"
  by (auto simp: misc_control_def split: if_splits)

lemmas fd_tables = no_ops_def fd_opens fd_closes fd_reads fd_writes
  file_device_ops_def gpio_device_ops_def digital_device_ops_def misc_device_ops_def

interpretation file_drv: fd_driver "file_device_ops K" K "O_RDWR OR O_CREAT" 420
  "\<lambda>h w. snd (k_lseek K h 0 SEEK_SET w)" for K
  by unfold_locales (simp_all add: fd_tables)

interpretation gpio_drv: fd_driver "gpio_device_ops K" K O_RDWR 0 "\<lambda>_ w. w" for K
  by unfold_locales (simp_all add: fd_tables)

interpretation digital_drv: fd_driver "digital_device_ops K" K "O_RDWR OR O_NONBLOCK" 0
  "\<lambda>_ w. w" for K
  by unfold_locales (auto simp: fd_tables dest: digital_control_device)

interpretation misc_drv: fd_driver "misc_device_ops K" K "O_RDWR OR O_NONBLOCK" 0 "\<lambda>_ w. w" for K
  by unfold_locales (auto simp: fd_tables dest: misc_control_device)

section \<open>Properties\<close>

text \<open>
  A write session on a file, GPIO, digital or miscellaneous device: \<open>startup_device\<close> opens
  the path the device is registered with, with the flags of its class, \<open>write_device\<close> hands the
  descriptor and exactly the caller's bytes to the kernel, \<open>stop_device\<close> closes that descriptor, and
  no other call is made.
\<close>
theorem fd_session:
  fixes K :: "'w kernel" and d :: "'p ldal_device"
  assumes table: "(ops, flags, mode) \<in> set
      [(file_device_ops K, O_RDWR OR O_CREAT, 420), (gpio_device_ops K, O_RDWR, 0),
       (digital_device_ops K, O_RDWR OR O_NONBLOCK, 0), (misc_device_ops K, O_RDWR OR O_NONBLOCK, 0)]"
    and d: "has_ops cls d ops" "is_init d" "ref d = 0" "\<not> mutex d" "read_cstr (filename d) = Inr path"
    and K: "k_open K path flags mode w = (h, w1)" "0 \<le> h"
      "k_write K h data w1 = (n, w2)" "n \<noteq> -1" "in_int n" "length data = unat len"
  shows "startup_device cls d w = Inr (LDAL_EOK, d\<lparr>fd := h, ref := 1\<rparr>, w1) \<and>
    write_device cls (d\<lparr>fd := h, ref := 1\<rparr>) (Some data) len w1 =
      Inr (LDAL_EOK, d\<lparr>fd := h, ref := 1\<rparr>, w2) \<and>
    stop_device cls (d\<lparr>fd := h, ref := 1\<rparr>) w2 =
      Inr (LDAL_EOK, d\<lparr>fd := h, ref := 0\<rparr>, snd (k_close K h w2))"
proof -
  define d1 where "d1 = d\<lparr>fd := h, ref := 1\<rparr>"
  have d1: "has_ops cls d1 ops" "is_init d1" "ref d1 = 1" "\<not> mutex d1" "fd d1 = h"
    "d1\<lparr>ref := 0\<rparr> = d\<lparr>fd := h, ref := 0\<rparr>"
    using d has_ops_class [of d1 d cls ops] by (simp_all add: d1_def)
  consider "fd_driver ops K flags mode (\<lambda>h w. snd (k_lseek K h 0 SEEK_SET w))"
    | "fd_driver ops K flags mode (\<lambda>_ w. w)"
    using table file_drv.fd_driver_axioms gpio_drv.fd_driver_axioms digital_drv.fd_driver_axioms
      misc_drv.fd_driver_axioms by auto
  then show ?thesis
    unfolding d1_def [symmetric]
    using fd_driver.open_device [OF _ d(1-3,5) K(1)] fd_driver.write_bytes [OF _ d1(1,4) K(6), of K]
      fd_driver.close_device [OF _ d1(1-3)] K d1 by cases (auto simp: io_result_def d1_def)
qed

lemma fd_session_witness:
  "startup_device (single_class (gpio_device_ops sample_kernel)) (fresh_device ''led'' ''/dev/led'' ()) 0 =
     Inr (LDAL_EOK, (fresh_device ''led'' ''/dev/led'' ())\<lparr>fd := 3, ref := 1\<rparr>, 1)"
  using fd_session [of "gpio_device_ops sample_kernel" O_RDWR 0 sample_kernel
      "single_class (gpio_device_ops sample_kernel)" "fresh_device ''led'' ''/dev/led'' ()" "''/dev/led''" 0 3 1
      "[1]" 1 2 1]
  by (simp add: sample_kernel_def NUL_def)

text \<open>
  When the descriptor of such a device cannot be opened, \<open>startup_device\<close> still returns
  success, but the device counts as stopped, so that \<open>stop_device\<close> closes nothing and the next
  \<open>startup_device\<close> tries again.
\<close>
theorem fd_failed_open:
  fixes K :: "'w kernel" and d :: "'p ldal_device"
  assumes table: "(ops, flags, mode) \<in> set
      [(file_device_ops K, O_RDWR OR O_CREAT, 420), (gpio_device_ops K, O_RDWR, 0),
       (digital_device_ops K, O_RDWR OR O_NONBLOCK, 0), (misc_device_ops K, O_RDWR OR O_NONBLOCK, 0)]"
    and d: "has_ops cls d ops" "is_init d" "ref d = 0" "read_cstr (filename d) = Inr path"
    and K: "k_open K path flags mode w = (-1, w1)"
  shows "startup_device cls d w = Inr (LDAL_EOK, d\<lparr>fd := -1\<rparr>, w1) \<and>
    stop_device cls (d\<lparr>fd := -1\<rparr>) w1 = Inr (LDAL_EOK, d\<lparr>fd := -1\<rparr>, w1)"
proof -
  consider "fd_driver ops K flags mode (\<lambda>h w. snd (k_lseek K h 0 SEEK_SET w))"
    | "fd_driver ops K flags mode (\<lambda>_ w. w)"
    using table file_drv.fd_driver_axioms gpio_drv.fd_driver_axioms digital_drv.fd_driver_axioms
      misc_drv.fd_driver_axioms by auto
  then show ?thesis
    using fd_driver.open_device [OF _ d K] d by cases (auto simp: stop_device_def)
qed

lemma fd_failed_open_witness:
  "startup_device (single_class (gpio_device_ops (sample_kernel\<lparr>k_open := \<lambda>_ _ _ w. (-1, w)\<rparr>)))
     (fresh_device ''led'' ''/dev/led'' ()) 0 =
     Inr (LDAL_EOK, (fresh_device ''led'' ''/dev/led'' ())\<lparr>fd := -1\<rparr>, 0)"
  using fd_failed_open [of "gpio_device_ops (sample_kernel\<lparr>k_open := \<lambda>_ _ _ w. (-1, w)\<rparr>)" O_RDWR 0
      "sample_kernel\<lparr>k_open := \<lambda>_ _ _ w. (-1, w)\<rparr>"
      "single_class (gpio_device_ops (sample_kernel\<lparr>k_open := \<lambda>_ _ _ w. (-1, w)\<rparr>))"
      "fresh_device ''led'' ''/dev/led'' ()" "''/dev/led''" 0 0]
  by (simp add: NUL_def)

text \<open>
  \<open>read_device\<close> on a GPIO device fills the front of the caller's buffer with what the kernel
  delivered, leaves the rest, and reports success however few bytes came; on a failed read the
  buffer is untouched and the result is \<open>-LDAL_ERROR\<close>.
\<close>
theorem gpio_read_bytes:
  fixes K :: "'w kernel"
  assumes "has_ops cls d (gpio_device_ops K)" "\<not> mutex d"
    "k_read K (fd d) (unat len) w = (ret, data, w')" "reply_ok (unat len) ret data"
    "unat len \<le> length buf" "unat len < 2 ^ 31"
  shows "read_device cls d (Some buf) len w =
     Inr (if ret = -1 then - LDAL_ERROR else LDAL_EOK,
          Some (if ret = -1 then buf else data @ drop (length data) buf), d, w')"
  using gpio_drv.read_bytes [OF assms(1,2,5,6,3,4)] unfolding io_result_def .

lemma gpio_read_bytes_witness:
  "read_device (single_class (gpio_device_ops sample_kernel)) (fresh_device ''key'' ''/dev/key'' ())
     (Some [0, 0]) 2 0 = Inr (0, Some [42, 0], fresh_device ''key'' ''/dev/key'' (), 1)"
  using gpio_read_bytes [of "single_class (gpio_device_ops sample_kernel)"
      "fresh_device ''key'' ''/dev/key'' ()" sample_kernel 2 0 1 "[42]" 1 "[0, 0]"]
  by (simp add: sample_kernel_def reply_ok_def)

text \<open>
  \<open>control_device\<close> on a digital port: reading the pulse counter stores the count the
  kernel reports, or fails and leaves the caller's variable alone; a command the driver does not
  know makes no request and is nevertheless reported as done.
\<close>
theorem digital_control_cases:
  fixes K :: "'w kernel"
  assumes "has_ops cls d (digital_device_ops K)" "\<not> mutex d"
    "k_ioctl_long K (fd d) DI_GET_PLUSE_COUNT 0 w = (ret, count, w')"
    "cmd \<notin> {uint DI_GET_PLUSE_COUNT, uint DI_CLR_PLUSE_COUNT, uint DO_CONF_PLUSE_PERIOD}"
  shows "control_device cls d (uint DI_GET_PLUSE_COUNT) (Arg_Long v) w =
     Inr (if ret < 0 then (- LDAL_ERROR, Arg_Long v, d, w') else (LDAL_EOK, Arg_Long count, d, w')) \<and>
   control_device cls d cmd arg w = Inr (LDAL_EOK, arg, d, w)"
proof -
  have "has_ops cls (d\<lparr>mutex := True\<rparr>) (digital_device_ops K)"
    using assms(1) has_ops_class [of "d\<lparr>mutex := True\<rparr>" d cls "digital_device_ops K"] by simp
  with assms show ?thesis
    by (auto simp: control_device_def mutex_lock_def mutex_unlock_def has_ops_fetch
        digital_device_ops_def digital_control_def device_mutex_same)
qed

lemma digital_control_cases_witness:
  "control_device (single_class (digital_device_ops sample_kernel)) (fresh_device ''di'' ''/dev/di'' ())
     (uint DI_GET_PLUSE_COUNT) (Arg_Long 0) 0 =
     Inr (0, Arg_Long 7, fresh_device ''di'' ''/dev/di'' (), 1)"
  using digital_control_cases [of "single_class (digital_device_ops sample_kernel)"
      "fresh_device ''di'' ''/dev/di'' ()" sample_kernel 0 0 7 1 0]
  by (simp add: sample_kernel_def DI_GET_PLUSE_COUNT_def DI_CLR_PLUSE_COUNT_def
      DO_CONF_PLUSE_PERIOD_def iow_def)

end
