(* ===== verification/Memory_Driver.thy ===== *)
theory Memory_Driver
  imports Ldal_Device Ring_Buffer
begin

text \<open>
  The memory device class, \<open>src/class/ldal_memory.c\<close>: a ring buffer of 4096 bytes behind the device
  interface. The class is a client of the ring buffer's contract, and a memory device that is open
  satisfies the same contract again.
\<close>

section \<open>The driver\<close>

abbreviation DEFAULT_MEM_SIZE :: u16 where "DEFAULT_MEM_SIZE \<equiv> 4096"

text \<open>\<open>struct ldal_memory_device\<close> after its device; \<open>mem_data\<close> is its \<open>user_data\<close>.\<close>

record ldal_memory_device =
  mem_status :: int
  mem_data :: "dg_ringbuffer ptr"

text \<open>The two allocations of \<open>dg_ringbuffer_create\<close>, the second only after the first.\<close>

definition create_ring :: "'w kernel \<Rightarrow> u16 \<Rightarrow> 'w \<Rightarrow> (dg_ringbuffer ptr \<times> 'w) result" where
  "create_ring K sz w =
     (let (m1, w) = k_calloc K w;
          (m2, w) = (if m1 then k_calloc K w else (False, w))
      in bind_res (dg_ringbuffer_create m1 m2 sz) (\<lambda>r.
         Inr (case r of None \<Rightarrow> Null | Some rb \<Rightarrow> Obj rb, w)))"

definition memory_open :: "'w kernel \<Rightarrow> (ldal_memory_device, 'w) dev_call" where
  "memory_open K device w =
     bind_res (create_ring K DEFAULT_MEM_SIZE w) (\<lambda>(rb, w).
     if rb = Null then Inr (- LDAL_ENOMEM, device, w)
     else
       bind_res (parent device) (\<lambda>mem.
       Inr (LDAL_EOK, device\<lparr>user_data := Some (mem\<lparr>mem_data := rb\<rparr>)\<rparr>, w)))"

definition memory_close :: "(ldal_memory_device, 'w) dev_call" where
  "memory_close device w =
     bind_res (parent device) (\<lambda>mem.
     if mem_data mem \<noteq> Null then
       bind_res (dg_ringbuffer_destroy (mem_data mem)) (\<lambda>rb.
       Inr (LDAL_EOK, device\<lparr>user_data := Some (mem\<lparr>mem_data := rb\<rparr>)\<rparr>, w))
     else Inr (LDAL_EOK, device, w))"

text \<open>
  The length, a \<open>size_t\<close>, is converted to the \<open>uint16_t\<close> of the ring buffer. A null buffer is one
  with no byte to access.
\<close>

definition memory_read :: "(ldal_memory_device, 'w) read_call" where
  "memory_read device buf len w =
     bind_res (parent device) (\<lambda>mem.
     if mem_data mem = Null then Inr (- LDAL_ERROR, buf, device, w)
     else
       bind_res (deref (mem_data mem)) (\<lambda>rb.
       bind_res (dg_ringbuffer_get rb (case_option [] id buf) (ucast len)) (\<lambda>(size, b, rb).
       Inr (to_int (uint size), map_option (\<lambda>_. b) buf,
            device\<lparr>user_data := Some (mem\<lparr>mem_data := Obj rb\<rparr>)\<rparr>, w))))"

definition memory_write :: "(ldal_memory_device, 'w) write_call" where
  "memory_write device buf len w =
     bind_res (parent device) (\<lambda>mem.
     if mem_data mem = Null then Inr (- LDAL_ERROR, device, w)
     else
       bind_res (deref (mem_data mem)) (\<lambda>rb.
       bind_res (dg_ringbuffer_put rb (case_option [] id buf) (ucast len)) (\<lambda>(size, rb).
       Inr (to_int (uint size), device\<lparr>user_data := Some (mem\<lparr>mem_data := Obj rb\<rparr>)\<rparr>, w))))"

definition memory_control :: "(ldal_memory_device, 'w) control_call" where
  "memory_control device cmd arg w = Inr (LDAL_EOK, arg, device, w)"

definition memory_device_ops :: "'w kernel \<Rightarrow> (ldal_memory_device, 'w) device_ops" where
  "memory_device_ops K = no_ops
     \<lparr>op_open := Some (memory_open K), op_close := Some memory_close,
      op_read := Some memory_read, op_write := Some memory_write,
      op_control := Some memory_control\<rparr>"

interpretation memory_drv: driver "memory_device_ops K" for K
  by unfold_locales
    (auto simp: memory_device_ops_def no_ops_def memory_open_def memory_close_def memory_read_def
      memory_write_def memory_control_def parent_Inr dev_frame split: if_splits)

section \<open>An open memory device is a queue\<close>

text \<open>The device as a queue: its state is the device and the world, its elements those of the ring.\<close>

definition mem_ring :: "ldal_memory_device ldal_device \<times> 'w \<Rightarrow> dg_ringbuffer" where
  "mem_ring q =
     (case map_option mem_data (user_data (fst q)) of Some (Obj rb) \<Rightarrow> rb | _ \<Rightarrow> rb_fresh 0)"

definition mem_ready ::
    "'w kernel \<Rightarrow> (ldal_memory_device, 'w) class_store \<Rightarrow> ldal_memory_device ldal_device \<times> 'w \<Rightarrow> bool" where
  "mem_ready K cls q \<longleftrightarrow>
     has_ops cls (fst q) (memory_device_ops K) \<and> \<not> mutex (fst q) \<and>
     (\<exists>m. user_data (fst q) = Some m \<and> mem_data m = Obj (mem_ring q)) \<and> rb_inv (mem_ring q)"

definition mem_put ::
    "(ldal_memory_device, 'w) class_store \<Rightarrow> ldal_memory_device ldal_device \<times> 'w \<Rightarrow> byte list \<Rightarrow> u16 \<Rightarrow>
     (size_t \<times> ldal_memory_device ldal_device \<times> 'w) result" where
  "mem_put cls q data len =
     bind_res (write_device cls (fst q) (Some data) (ucast len) (snd q)) (\<lambda>(ret, q).
     Inr (word_of_int ret, q))"

definition mem_get ::
    "(ldal_memory_device, 'w) class_store \<Rightarrow> ldal_memory_device ldal_device \<times> 'w \<Rightarrow> byte list \<Rightarrow> u16 \<Rightarrow>
     (size_t \<times> byte list \<times> ldal_memory_device ldal_device \<times> 'w) result" where
  "mem_get cls q buf len =
     bind_res (read_device cls (fst q) (Some buf) (ucast len) (snd q)) (\<lambda>(ret, buf, q).
     Inr (word_of_int ret, the buf, q))"

lemma mem_ring_Obj: "user_data (fst q) = Some m \<Longrightarrow> mem_data m = Obj rb \<Longrightarrow> mem_ring q = rb"
  by (simp add: mem_ring_def)

lemma ring_amount:
  assumes "n < 2 ^ 15"
  shows "to_int (uint (word_of_nat n :: size_t)) = int n"
proof -
  have "uint (word_of_nat n :: size_t) = int n" using assms by (intro uint_word_of_nat_small) simp
  moreover have "int n < 2 ^ 31" using assms by simp
  ultimately show ?thesis by (simp add: in_int_small)
qed

text \<open>The device operations in terms of the queue's laws, for any length the interface takes.\<close>

lemma mem_write_device:
  assumes "mem_ready K cls (d, w)" "rb = mem_ring (d, w)"
    "n = min (unat (ucast len :: u16)) (cap rb - length (contents rb))" "n \<le> length data"
  obtains d' where "write_device cls d (Some data) len w = Inr (int n, d', w)"
    "mem_ready K cls (d', w)" "cap (mem_ring (d', w)) = cap rb"
    "contents (mem_ring (d', w)) = contents rb @ take n data"
proof -
  obtain m where m: "user_data d = Some m" "mem_data m = Obj rb"
    and h: "has_ops cls d (memory_device_ops K)" "\<not> mutex d" "rb_inv rb"
    using assms(1,2) by (auto simp: mem_ready_def)
  obtain rb' where rb': "dg_ringbuffer_put rb data (ucast len) = Inr (word_of_nat n, rb')"
    "rb_inv rb'" "cap rb' = cap rb" "contents rb' = contents rb @ take n data"
    using ring.put_law [OF h(3) assms(3,4)] by blast
  define d' where "d' = d\<lparr>user_data := Some (m\<lparr>mem_data := Obj rb'\<rparr>), mutex := False\<rparr>"
  have "n < 2 ^ 15" using ring.capacity_bound [OF h(3)] assms(3) by simp
  then have "write_device cls d (Some data) len w = Inr (int n, d', w)"
    using h rb' m has_ops_class [of "d\<lparr>mutex := True\<rparr>" d cls "memory_device_ops K"]
    by (simp add: write_device_def mutex_lock_def mutex_unlock_def has_ops_fetch
        memory_device_ops_def memory_write_def ring_amount d'_def)
  moreover have r: "mem_ring (d', w) = rb'" by (simp add: mem_ring_def d'_def)
  moreover have "mem_ready K cls (d', w)"
    using h rb' r has_ops_class [of d' d cls "memory_device_ops K"] by (simp add: mem_ready_def d'_def)
  ultimately show thesis using rb' that by simp
qed

lemma mem_read_device:
  assumes "mem_ready K cls (d, w)" "rb = mem_ring (d, w)"
    "n = min (unat (ucast len :: u16)) (length (contents rb))" "n \<le> length buf"
  obtains d' where "read_device cls d (Some buf) len w =
      Inr (int n, Some (take n (contents rb) @ drop n buf), d', w)"
    "mem_ready K cls (d', w)" "cap (mem_ring (d', w)) = cap rb"
    "contents (mem_ring (d', w)) = drop n (contents rb)"
proof -
  obtain m where m: "user_data d = Some m" "mem_data m = Obj rb"
    and h: "has_ops cls d (memory_device_ops K)" "\<not> mutex d" "rb_inv rb"
    using assms(1,2) by (auto simp: mem_ready_def)
  obtain rb' where rb': "dg_ringbuffer_get rb buf (ucast len) =
      Inr (word_of_nat n, take n (contents rb) @ drop n buf, rb')"
    "rb_inv rb'" "cap rb' = cap rb" "contents rb' = drop n (contents rb)"
    using ring.get_law [OF h(3) assms(3,4)] by blast
  define d' where "d' = d\<lparr>user_data := Some (m\<lparr>mem_data := Obj rb'\<rparr>), mutex := False\<rparr>"
  have "n < 2 ^ 15"
    using ring.capacity_bound [OF h(3)] ring.elems_bound [OF h(3)] assms(3) by linarith
  then have "read_device cls d (Some buf) len w =
      Inr (int n, Some (take n (contents rb) @ drop n buf), d', w)"
    using h rb' m has_ops_class [of "d\<lparr>mutex := True\<rparr>" d cls "memory_device_ops K"]
    by (simp add: read_device_def mutex_lock_def mutex_unlock_def has_ops_fetch
        memory_device_ops_def memory_read_def ring_amount d'_def)
  moreover have r: "mem_ring (d', w) = rb'" by (simp add: mem_ring_def d'_def)
  moreover have "mem_ready K cls (d', w)"
    using h rb' r has_ops_class [of d' d cls "memory_device_ops K"] by (simp add: mem_ready_def d'_def)
  ultimately show thesis using rb' that by simp
qed

interpretation memq: byte_queue "mem_ready K cls" "\<lambda>q. contents (mem_ring q)" "\<lambda>q. cap (mem_ring q)"
  "mem_put cls" "mem_get cls" for K :: "'w kernel" and cls
proof unfold_locales
  fix q :: "ldal_memory_device ldal_device \<times> 'w" and n :: nat and len :: u16 and data :: "byte list"
  assume ready: "mem_ready K cls q"
  then have inv: "rb_inv (mem_ring q)" by (simp add: mem_ready_def)
  show "cap (mem_ring q) < 2 ^ 15" by (rule cap_bound)
  show "length (contents (mem_ring q)) \<le> cap (mem_ring q)" using inv by (rule length_contents_le)
  have same: "(ucast (ucast len :: size_t) :: u16) = len" by (simp add: ucast_down_up)
  show "\<exists>q'. mem_put cls q data len = Inr (word_of_nat n, q') \<and> mem_ready K cls q' \<and>
      cap (mem_ring q') = cap (mem_ring q) \<and>
      contents (mem_ring q') = contents (mem_ring q) @ take n data"
    if prem: "n = min (unat len) (cap (mem_ring q) - length (contents (mem_ring q)))" "n \<le> length data"
  proof -
    obtain d w where q: "q = (d, w)" by (cases q)
    obtain d' where "write_device cls d (Some data) (ucast len) w = Inr (int n, d', w)"
      "mem_ready K cls (d', w)" "cap (mem_ring (d', w)) = cap (mem_ring (d, w))"
      "contents (mem_ring (d', w)) = contents (mem_ring (d, w)) @ take n data"
      using mem_write_device [of K cls d w "mem_ring (d, w)" n "ucast len" data] prem ready
      unfolding q same by blast
    then show ?thesis by (auto simp: mem_put_def q)
  qed
  show "\<exists>q'. mem_get cls q data len =
        Inr (word_of_nat n, take n (contents (mem_ring q)) @ drop n data, q') \<and> mem_ready K cls q' \<and>
      cap (mem_ring q') = cap (mem_ring q) \<and> contents (mem_ring q') = drop n (contents (mem_ring q))"
    if prem: "n = min (unat len) (length (contents (mem_ring q)))" "n \<le> length data"
  proof -
    obtain d w where q: "q = (d, w)" by (cases q)
    obtain d' where "read_device cls d (Some data) (ucast len) w =
        Inr (int n, Some (take n (contents (mem_ring (d, w))) @ drop n data), d', w)"
      "mem_ready K cls (d', w)" "cap (mem_ring (d', w)) = cap (mem_ring (d, w))"
      "contents (mem_ring (d', w)) = drop n (contents (mem_ring (d, w)))"
      using mem_read_device [of K cls d w "mem_ring (d, w)" n "ucast len" data] prem ready
      unfolding q same by blast
    then show ?thesis by (auto simp: mem_get_def q)
  qed
qed

section \<open>Properties\<close>

text \<open>
  Starting a registered, stopped memory device, both allocations succeeding, gives a
  queue of 4096 bytes that is empty; when an allocation fails the device stays stopped and as it was,
  although the call reports success.
\<close>
theorem memory_startup:
  fixes K :: "'w kernel"
  assumes "has_ops cls d (memory_device_ops K)" "is_init d" "ref d = 0" "\<not> mutex d"
    "user_data d = Some m" "k_calloc K w = (m1, w1)" "k_calloc K w1 = (m2, w2)"
  shows "\<exists>d'. startup_device cls d w = Inr (LDAL_EOK, d', if m1 then w2 else w1) \<and>
    (if m1 \<and> m2
     then ref d' = 1 \<and> mem_ready K cls (d', w2) \<and> cap (mem_ring (d', w2)) = 4096 \<and>
          contents (mem_ring (d', w2)) = []
     else d' = d)"
proof -
  define d1 where "d1 = d\<lparr>user_data := Some (m\<lparr>mem_data := Obj (rb_fresh 4096)\<rparr>), ref := 1\<rparr>"
  have "has_ops cls d1 (memory_device_ops K)"
    using assms(1) has_ops_class [of d1 d cls "memory_device_ops K"] by (simp add: d1_def)
  then have "mem_ready K cls (d1, w2) \<and> mem_ring (d1, w2) = rb_fresh 4096"
    using assms(4) by (simp add: mem_ready_def mem_ring_def d1_def rb_fresh_ok)
  then show ?thesis
    using assms rb_fresh_ok [of 4096]
    by (auto simp: startup_device_def has_ops_fetch memory_device_ops_def memory_open_def
        create_ring_def dg_ringbuffer_create_cases d1_def)
qed

lemma memory_startup_witness:
  "\<exists>d'. startup_device (single_class (memory_device_ops sample_kernel))
      (fresh_device ''mem0'' ''/dev/null'' \<lparr>mem_status = 0, mem_data = Null\<rparr>) 0 =
      Inr (LDAL_EOK, d', 2) \<and> ref d' = 1 \<and> contents (mem_ring (d', 2 :: nat)) = []"
  using memory_startup [of "single_class (memory_device_ops sample_kernel)"
      "fresh_device ''mem0'' ''/dev/null'' \<lparr>mem_status = 0, mem_data = Null\<rparr>" sample_kernel
      "\<lparr>mem_status = 0, mem_data = Null\<rparr>" 0 True 1 True 2]
  by (auto simp: sample_kernel_def)

text \<open>
  \<open>write_device\<close> on an open memory device appends to the queue the first
  \<open>min (len mod 65536) space\<close> bytes of the caller's data and returns their number: the length
  is cut to 16 bits on the way to the ring buffer.
\<close>
theorem memory_write_bytes:
  assumes "mem_ready K cls (d, w)" "unat len \<le> length data"
  shows "\<exists>d' n. write_device cls d (Some data) len w = Inr (int n, d', w) \<and>
    n = min (unat len mod 2 ^ 16) (space (mem_ring (d, w))) \<and> mem_ready K cls (d', w) \<and>
    contents (mem_ring (d', w)) = contents (mem_ring (d, w)) @ take n data"
proof -
  have u: "unat (ucast len :: u16) = unat len mod 2 ^ 16"
    by (simp add: unsigned_ucast_eq take_bit_eq_mod)
  define n where "n = min (unat len mod 2 ^ 16) (space (mem_ring (d, w)))"
  have "unat len mod 2 ^ 16 \<le> unat len" by (rule mod_less_eq_dividend)
  then have "n \<le> length data" using assms(2) unfolding n_def by linarith
  then obtain d' where "write_device cls d (Some data) len w = Inr (int n, d', w)"
    "mem_ready K cls (d', w)" "contents (mem_ring (d', w)) = contents (mem_ring (d, w)) @ take n data"
    using mem_write_device [OF assms(1) refl, of n len data] unfolding u n_def space_def by blast
  then show ?thesis using n_def by blast
qed

definition sample_memory :: "ldal_memory_device ldal_device" where
  "sample_memory =
     fresh_device ''mem0'' ''/dev/null'' \<lparr>mem_status = 0, mem_data = Obj (rb_fresh 4096)\<rparr>"

lemma sample_memory_ready:
  "mem_ready sample_kernel (single_class (memory_device_ops sample_kernel)) (sample_memory, w)"
  "mem_ring (sample_memory, w) = rb_fresh 4096"
  by (simp_all add: sample_memory_def mem_ready_def mem_ring_def rb_fresh_ok)

lemma memory_write_bytes_witness:
  "\<exists>d'. write_device (single_class (memory_device_ops sample_kernel)) sample_memory (Some [1, 2]) 2 0 =
      Inr (2, d', 0) \<and> contents (mem_ring (d', 0 :: nat)) = [1, 2]"
  using memory_write_bytes [OF sample_memory_ready(1), of 2 "[1, 2]" 0]
  by (auto simp: sample_memory_ready space_def rb_fresh_ok)

text \<open>
  Property C35. An open memory device is a byte queue: over any history of \<open>write_device\<close> and
  \<open>read_device\<close> calls with lengths below 65536 no call faults or keeps the mutex, and the bytes
  delivered, followed by those still queued, are those queued at first followed by those accepted.
\<close>
theorem memory_stream:
  assumes "mem_ready K cls q" "\<forall>c \<in> set cs. call_fits c"
  shows "\<exists>ins outs q'. run_calls (mem_put cls) (mem_get cls) q cs = Inr (ins, outs, q') \<and>
    mem_ready K cls q' \<and> contents (mem_ring q) @ ins = outs @ contents (mem_ring q')"
  using memq.run_stream [OF assms] by blast

lemma memory_stream_witness:
  "\<exists>ins outs q'. run_calls (mem_put (single_class (memory_device_ops sample_kernel)))
      (mem_get (single_class (memory_device_ops sample_kernel))) (sample_memory, 0)
      [Qput [1, 2, 3], Qget 2] = Inr (ins, outs, q') \<and> ins = outs @ contents (mem_ring q')"
  using memory_stream [OF sample_memory_ready(1), of "[Qput [1, 2, 3], Qget 2]" 0]
  by (auto simp: sample_memory_ready rb_fresh_ok)

text \<open>
  The last \<open>stop_device\<close> frees the ring buffer but keeps the pointer to it, so that
  reading or writing the stopped device, which nothing prevents, uses freed memory.
\<close>
theorem memory_use_after_stop:
  fixes K :: "'w kernel"
  assumes "mem_ready K cls (d, w)" "is_init d" "ref d = 1"
  shows "\<exists>d'. stop_device cls d w = Inr (LDAL_EOK, d', w) \<and> ref d' = 0 \<and>
    read_device cls d' buf len w = Inl Use_After_Free \<and>
    write_device cls d' buf len w = Inl Use_After_Free"
proof -
  obtain m where m: "user_data d = Some m" "mem_data m = Obj (mem_ring (d, w))"
    and h: "has_ops cls d (memory_device_ops K)" "\<not> mutex d"
    using assms(1) by (auto simp: mem_ready_def)
  define d' where "d' = d\<lparr>ref := 0, user_data := Some (m\<lparr>mem_data := Freed\<rparr>)\<rparr>"
  have "has_ops cls d' (memory_device_ops K)" "has_ops cls (d\<lparr>ref := 0\<rparr>) (memory_device_ops K)"
    "has_ops cls (d'\<lparr>mutex := True\<rparr>) (memory_device_ops K)"
    using h(1) has_ops_class [of d' d cls "memory_device_ops K"]
      has_ops_class [of "d\<lparr>ref := 0\<rparr>" d cls "memory_device_ops K"]
      has_ops_class [of "d'\<lparr>mutex := True\<rparr>" d cls "memory_device_ops K"] by (simp_all add: d'_def)
  moreover from this have "stop_device cls d w = Inr (LDAL_EOK, d', w)"
    using assms(2,3) m h(1) by (simp add: stop_device_def has_ops_fetch memory_device_ops_def
        memory_close_def dg_ringbuffer_destroy_def d'_def)
  ultimately show ?thesis
    using h by (auto simp: read_device_def write_device_def mutex_lock_def has_ops_fetch
        memory_device_ops_def memory_read_def memory_write_def d'_def)
qed

lemma memory_use_after_stop_witness:
  "\<exists>d'. stop_device (single_class (memory_device_ops sample_kernel)) (sample_memory\<lparr>ref := 1\<rparr>) 0 =
      Inr (LDAL_EOK, d', 0) \<and> read_device (single_class (memory_device_ops sample_kernel)) d' None 1 0 =
      Inl Use_After_Free"
proof -
  have "mem_ready sample_kernel (single_class (memory_device_ops sample_kernel)) (sample_memory\<lparr>ref := 1\<rparr>, 0)"
    using sample_memory_ready(1) [of 0]
    by (auto simp: mem_ready_def mem_ring_def has_ops_class [of "sample_memory\<lparr>ref := 1\<rparr>" sample_memory])
  from memory_use_after_stop [OF this, of None 1] show ?thesis
    by (auto simp: sample_memory_def)
qed

end
