(* ===== verification/Rtc_Driver.thy ===== *)
theory Rtc_Driver
  imports Ldal_Device
begin

text \<open>
  The real-time clock class, \<open>src/class/ldal_rtc.c\<close>: the kernel counts months from 0 and years from 1900,
  the caller of the library from 1 and from year 0. The caller's time is a structure of seven
  \<open>int\<close>s passed as bytes.
\<close>

section \<open>Structures as bytes\<close>

record ldal_rtc_time =
  rt_sec :: int
  rt_min :: int
  rt_hour :: int
  rt_mday :: int
  rt_mon :: int
  rt_year :: int
  rt_wday :: int

definition sizeof_rtc_time :: nat where "sizeof_rtc_time = 28"

definition rtc_bytes :: "ldal_rtc_time \<Rightarrow> byte list" where
  "rtc_bytes rt =
     int_bytes (rt_sec rt) @ int_bytes (rt_min rt) @ int_bytes (rt_hour rt) @ int_bytes (rt_mday rt) @
     int_bytes (rt_mon rt) @ int_bytes (rt_year rt) @ int_bytes (rt_wday rt)"

definition bytes_rtc :: "byte list \<Rightarrow> ldal_rtc_time" where
  "bytes_rtc bs =
     \<lparr>rt_sec = bytes_int (take 4 bs), rt_min = bytes_int (take 4 (drop 4 bs)),
      rt_hour = bytes_int (take 4 (drop 8 bs)), rt_mday = bytes_int (take 4 (drop 12 bs)),
      rt_mon = bytes_int (take 4 (drop 16 bs)), rt_year = bytes_int (take 4 (drop 20 bs)),
      rt_wday = bytes_int (take 4 (drop 24 bs))\<rparr>"

section \<open>The driver\<close>

definition rtc_open :: "'w kernel \<Rightarrow> ('p, 'w) dev_call" where
  "rtc_open K device w =
     bind_res (read_cstr (filename device)) (\<lambda>path.
     let (h, w) = k_open K path O_RDWR 0 w;
         device = device\<lparr>fd := h\<rparr>
     in if fd device < 0 then Inr (- LDAL_ERROR, device, w) else Inr (LDAL_EOK, device, w))"

definition rtc_close :: "'w kernel \<Rightarrow> ('p, 'w) dev_call" where
  "rtc_close K device w = (let (_, w) = k_close K (fd device) w in Inr (LDAL_EOK, device, w))"

definition rtc_read :: "'w kernel \<Rightarrow> ('p, 'w) read_call" where
  "rtc_read K device buf len w =
     assert_ptr buf (\<lambda>b.
     let (ret, t, w) = k_ioctl_rtc K (fd device) RTC_RD_TIME (k_stack_rtc K w) w in
     if ret < 0 then Inr (- LDAL_ERROR, buf, device, w)
     else
       bind_res (c_add (tm_mon t) 1) (\<lambda>mon.
       bind_res (c_add (tm_year t) 1900) (\<lambda>year.
       let rt = \<lparr>rt_sec = tm_sec t, rt_min = tm_min t, rt_hour = tm_hour t, rt_mday = tm_mday t,
                 rt_mon = mon, rt_year = year, rt_wday = tm_wday t\<rparr>;
           sz = (if unat len < sizeof_rtc_time then unat len else sizeof_rtc_time)
       in bind_res (memcpy b 0 (rtc_bytes rt) 0 (int sz)) (\<lambda>b.
          Inr (LDAL_EOK, Some b, device, w)))))"

definition rtc_write :: "'w kernel \<Rightarrow> ('p, 'w) write_call" where
  "rtc_write K device buf len w =
     assert_ptr buf (\<lambda>b.
     if unat len < sizeof_rtc_time then Inr (- LDAL_ERROR, device, w)
     else if length b < sizeof_rtc_time then Inl Out_Of_Bounds
     else
       let rt = bytes_rtc b in
       bind_res (c_add (rt_mon rt) (- 1)) (\<lambda>mon.
       bind_res (c_add (rt_year rt) (- 1900)) (\<lambda>year.
       let t = (k_stack_rtc K w)
             \<lparr>tm_sec := rt_sec rt, tm_min := rt_min rt, tm_hour := rt_hour rt, tm_mday := rt_mday rt,
              tm_mon := mon, tm_year := year, tm_wday := rt_wday rt\<rparr>;
           (ret, _, w) = k_ioctl_rtc K (fd device) RTC_SET_TIME t w
       in if ret < 0 then Inr (- LDAL_ERROR, device, w) else Inr (LDAL_EOK, device, w))))"

definition rtc_device_ops :: "'w kernel \<Rightarrow> ('p, 'w) device_ops" where
  "rtc_device_ops K = no_ops
     \<lparr>op_open := Some (rtc_open K), op_close := Some (rtc_close K),
      op_read := Some (rtc_read K), op_write := Some (rtc_write K)\<rparr>"

interpretation rtc_drv: driver "rtc_device_ops K" for K
  by unfold_locales
    (auto simp: rtc_device_ops_def no_ops_def rtc_open_def rtc_close_def rtc_read_def rtc_write_def
      assert_ptr_Inr dev_frame Let_def case_prod_unfold split: if_splits)

section \<open>Conversions\<close>

lemma rtc_bytes_bytes:
  assumes "sizeof_rtc_time \<le> length bs"
  shows "rtc_bytes (bytes_rtc bs) = take sizeof_rtc_time bs"
proof -
  have "take 28 bs = take 4 bs @ take 4 (drop 4 bs) @ take 4 (drop 8 bs) @ take 4 (drop 12 bs) @
      take 4 (drop 16 bs) @ take 4 (drop 20 bs) @ take 4 (drop 24 bs)"
    using take_add [of 4 24 bs] take_add [of 4 20 "drop 4 bs"] take_add [of 4 16 "drop 8 bs"]
      take_add [of 4 12 "drop 12 bs"] take_add [of 4 8 "drop 16 bs"] take_add [of 4 4 "drop 20 bs"]
    by simp
  then show ?thesis
    using assms by (simp add: rtc_bytes_def bytes_rtc_def int_bytes_bytes sizeof_rtc_time_def)
qed

section \<open>Properties\<close>

lemma length_rtc_bytes: "length (rtc_bytes rt) = sizeof_rtc_time"
  by (simp add: rtc_bytes_def sizeof_rtc_time_def)

lemma rtc_dispatch:
  assumes "has_ops cls d (rtc_device_ops K)" "\<not> mutex d"
  shows "read_device cls d buf len w =
      bind_res (rtc_read K (d\<lparr>mutex := True\<rparr>) buf len w) (\<lambda>(ret, buf, d, w).
      Inr (ret, buf, mutex_unlock d, w))"
    "write_device cls d buf len w =
      bind_res (rtc_write K (d\<lparr>mutex := True\<rparr>) buf len w) (\<lambda>(ret, d, w).
      Inr (ret, mutex_unlock d, w))"
  using assms has_ops_class [of "d\<lparr>mutex := True\<rparr>" d cls "rtc_device_ops K"]
  by (simp_all add: read_device_def write_device_def mutex_lock_def has_ops_fetch rtc_device_ops_def)

text \<open>
  Reading the clock gives the caller the kernel's time with the month counted from 1 and
  the full year, as many bytes of the structure as the caller asked for, and leaves the rest of the
  caller's buffer alone.
\<close>
theorem rtc_read_time:
  fixes K :: "'w kernel"
  assumes "has_ops cls d (rtc_device_ops K)" "\<not> mutex d" "unat len \<le> length buf"
    "k_ioctl_rtc K (fd d) RTC_RD_TIME (k_stack_rtc K w) w = (0, t, w')"
    "0 \<le> tm_mon t" "tm_mon t < 12" "0 \<le> tm_year t" "tm_year t < 2 ^ 16"
  shows "read_device cls d (Some buf) len w =
    Inr (LDAL_EOK,
         Some (take (unat len) (rtc_bytes
             \<lparr>rt_sec = tm_sec t, rt_min = tm_min t, rt_hour = tm_hour t, rt_mday = tm_mday t,
              rt_mon = tm_mon t + 1, rt_year = tm_year t + 1900, rt_wday = tm_wday t\<rparr>) @
           drop (min (unat len) 28) buf), d, w')"
proof -
  define rt where "rt = \<lparr>rt_sec = tm_sec t, rt_min = tm_min t, rt_hour = tm_hour t, rt_mday = tm_mday t,
              rt_mon = tm_mon t + 1, rt_year = tm_year t + 1900, rt_wday = tm_wday t\<rparr>"
  define n where "n = min (unat len) 28"
  have n: "(if unat len < sizeof_rtc_time then unat len else sizeof_rtc_time) = n"
    by (simp add: n_def sizeof_rtc_time_def)
  have "memcpy buf 0 (rtc_bytes rt) 0 (int n) =
      Inr (take (unat len) (rtc_bytes rt) @ drop n buf)"
    using memcpy_nat [of 0 n buf 0 "rtc_bytes rt"] assms(3) length_rtc_bytes [of rt]
    by (simp add: n_def sizeof_rtc_time_def min_def split: if_splits)
  moreover have "in_int (tm_mon t + 1)" "in_int (tm_year t + 1900)"
    using assms(5-8) by (simp_all add: in_int_def)
  ultimately show ?thesis
    using assms(2,4) unfolding rtc_dispatch [OF assms(1,2)] rtc_read_def Let_def rt_def [symmetric]
    by (simp add: n rt_def [symmetric] n_def [symmetric] mutex_unlock_def device_mutex_same)
qed

lemma rtc_read_time_witness:
  "read_device (single_class (rtc_device_ops (sample_kernel\<lparr>k_ioctl_rtc := \<lambda>_ _ t w.
        (0, t\<lparr>tm_sec := 5, tm_mon := 11, tm_year := 124\<rparr>, w)\<rparr>)))
     (fresh_device ''rtc'' ''/dev/rtc'' ()) (Some [9, 9, 9, 9, 9]) 4 0 =
   Inr (0, Some [5, 0, 0, 0, 9], fresh_device ''rtc'' ''/dev/rtc'' (), 0)"
  using rtc_read_time [of "single_class (rtc_device_ops (sample_kernel\<lparr>k_ioctl_rtc := \<lambda>_ _ t w.
        (0, t\<lparr>tm_sec := 5, tm_mon := 11, tm_year := 124\<rparr>, w)\<rparr>))" "fresh_device ''rtc'' ''/dev/rtc'' ()"
      "sample_kernel\<lparr>k_ioctl_rtc := \<lambda>_ _ t w. (0, t\<lparr>tm_sec := 5, tm_mon := 11, tm_year := 124\<rparr>, w)\<rparr>"
      4 "[9, 9, 9, 9, 9]" 0 _ 0]
  by (simp add: sample_kernel_def rtc_bytes_def int_bytes_def)

text \<open>
  Setting the clock from a buffer and reading it back gives the same bytes, for every
  content of the buffer on which the conversion does not overflow an \<open>int\<close>, provided the clock reports
  the calendar fields it was set to.
\<close>
theorem rtc_roundtrip:
  fixes K :: "'w kernel"
  assumes d: "has_ops cls d (rtc_device_ops K)" "\<not> mutex d"
    and bs: "length bs = sizeof_rtc_time" "length buf = sizeof_rtc_time" "unat len = sizeof_rtc_time"
    and rt: "rt = bytes_rtc bs" "in_int (rt_mon rt - 1)" "in_int (rt_year rt - 1900)"
      "in_int (rt_mon rt)" "in_int (rt_year rt)"
    and set: "\<forall>t. k_ioctl_rtc K (fd d) RTC_SET_TIME t w = (0, t, w1 t)"
    and get: "\<forall>t u. k_ioctl_rtc K (fd d) RTC_RD_TIME u (w1 t) =
      (0, u\<lparr>tm_sec := tm_sec t, tm_min := tm_min t, tm_hour := tm_hour t, tm_mday := tm_mday t,
           tm_mon := tm_mon t, tm_year := tm_year t, tm_wday := tm_wday t\<rparr>, w1 t)"
  shows "bind_res (write_device cls d (Some bs) len w) (\<lambda>(r, d, w).
      bind_res (read_device cls d (Some buf) len w) (\<lambda>(r', buf, d, w). Inr (r, r', buf))) =
    Inr (LDAL_EOK, LDAL_EOK, Some bs)"
proof -
  define t where "t = (k_stack_rtc K w)
     \<lparr>tm_sec := rt_sec rt, tm_min := rt_min rt, tm_hour := rt_hour rt, tm_mday := rt_mday rt,
      tm_mon := rt_mon rt - 1, tm_year := rt_year rt - 1900, tm_wday := rt_wday rt\<rparr>"
  have 1: "write_device cls d (Some bs) len w = Inr (LDAL_EOK, d, w1 t)"
    using d(2) bs rt set unfolding rtc_dispatch [OF d] rtc_write_def
    by (simp add: t_def mutex_unlock_def device_mutex_same flip: rt(1))
  have eta: "\<lparr>rt_sec = rt_sec r, rt_min = rt_min r, rt_hour = rt_hour r, rt_mday = rt_mday r,
      rt_mon = rt_mon r, rt_year = rt_year r, rt_wday = rt_wday r\<rparr> = r" for r :: ldal_rtc_time
    by (cases r) simp
  have e: "rtc_bytes \<lparr>rt_sec = rt_sec rt, rt_min = rt_min rt, rt_hour = rt_hour rt,
      rt_mday = rt_mday rt, rt_mon = rt_mon rt, rt_year = rt_year rt, rt_wday = rt_wday rt\<rparr> = bs"
    using rtc_bytes_bytes [of bs] bs(1) rt(1) by (simp add: eta)
  have "memcpy buf 0 bs 0 (int sizeof_rtc_time) = Inr bs"
    using memcpy_nat [of 0 sizeof_rtc_time buf 0 bs] bs by simp
  then have 2: "read_device cls d (Some buf) len (w1 t) = Inr (LDAL_EOK, Some bs, d, w1 t)"
    using d(2) bs rt(4,5) get e unfolding rtc_dispatch [OF d] rtc_read_def
    by (simp add: t_def mutex_unlock_def device_mutex_same)
  show ?thesis by (simp add: 1 2)
qed

definition clock_kernel :: "rtc_time kernel" where
  "clock_kernel = quiet_kernel
     \<lparr>k_ioctl_rtc := (\<lambda>_ req t w. if req = RTC_SET_TIME then (0, t, t)
        else (0, t\<lparr>tm_sec := tm_sec w, tm_min := tm_min w, tm_hour := tm_hour w, tm_mday := tm_mday w,
           tm_mon := tm_mon w, tm_year := tm_year w, tm_wday := tm_wday w\<rparr>, w)),
      k_stack_rtc := (\<lambda>w. w)\<rparr>"

lemma rtc_roundtrip_witness:
  "bind_res (write_device (single_class (rtc_device_ops clock_kernel))
       (fresh_device ''rtc'' ''/dev/rtc'' ()) (Some (replicate 28 1)) 28 (k_stack_rtc sample_kernel 0)) (\<lambda>(r, d, w).
     bind_res (read_device (single_class (rtc_device_ops clock_kernel)) d (Some (replicate 28 0)) 28 w)
       (\<lambda>(r', buf, d, w). Inr (r, r', buf))) =
   Inr (0, 0, Some (replicate 28 1))"
proof -
  have v: "bytes_rtc (replicate 28 1) =
      \<lparr>rt_sec = 16843009, rt_min = 16843009, rt_hour = 16843009, rt_mday = 16843009,
       rt_mon = 16843009, rt_year = 16843009, rt_wday = 16843009\<rparr>"
    by (simp add: bytes_rtc_def bytes_int_def in_int_def)
  show ?thesis
    using rtc_roundtrip [of "single_class (rtc_device_ops clock_kernel)"
        "fresh_device ''rtc'' ''/dev/rtc'' ()" clock_kernel "replicate 28 1" "replicate 28 0" 28
        "bytes_rtc (replicate 28 1)" "k_stack_rtc sample_kernel 0" "\<lambda>t. t"]
    unfolding v
    by (simp add: clock_kernel_def sizeof_rtc_time_def in_int_def RTC_RD_TIME_def RTC_SET_TIME_def
        iow_def ior_def)
qed

end
