(* ===== verification/Endpoint.thy ===== *)
theory Endpoint
  imports Ldal_Device
begin

text \<open>
  What the TCP and the UDP class share: socket states and commands, and the peer's address kept in the
  device's file name as \<open>"address:port"\<close>. Each class writes it there when it connects and reads it back
  when it is opened; the locale \<open>endpoint_store\<close> is that contract.
\<close>

section \<open>Vocabulary of the socket classes\<close>

datatype socket_state =
    INIT_STATE | ESTABLISHED_STATE | UNCONNECTED_STATE | HOST_LOOKUP_STATE | CONNECTING_STATE
  | CONNECTED_STATE | BOUND_STATE | LISTENING_STATE | CLOSING_STATE | CLOSED_STATE

fun state_code :: "socket_state \<Rightarrow> int" where
  "state_code INIT_STATE = 0"
| "state_code ESTABLISHED_STATE = 1"
| "state_code UNCONNECTED_STATE = 2"
| "state_code HOST_LOOKUP_STATE = 3"
| "state_code CONNECTING_STATE = 4"
| "state_code CONNECTED_STATE = 5"
| "state_code BOUND_STATE = 6"
| "state_code LISTENING_STATE = 7"
| "state_code CLOSING_STATE = 8"
| "state_code CLOSED_STATE = 9"

definition SOCKET_CMD_BASE :: int where "SOCKET_CMD_BASE = 0x1000"
definition SOCKET_SET_REUSEADDR :: int where "SOCKET_SET_REUSEADDR = SOCKET_CMD_BASE + 1"
definition SOCKET_SET_NETDEV :: int where "SOCKET_SET_NETDEV = SOCKET_CMD_BASE + 2"
definition SOCKET_SET_KEEPALIVE :: int where "SOCKET_SET_KEEPALIVE = SOCKET_CMD_BASE + 3"
definition SOCKET_SET_RECVTIMEO :: int where "SOCKET_SET_RECVTIMEO = SOCKET_CMD_BASE + 4"
definition SOCKET_SET_SENDTIMEO :: int where "SOCKET_SET_SENDTIMEO = SOCKET_CMD_BASE + 5"
definition SOCKET_SET_ECHO_FLAG :: int where "SOCKET_SET_ECHO_FLAG = SOCKET_CMD_BASE + 6"
definition SOCKET_GET_RECVADDR :: int where "SOCKET_GET_RECVADDR = SOCKET_CMD_BASE + 7"
definition SOCKET_SET_NONBLOCK :: int where "SOCKET_SET_NONBLOCK = SOCKET_CMD_BASE + 8"

lemmas socket_cmds =
  SOCKET_CMD_BASE_def SOCKET_SET_REUSEADDR_def SOCKET_SET_NETDEV_def SOCKET_SET_KEEPALIVE_def
  SOCKET_SET_RECVTIMEO_def SOCKET_SET_SENDTIMEO_def SOCKET_SET_ECHO_FLAG_def
  SOCKET_GET_RECVADDR_def SOCKET_SET_NONBLOCK_def

abbreviation IFNAMSIZ :: nat where "IFNAMSIZ \<equiv> 16"

text \<open>A pointer argument to \<open>inet_addr\<close>; \<open>arg\<close> as an interface name, and as a number.\<close>

definition inet_addr :: "'w kernel \<Rightarrow> string option \<Rightarrow> u32 result" where
  "inet_addr K ip = (case ip of None \<Rightarrow> Inl Null_Pointer | Some s \<Rightarrow> Inr (k_inet_addr K s))"

definition arg_string :: "ctrl_arg \<Rightarrow> string option result" where
  "arg_string a = (case a of Arg_Null \<Rightarrow> Inr None | Arg_Str s \<Rightarrow> Inr (Some s) | _ \<Rightarrow> Inl Bad_Cast)"

definition arg_value :: "ctrl_arg \<Rightarrow> 64 word result" where
  "arg_value a = (case a of Arg_Null \<Rightarrow> Inr 0 | Arg_Value v \<Rightarrow> Inr v | _ \<Rightarrow> Inl Bad_Cast)"

text \<open>\<open>strncpy\<close> of the name and its terminator into \<open>ifr_name\<close>, an array of \<open>IFNAMSIZ\<close>.\<close>

definition ifr_name :: "string option \<Rightarrow> string result" where
  "ifr_name p =
     (case p of
        None \<Rightarrow> Inl Null_Pointer
      | Some s \<Rightarrow> if IFNAMSIZ < length s + 1 then Inl Out_Of_Bounds else Inr s)"

lemma inet_addr_Some [simp]: "inet_addr K (Some s) = Inr (k_inet_addr K s)"
  by (simp add: inet_addr_def)

section \<open>Addresses as text\<close>

text \<open>\<open>"%s:%u"\<close>, and the two \<open>strtok\<close> calls that take it apart.\<close>

definition endpoint :: "string \<Rightarrow> u16 \<Rightarrow> string" where
  "endpoint ip port = ip @ CHR '':'' # decimal (unat port)"

definition split_endpoint :: "string \<Rightarrow> (string \<times> string) option" where
  "split_endpoint s =
     (let (ip, r) = strtok (CHR '':'') s;
          (port, _) = strtok (CHR '':'') r
      in case (ip, port) of (Some ip, Some port) \<Rightarrow> Some (ip, port) | _ \<Rightarrow> None)"

text \<open>An address that the text form can hold.\<close>

definition good_ip :: "string \<Rightarrow> bool" where
  "good_ip ip \<longleftrightarrow> ip \<noteq> [] \<and> c_string ip \<and> CHR '':'' \<notin> set ip \<and> length ip \<le> 57"

lemma split_endpoint_endpoint:
  assumes "good_ip ip"
  shows "split_endpoint (endpoint ip port) = Some (ip, decimal (unat port))"
  using assms strtok_token(1) [of ip "CHR '':''" "decimal (unat port)"]
    strtok_token(2) [of "decimal (unat port)" "CHR '':''"] decimal_no_colon [of "unat port"]
  by (simp add: split_endpoint_def endpoint_def good_ip_def)

lemma decimal_short: "n < 10 ^ k \<Longrightarrow> 0 < k \<Longrightarrow> length (decimal n) \<le> k"
proof (induction k arbitrary: n)
  case 0
  then show ?case by simp
next
  case (Suc k)
  show ?case
  proof (cases "n < 10")
    case True
    then show ?thesis by (simp add: decimal.simps [of n])
  next
    case False
    then have "0 < k" using Suc.prems(1) by (cases k) auto
    moreover have "n div 10 < 10 ^ k" using Suc.prems(1) by (simp add: less_mult_imp_div_less mult.commute)
    ultimately have "length (decimal (n div 10)) \<le> k" using Suc.IH by blast
    with False show ?thesis by (simp add: decimal.simps [of n])
  qed
qed

lemma endpoint_text:
  assumes "good_ip ip"
  shows "c_string (endpoint ip port)" "length (endpoint ip port) < LDAL_FILENAME_MAX"
proof -
  have "unat port < 2 ^ LENGTH(16)" by (rule unsigned_less)
  then have "length (decimal (unat port)) \<le> 5" by (intro decimal_short) simp_all
  then show "length (endpoint ip port) < LDAL_FILENAME_MAX"
    using assms by (simp add: endpoint_def good_ip_def)
  show "c_string (endpoint ip port)"
    using assms by (simp add: endpoint_def good_ip_def NUL_def)
qed

section \<open>The address contract\<close>

locale endpoint_store =
  fixes record_addr :: "string \<Rightarrow> u16 \<Rightarrow> 'p ldal_device \<Rightarrow> 'p ldal_device"
    and set_addr :: "'p ldal_device \<Rightarrow> string option \<Rightarrow> u16 \<Rightarrow> 'p ldal_device result"
    and import_addr :: "'p ldal_device \<Rightarrow> (int \<times> 'p ldal_device) result"
  assumes record_filename: "filename (record_addr ip port d) = filename d"
    and record_again: "record_addr ip port (d\<lparr>filename := s\<rparr>) = (record_addr ip port d)\<lparr>filename := s\<rparr>"
    and record_twice: "record_addr ip port (record_addr ip port d) = record_addr ip port d"
    and record_data: "user_data (record_addr ip port d) = None \<longleftrightarrow> user_data d = None"
    and set_law: "user_data d \<noteq> None \<Longrightarrow> set_addr d (Some ip) port =
      bind_res (copy_string (filename d) (endpoint ip port)) (\<lambda>s.
      Inr ((record_addr ip port d)\<lparr>filename := s\<rparr>))"
    and import_law: "import_addr d =
      bind_res (read_cstr (filename d)) (\<lambda>s.
      case split_endpoint s of
        None \<Rightarrow> Inr (- LDAL_EINVAL, d)
      | Some (ip, port) \<Rightarrow>
          bind_res (atoi port) (\<lambda>n.
          bind_res (set_addr d (Some ip) (word_of_int n)) (\<lambda>d. Inr (LDAL_EOK, d))))"
begin

lemma set_result:
  assumes "user_data d \<noteq> None" "good_ip ip" "length (filename d) = LDAL_FILENAME_MAX"
  obtains d' where "set_addr d (Some ip) port = Inr d'"
    "d' = (record_addr ip port d)
       \<lparr>filename := endpoint ip port @ NUL # drop (Suc (length (endpoint ip port))) (filename d)\<rparr>"
  using set_law [OF assms(1), of ip port] endpoint_text [OF assms(2), of port] assms(3)
  by (simp add: copy_string_ok)

text \<open>An address is recorded by any device that has it in its file name, which stays the same.\<close>

lemma import_named:
  assumes "user_data d \<noteq> None" "good_ip ip" "filename d = endpoint ip port @ NUL # junk"
  shows "import_addr d = Inr (LDAL_EOK, record_addr ip port d)"
proof -
  define s where "s = endpoint ip port"
  note s = endpoint_text [OF assms(2), of port, folded s_def]
  have "unat port < 2 ^ LENGTH(16)" by (rule unsigned_less)
  then have "atoi (decimal (unat port)) = Inr (int (unat port))" by (intro atoi_decimal) simp
  moreover have "word_of_int (int (unat port)) = port" by simp
  moreover have "copy_string (filename d) s = Inr (filename d)"
    using copy_string_ok [of s "filename d"] assms(3) by (simp add: s_def)
  moreover have "(record_addr ip port d)\<lparr>filename := filename d\<rparr> = record_addr ip port d"
    using record_filename [of ip port d] by (cases "record_addr ip port d") simp
  ultimately show ?thesis
    using import_law [of d] split_endpoint_endpoint [OF assms(2), of port] s assms(1,3)
      set_law [of d ip port]
    by (simp flip: s_def)
qed

text \<open>What was set is found again, and finding it changes nothing.\<close>

lemma import_set:
  assumes d: "user_data d \<noteq> None" "good_ip ip" "length (filename d) = LDAL_FILENAME_MAX"
    and set: "set_addr d (Some ip) port = Inr d'"
  shows "import_addr d' = Inr (LDAL_EOK, d')"
proof -
  define s where "s = endpoint ip port"
  have d': "d' = (record_addr ip port d)\<lparr>filename := s @ NUL # drop (Suc (length s)) (filename d)\<rparr>"
    using set_result [OF d, of port] set by (simp add: s_def)
  then have "filename d' = endpoint ip port @ NUL # drop (Suc (length s)) (filename d)" "user_data d' \<noteq> None"
    using record_data [of ip port d] d(1) by (simp_all add: s_def)
  moreover have "record_addr ip port d' = d'" by (simp add: d' record_again record_twice)
  ultimately show ?thesis using import_named [of d' ip port] d(2) by simp
qed

end

end
