(* ===== verification/Tcp_Driver.thy ===== *)
theory Tcp_Driver
  imports Endpoint
begin

text \<open>
  The TCP class, \<open>src/class/ldal_tcp.c\<close>: the connection's state machine, the socket options and the
  peer's address. The configuration is the one of \<open>inc/ldal_tcp.h\<close>: \<open>CONFIG_SOCKET_SET_REUSE\<close> and
  \<open>CONFIG_SOCKET_SET_TIMEOUT\<close> are defined, \<open>CONFIG_SOCKET_SET_NONBLOCK\<close> is not.
\<close>

section \<open>The link\<close>

text \<open>\<open>struct ldal_tcp_device\<close> after its device; \<open>local\<close> and \<open>signal_strength\<close> are never used.\<close>

record ldal_tcp_device =
  status :: socket_state
  server :: sockaddr_in
  recv_timeout :: u32
  send_timeout :: u32
  keepalive :: int
  keepidle :: int
  keepinterval :: int
  keepcount :: int

abbreviation SOCKET_DEFAULT_TIMEOUT :: u32 where "SOCKET_DEFAULT_TIMEOUT \<equiv> 3000"
abbreviation CONFIG_TCP_KEEPINTVL :: int where "CONFIG_TCP_KEEPINTVL \<equiv> 20"
abbreviation CONFIG_TCP_KEEPIDLE :: int where "CONFIG_TCP_KEEPIDLE \<equiv> 120"
abbreviation CONFIG_TCP_KEEPCNT :: int where "CONFIG_TCP_KEEPCNT \<equiv> 2"

type_synonym tcp_dev = "ldal_tcp_device ldal_device"

text \<open>Storing through \<open>link\<close>.\<close>

definition set_link :: "tcp_dev \<Rightarrow> ldal_tcp_device \<Rightarrow> tcp_dev" where
  "set_link dev link = dev\<lparr>user_data := Some link\<rparr>"

section \<open>Socket options\<close>

definition make_socket_non_blocking :: "'w kernel \<Rightarrow> int \<Rightarrow> 'w \<Rightarrow> int \<times> 'w" where
  "make_socket_non_blocking K sfd w =
     (let (flags, w) = k_fcntl K sfd F_GETFL 0 w in
      if flags = -1 then (- LDAL_ERROR, w)
      else
        let flags = flags OR int O_NONBLOCK;
            (s, w) = k_fcntl K sfd F_SETFL flags w
        in if s = -1 then (- LDAL_ERROR, w) else (LDAL_EOK, w))"

definition tcp_set_reuse_addr :: "'w kernel \<Rightarrow> tcp_dev \<Rightarrow> 'w \<Rightarrow> int \<times> 'w" where
  "tcp_set_reuse_addr K dev w = k_setsockopt K (fd dev) SOL_SOCKET SO_REUSEADDR (Opt_Int 1) w"

definition disable_keepalive ::
    "'w kernel \<Rightarrow> tcp_dev \<Rightarrow> ldal_tcp_device \<Rightarrow> 'w \<Rightarrow> int \<times> tcp_dev \<times> 'w" where
  "disable_keepalive K dev link w =
     (let (_, w) = k_setsockopt K (fd dev) SOL_SOCKET SO_KEEPALIVE (Opt_Int 0) w
      in (- LDAL_ERROR, set_link dev (link\<lparr>keepalive := 0\<rparr>), w))"

definition set_keepalive :: "'w kernel \<Rightarrow> tcp_dev \<Rightarrow> int \<Rightarrow> 'w \<Rightarrow> (int \<times> tcp_dev \<times> 'w) result" where
  "set_keepalive K dev enable w =
     (let (ret, w) = k_setsockopt K (fd dev) SOL_SOCKET SO_KEEPALIVE (Opt_Int enable) w in
      if ret < 0 then Inr (- LDAL_ERROR, dev, w)
      else
        bind_res (parent dev) (\<lambda>link.
        let link = link\<lparr>keepalive := enable\<rparr>; dev = set_link dev link in
        if enable = 0 then Inr (LDAL_EOK, dev, w)
        else
          let (r1, w) = k_setsockopt K (fd dev) SOL_TCP TCP_KEEPINTVL (Opt_Int CONFIG_TCP_KEEPINTVL) w in
          if r1 < 0 then Inr (disable_keepalive K dev link w)
          else
            let (r2, w) = k_setsockopt K (fd dev) SOL_TCP TCP_KEEPIDLE (Opt_Int CONFIG_TCP_KEEPIDLE) w in
            if r2 < 0 then Inr (disable_keepalive K dev link w)
            else
              let (r3, w) = k_setsockopt K (fd dev) SOL_TCP TCP_KEEPCNT (Opt_Int CONFIG_TCP_KEEPCNT) w in
              if r3 < 0 then Inr (disable_keepalive K dev link w)
              else
                Inr (LDAL_EOK,
                     set_link dev (link\<lparr>keepcount := CONFIG_TCP_KEEPCNT, keepidle := CONFIG_TCP_KEEPIDLE,
                                        keepinterval := CONFIG_TCP_KEEPINTVL\<rparr>), w)))"

definition set_recv_timeout :: "'w kernel \<Rightarrow> tcp_dev \<Rightarrow> u32 \<Rightarrow> 'w \<Rightarrow> int \<times> 'w" where
  "set_recv_timeout K dev timeout w =
     k_setsockopt K (fd dev) SOL_SOCKET SO_RCVTIMEO
       (Opt_Timeval (uint (timeout div 1000)) (uint ((timeout mod 1000) * 1000))) w"

definition set_send_timeout :: "'w kernel \<Rightarrow> tcp_dev \<Rightarrow> u32 \<Rightarrow> 'w \<Rightarrow> int \<times> 'w" where
  "set_send_timeout K dev timeout w =
     k_setsockopt K (fd dev) SOL_SOCKET SO_SNDTIMEO
       (Opt_Timeval (uint (timeout div 1000)) (uint ((timeout mod 1000) * 1000))) w"

definition tcp_bind_to_device ::
    "'w kernel \<Rightarrow> tcp_dev \<Rightarrow> string option \<Rightarrow> 'w \<Rightarrow> (int \<times> 'w) result" where
  "tcp_bind_to_device K dev netdev w =
     (let (ret, w) = k_setsockopt K (fd dev) SOL_SOCKET SO_BINDTODEVICE (Opt_Ifname []) w in
      if ret < 0 then Inr (- LDAL_ERROR, w)
      else
        bind_res (ifr_name netdev) (\<lambda>nm.
        let (ret, w) = k_setsockopt K (fd dev) SOL_SOCKET SO_BINDTODEVICE (Opt_Ifname nm) w in
        if ret < 0 then Inr (- LDAL_ERROR, w) else Inr (LDAL_EOK, w)))"

section \<open>Addresses\<close>

definition tcp_bind_local_addr ::
    "'w kernel \<Rightarrow> tcp_dev \<Rightarrow> string option \<Rightarrow> u16 \<Rightarrow> 'w \<Rightarrow> (int \<times> tcp_dev \<times> 'w) result" where
  "tcp_bind_local_addr K dev ipaddr port w =
     (let saddr = \<lparr>sin_family = AF_INET, sin_port = htons port,
                   sin_addr = (case ipaddr of None \<Rightarrow> 0 | Some s \<Rightarrow> k_inet_addr K s)\<rparr>;
          (ret, w) = k_bind K (fd dev) saddr w
      in Inr (ret, dev, w))"

definition set_server_addr ::
    "'w kernel \<Rightarrow> tcp_dev \<Rightarrow> string option \<Rightarrow> u16 \<Rightarrow> tcp_dev result" where
  "set_server_addr K dev ipaddr port =
     assert_ptr ipaddr (\<lambda>ip.
     bind_res (parent dev) (\<lambda>link.
     let dev = set_link dev (link\<lparr>server :=
           \<lparr>sin_family = AF_INET, sin_port = htons port, sin_addr = k_inet_addr K ip\<rparr>\<rparr>)
     in bind_res (copy_string (filename dev) (endpoint ip port)) (\<lambda>s.
        Inr (dev\<lparr>filename := s\<rparr>))))"

definition tcp_import_ipaddr_from_filename ::
    "'w kernel \<Rightarrow> tcp_dev \<Rightarrow> (int \<times> tcp_dev) result" where
  "tcp_import_ipaddr_from_filename K dev =
     bind_res (read_cstr (filename dev)) (\<lambda>ipstr.
     let (ipaddr, rest) = strtok (CHR '':'') ipstr;
         (port, _) = strtok (CHR '':'') rest
     in case (ipaddr, port) of
          (Some ipaddr, Some port) \<Rightarrow>
            bind_res (atoi port) (\<lambda>n.
            bind_res (set_server_addr K dev (Some ipaddr) (word_of_int n)) (\<lambda>dev.
            Inr (LDAL_EOK, dev)))
        | _ \<Rightarrow> Inr (- LDAL_EINVAL, dev))"

section \<open>The operations\<close>

definition tcp_init :: "'w kernel \<Rightarrow> (ldal_tcp_device, 'w) dev_call" where
  "tcp_init K dev w =
     bind_res (parent dev) (\<lambda>link.
     let link = link\<lparr>status := INIT_STATE\<rparr>;
         (h, w) = k_socket K (int AF_INET) SOCK_STREAM 0 w;
         dev = (set_link dev link)\<lparr>fd := h\<rparr>
     in if fd dev < 0 then Inr (- LDAL_ERROR, dev, w)
        else
          let link = link\<lparr>recv_timeout := SOCKET_DEFAULT_TIMEOUT, send_timeout := SOCKET_DEFAULT_TIMEOUT\<rparr>;
              (_, w) = set_recv_timeout K dev (recv_timeout link) w;
              (_, w) = set_send_timeout K dev (send_timeout link) w;
              (_, w) = tcp_set_reuse_addr K dev w
          in Inr (LDAL_EOK, set_link dev (link\<lparr>status := ESTABLISHED_STATE\<rparr>), w))"

definition tcp_open :: "'w kernel \<Rightarrow> (ldal_tcp_device, 'w) dev_call" where
  "tcp_open K dev w =
     bind_res (tcp_import_ipaddr_from_filename K dev) (\<lambda>(r, dev).
     if r = LDAL_EOK then
       bind_res (parent dev) (\<lambda>link.
       let (r, w) = k_connect K (fd dev) (server link) w in
       if r = -1 then Inr (- LDAL_ERROR, set_link dev (link\<lparr>status := UNCONNECTED_STATE\<rparr>), w)
       else Inr (LDAL_EOK, set_link dev (link\<lparr>status := CONNECTED_STATE\<rparr>), w))
     else Inr (LDAL_EOK, dev, w))"

definition tcp_close :: "'w kernel \<Rightarrow> (ldal_tcp_device, 'w) dev_call" where
  "tcp_close K dev w =
     bind_res (parent dev) (\<lambda>link.
     if status link \<noteq> CLOSED_STATE \<and> status link \<noteq> CLOSING_STATE then
       let (_, w) = k_close K (fd dev) w
       in Inr (LDAL_EOK, set_link dev (link\<lparr>status := CLOSED_STATE\<rparr>), w)
     else Inr (LDAL_EOK, dev, w))"

definition tcp_connect_server_addr ::
    "'w kernel \<Rightarrow> tcp_dev \<Rightarrow> string option \<Rightarrow> u16 \<Rightarrow> 'w \<Rightarrow> (int \<times> tcp_dev \<times> 'w) result" where
  "tcp_connect_server_addr K dev ipaddr port w =
     bind_res (inet_addr K ipaddr) (\<lambda>a.
     let saddr = \<lparr>sin_family = AF_INET, sin_port = htons port, sin_addr = a\<rparr> in
     bind_res (parent dev) (\<lambda>link.
     if status link = CONNECTED_STATE then Inr (LDAL_EOK, dev, w)
     else
       bind_res
         (if status link \<noteq> CLOSED_STATE then
            bind_res (tcp_close K dev w) (\<lambda>(_, dev, w).
            bind_res (tcp_init K dev (k_sleep K 1 w)) (\<lambda>(_, dev, w). Inr (dev, w)))
          else Inr (dev, w)) (\<lambda>(dev, w).
       bind_res (parent dev) (\<lambda>link.
       let (r, w) = k_connect K (fd dev) saddr w in
       if r = -1 then Inr (- LDAL_ERROR, set_link dev (link\<lparr>status := UNCONNECTED_STATE\<rparr>), w)
       else
         let dev = set_link dev (link\<lparr>status := CONNECTED_STATE\<rparr>) in
         bind_res (set_server_addr K dev ipaddr port) (\<lambda>dev. Inr (LDAL_EOK, dev, w))))))"

definition tcp_read :: "'w kernel \<Rightarrow> (ldal_tcp_device, 'w) read_call" where
  "tcp_read K dev buf len w =
     assert_ptr buf (\<lambda>b.
     let (n, data, w) = k_recv K (fd dev) (unat len) 0 w; ret = to_int n in
     bind_res (store_reply b n data) (\<lambda>b.
     if ret = -1 then Inr (- k_errno K w, Some b, dev, w)
     else if ret = 0 then
       bind_res (parent dev) (\<lambda>link.
       Inr (ret, Some b, set_link dev (link\<lparr>status := UNCONNECTED_STATE\<rparr>), w))
     else Inr (ret, Some b, dev, w)))"

definition tcp_write :: "'w kernel \<Rightarrow> (ldal_tcp_device, 'w) write_call" where
  "tcp_write K dev buf len w =
     assert_ptr buf (\<lambda>b.
     if length b < unat len then Inl Out_Of_Bounds
     else
       let (n, w) = k_send K (fd dev) (take (unat len) b) 0 w; ret = to_int n in
       if ret = -1 then Inr (- k_errno K w, dev, w) else Inr (ret, dev, w))"

definition tcp_control :: "'w kernel \<Rightarrow> (ldal_tcp_device, 'w) control_call" where
  "tcp_control K dev cmd arg w =
     (if cmd = SOCKET_SET_NONBLOCK then
        let (_, w) = make_socket_non_blocking K (fd dev) w in Inr (0, arg, dev, w)
      else if cmd = SOCKET_SET_REUSEADDR then
        let (_, w) = tcp_set_reuse_addr K dev w in Inr (0, arg, dev, w)
      else if cmd = SOCKET_SET_NETDEV then
        bind_res (arg_string arg) (\<lambda>ifname.
        bind_res (tcp_bind_to_device K dev ifname w) (\<lambda>(_, w). Inr (0, arg, dev, w)))
      else if cmd = SOCKET_SET_KEEPALIVE then
        (case arg of
           Arg_Null \<Rightarrow> Inl Null_Pointer
         | Arg_Int enable \<Rightarrow>
             bind_res (set_keepalive K dev enable w) (\<lambda>(_, dev, w). Inr (0, arg, dev, w))
         | _ \<Rightarrow> Inl Bad_Cast)
      else if cmd = SOCKET_SET_RECVTIMEO then
        bind_res (arg_value arg) (\<lambda>timeout.
        bind_res (parent dev) (\<lambda>link.
        let link = link\<lparr>recv_timeout := ucast timeout\<rparr>; dev = set_link dev link;
            (_, w) = set_recv_timeout K dev (recv_timeout link) w
        in Inr (0, arg, dev, w)))
      else if cmd = SOCKET_SET_SENDTIMEO then
        bind_res (arg_value arg) (\<lambda>timeout.
        bind_res (parent dev) (\<lambda>link.
        let link = link\<lparr>send_timeout := ucast timeout\<rparr>; dev = set_link dev link;
            (_, w) = set_send_timeout K dev (send_timeout link) w
        in Inr (0, arg, dev, w)))
      else Inr (- LDAL_EINVAL, arg, dev, w))"

definition tcp_check_status :: "'w kernel \<Rightarrow> (ldal_tcp_device, 'w) dev_call" where
  "tcp_check_status K dev w =
     (let (retval, error, w) = k_getsockopt K (fd dev) SOL_SOCKET SO_ERROR 0 w in
      if retval \<noteq> 0 then Inr (state_code UNCONNECTED_STATE, dev, w)
      else if error \<noteq> 0 then Inr (state_code UNCONNECTED_STATE, dev, w)
      else bind_res (parent dev) (\<lambda>link. Inr (state_code (status link), dev, w)))"

definition tcp_device_ops :: "'w kernel \<Rightarrow> (ldal_tcp_device, 'w) device_ops" where
  "tcp_device_ops K = no_ops
     \<lparr>op_init := Some (tcp_init K), op_open := Some (tcp_open K), op_close := Some (tcp_close K),
      op_read := Some (tcp_read K), op_write := Some (tcp_write K),
      op_control := Some (tcp_control K), op_bind := Some (tcp_bind_local_addr K),
      op_connect := Some (tcp_connect_server_addr K), op_check := Some (tcp_check_status K)\<rparr>"

section \<open>Frames\<close>

lemma set_link_simps [simp]:
  "user_data (set_link d l) = Some l" "fd (set_link d l) = fd d" "filename (set_link d l) = filename d"
  "name (set_link d l) = name d" "is_init (set_link d l) = is_init d" "ref (set_link d l) = ref d"
  "mutex (set_link d l) = mutex d" "dclass (set_link d l) = dclass d"
  "set_link (set_link d l) l' = set_link d l'"
  by (simp_all add: set_link_def)

lemma set_server_addr_frame:
  "set_server_addr K d ip port = Inr d' \<Longrightarrow> dev_id d' = dev_id d \<and> fd d' = fd d"
  by (auto simp: set_server_addr_def assert_ptr_Inr parent_Inr dev_frame Let_def)

lemma tcp_import_split:
  "tcp_import_ipaddr_from_filename K d =
      bind_res (read_cstr (filename d)) (\<lambda>s.
      case split_endpoint s of
        None \<Rightarrow> Inr (- LDAL_EINVAL, d)
      | Some (ip, port) \<Rightarrow>
          bind_res (atoi port) (\<lambda>n.
          bind_res (set_server_addr K d (Some ip) (word_of_int n)) (\<lambda>d. Inr (LDAL_EOK, d))))"
  by (auto simp: tcp_import_ipaddr_from_filename_def split_endpoint_def case_prod_unfold Let_def
      intro!: bind_res_cong split: option.splits)

lemma tcp_import_frame:
  "tcp_import_ipaddr_from_filename K d = Inr (r, d') \<Longrightarrow> dev_id d' = dev_id d \<and> fd d' = fd d"
  by (auto simp: tcp_import_split split: option.splits dest!: set_server_addr_frame)

lemma tcp_init_frame: "tcp_init K d w = Inr (r, d', w') \<Longrightarrow> dev_id d' = dev_id d"
  by (auto simp: tcp_init_def parent_Inr dev_frame Let_def case_prod_unfold split: if_splits)

lemma tcp_close_frame: "tcp_close K d w = Inr (r, d', w') \<Longrightarrow> dev_id d' = dev_id d \<and> fd d' = fd d"
  by (auto simp: tcp_close_def parent_Inr dev_frame Let_def case_prod_unfold split: if_splits)

lemma dev_id_set_link: "user_data d \<noteq> None \<Longrightarrow> dev_id (set_link d l) = dev_id d"
  by (simp add: dev_frame)

lemma tcp_open_frame: "tcp_open K d w = Inr (r, d', w') \<Longrightarrow> dev_id d' = dev_id d"
proof -
  assume a: "tcp_open K d w = Inr (r, d', w')"
  then obtain r1 d1 where i: "tcp_import_ipaddr_from_filename K d = Inr (r1, d1)"
    by (auto simp: tcp_open_def)
  have "dev_id d' = dev_id d1"
    using a i by (auto simp: tcp_open_def parent_Inr dev_id_set_link case_prod_unfold Let_def split: if_splits)
  with tcp_import_frame [OF i] show ?thesis by simp
qed

lemma disable_keepalive_eq:
  "disable_keepalive K d l w = (- LDAL_ERROR, set_link d (l\<lparr>keepalive := 0\<rparr>),
     snd (k_setsockopt K (fd d) SOL_SOCKET SO_KEEPALIVE (Opt_Int 0) w))"
  by (simp add: disable_keepalive_def case_prod_unfold)

text \<open>The outcome of \<open>set_keepalive\<close>, from the four answers of the kernel.\<close>

lemma set_keepalive_cases:
  assumes "user_data d = Some l"
    and k: "k_setsockopt K (fd d) SOL_SOCKET SO_KEEPALIVE (Opt_Int v) w = (r0, w0)"
      "k_setsockopt K (fd d) SOL_TCP TCP_KEEPINTVL (Opt_Int CONFIG_TCP_KEEPINTVL) w0 = (r1, w1)"
      "k_setsockopt K (fd d) SOL_TCP TCP_KEEPIDLE (Opt_Int CONFIG_TCP_KEEPIDLE) w1 = (r2, w2)"
      "k_setsockopt K (fd d) SOL_TCP TCP_KEEPCNT (Opt_Int CONFIG_TCP_KEEPCNT) w2 = (r3, w3)"
  shows "set_keepalive K d v w = Inr
     (if r0 < 0 then (- LDAL_ERROR, d, w0)
      else if v = 0 then (LDAL_EOK, set_link d (l\<lparr>keepalive := 0\<rparr>), w0)
      else if 0 \<le> r1 \<and> 0 \<le> r2 \<and> 0 \<le> r3 then
        (LDAL_EOK, set_link d (l\<lparr>keepalive := v, keepidle := CONFIG_TCP_KEEPIDLE,
           keepinterval := CONFIG_TCP_KEEPINTVL, keepcount := CONFIG_TCP_KEEPCNT\<rparr>), w3)
      else
        (- LDAL_ERROR, set_link d (l\<lparr>keepalive := 0\<rparr>),
         snd (k_setsockopt K (fd d) SOL_SOCKET SO_KEEPALIVE (Opt_Int 0)
           (if r1 < 0 then w1 else if r2 < 0 then w2 else w3))))"
proof -
  have p: "parent d = Inr l" using assms(1) by simp
  show ?thesis
    unfolding set_keepalive_def k Let_def prod.case p bind_res.simps disable_keepalive_eq set_link_simps k
    by (cases "r0 < 0"; cases "r1 < 0"; cases "r2 < 0"; cases "r3 < 0"; cases "v = 0") simp_all
qed

lemma set_keepalive_no_link:
  "user_data d = None \<Longrightarrow> set_keepalive K d v w = Inr (r, d', w') \<Longrightarrow> d' = d"
  by (auto simp: set_keepalive_def parent_def case_prod_unfold Let_def split: if_splits)

lemma set_keepalive_shape:
  assumes "set_keepalive K d v w = Inr (r, d', w')"
  shows "d' = d \<or> d' \<in> range (set_link d) \<and> user_data d \<noteq> None"
proof (cases "user_data d")
  case None
  then show ?thesis using set_keepalive_no_link [OF None assms] by simp
next
  case (Some l)
  obtain r0 w0 where 0: "k_setsockopt K (fd d) SOL_SOCKET SO_KEEPALIVE (Opt_Int v) w = (r0, w0)"
    by (rule prod.exhaust)
  obtain r1 w1 where 1: "k_setsockopt K (fd d) SOL_TCP TCP_KEEPINTVL (Opt_Int 20) w0 = (r1, w1)"
    by (rule prod.exhaust)
  obtain r2 w2 where 2: "k_setsockopt K (fd d) SOL_TCP TCP_KEEPIDLE (Opt_Int 120) w1 = (r2, w2)"
    by (rule prod.exhaust)
  obtain r3 w3 where 3: "k_setsockopt K (fd d) SOL_TCP TCP_KEEPCNT (Opt_Int 2) w2 = (r3, w3)"
    by (rule prod.exhaust)
  show ?thesis
    using assms Some unfolding set_keepalive_cases [OF Some 0 1 2 3]
    by (cases "r0 < 0"; cases "v = 0"; cases "0 \<le> r1 \<and> 0 \<le> r2 \<and> 0 \<le> r3")
      (simp_all, (elim conjE, hypsubst, rule disjI2, rule rangeI)+)
qed

lemma set_keepalive_frame: "set_keepalive K d v w = Inr (r, d', w') \<Longrightarrow> dev_id d' = dev_id d"
  by (drule set_keepalive_shape) (auto intro: dev_id_set_link)

lemma tcp_control_frame: "tcp_control K d cmd arg w = Inr (r, arg', d', w') \<Longrightarrow> dev_id d' = dev_id d"
  by (auto simp: tcp_control_def parent_Inr Let_def case_prod_unfold dev_id_set_link
      split: if_splits ctrl_arg.splits dest: set_keepalive_frame)

lemma tcp_connect_frame:
  assumes "tcp_connect_server_addr K d ip port w = Inr (r, d', w')"
  shows "dev_id d' = dev_id d"
proof -
  obtain a link where a: "inet_addr K ip = Inr a" "parent d = Inr link"
    using assms by (auto simp: tcp_connect_server_addr_def Let_def)
  define s where "s = \<lparr>sin_family = AF_INET, sin_port = htons port, sin_addr = a\<rparr>"
  have tail: "dev_id d' = dev_id d1"
    if "bind_res (parent d1) (\<lambda>link.
       let (r, w) = k_connect K (fd d1) s w1 in
       if r = -1 then Inr (- LDAL_ERROR, set_link d1 (link\<lparr>status := UNCONNECTED_STATE\<rparr>), w)
       else
         let dev = set_link d1 (link\<lparr>status := CONNECTED_STATE\<rparr>) in
         bind_res (set_server_addr K dev ip port) (\<lambda>dev. Inr (LDAL_EOK, dev, w))) =
      Inr (r, d', w')" for d1 w1
    using that by (auto simp: parent_Inr Let_def case_prod_unfold dev_id_set_link
        split: if_splits dest!: set_server_addr_frame)
  consider "status link = CONNECTED_STATE" | "status link = CLOSED_STATE"
    | "status link \<noteq> CONNECTED_STATE" "status link \<noteq> CLOSED_STATE" by blast
  then show ?thesis
  proof cases
    case 1
    then show ?thesis using assms a by (simp add: tcp_connect_server_addr_def)
  next
    case 2
    then show ?thesis
      using assms a tail [of d w] by (simp add: tcp_connect_server_addr_def s_def Let_def)
  next
    case 3
    then obtain r1 d1 w1 r2 d2 w2 where c: "tcp_close K d w = Inr (r1, d1, w1)"
      "tcp_init K d1 (k_sleep K 1 w1) = Inr (r2, d2, w2)"
      using assms a by (auto simp: tcp_connect_server_addr_def)
    then have "dev_id d' = dev_id d2"
      using assms a 3 tail [of d2 w2] by (simp add: tcp_connect_server_addr_def s_def Let_def)
    with tcp_close_frame [OF c(1)] tcp_init_frame [OF c(2)] show ?thesis by simp
  qed
qed

lemma tcp_read_frame: "tcp_read K d buf len w = Inr (r, buf', d', w') \<Longrightarrow> dev_id d' = dev_id d"
  by (auto simp: tcp_read_def assert_ptr_Inr parent_Inr Let_def case_prod_unfold dev_id_set_link
      split: if_splits)

lemma tcp_write_frame: "tcp_write K d buf len w = Inr (r, d', w') \<Longrightarrow> d' = d"
  by (auto simp: tcp_write_def assert_ptr_Inr Let_def case_prod_unfold split: if_splits)

lemma tcp_check_frame: "tcp_check_status K d w = Inr (r, d', w') \<Longrightarrow> d' = d"
  by (auto simp: tcp_check_status_def Let_def case_prod_unfold split: if_splits)

lemma tcp_bind_frame: "tcp_bind_local_addr K d ip port w = Inr (r, d', w') \<Longrightarrow> d' = d"
  by (auto simp: tcp_bind_local_addr_def Let_def case_prod_unfold)

lemma tcp_table [simp]:
  "op_init (tcp_device_ops K) = Some (tcp_init K)" "op_open (tcp_device_ops K) = Some (tcp_open K)"
  "op_close (tcp_device_ops K) = Some (tcp_close K)" "op_read (tcp_device_ops K) = Some (tcp_read K)"
  "op_write (tcp_device_ops K) = Some (tcp_write K)"
  "op_control (tcp_device_ops K) = Some (tcp_control K)"
  "op_bind (tcp_device_ops K) = Some (tcp_bind_local_addr K)"
  "op_connect (tcp_device_ops K) = Some (tcp_connect_server_addr K)"
  "op_check (tcp_device_ops K) = Some (tcp_check_status K)"
  by (simp_all add: tcp_device_ops_def no_ops_def)

interpretation tcp_drv: driver "tcp_device_ops K" for K
proof
qed (auto dest: tcp_init_frame tcp_open_frame tcp_close_frame tcp_read_frame tcp_write_frame
    tcp_control_frame tcp_check_frame tcp_bind_frame tcp_connect_frame)

section \<open>The address contract\<close>

definition tcp_record_addr :: "'w kernel \<Rightarrow> string \<Rightarrow> u16 \<Rightarrow> tcp_dev \<Rightarrow> tcp_dev" where
  "tcp_record_addr K ip port d =
     d\<lparr>user_data := map_option (\<lambda>link. link\<lparr>server :=
         \<lparr>sin_family = AF_INET, sin_port = htons port, sin_addr = k_inet_addr K ip\<rparr>\<rparr>) (user_data d)\<rparr>"

interpretation tcp_addr: endpoint_store "tcp_record_addr K" "set_server_addr K"
  "tcp_import_ipaddr_from_filename K" for K
proof
  fix d :: tcp_dev and ip port
  assume "user_data d \<noteq> None"
  then show "set_server_addr K d (Some ip) port =
      bind_res (copy_string (filename d) (endpoint ip port)) (\<lambda>s.
      Inr ((tcp_record_addr K ip port d)\<lparr>filename := s\<rparr>))"
    by (auto simp: set_server_addr_def tcp_record_addr_def set_link_def parent_def Let_def)
next
  fix d :: tcp_dev
  show "tcp_import_ipaddr_from_filename K d =
      bind_res (read_cstr (filename d)) (\<lambda>s.
      case split_endpoint s of
        None \<Rightarrow> Inr (- LDAL_EINVAL, d)
      | Some (ip, port) \<Rightarrow>
          bind_res (atoi port) (\<lambda>n.
          bind_res (set_server_addr K d (Some ip) (word_of_int n)) (\<lambda>d. Inr (LDAL_EOK, d))))"
    by (rule tcp_import_split)
next
  fix d :: tcp_dev and ip port
  show "tcp_record_addr K ip port (tcp_record_addr K ip port d) = tcp_record_addr K ip port d"
    by (cases d; cases "user_data d") (auto simp: tcp_record_addr_def)
qed (auto simp: tcp_record_addr_def)

section \<open>The state machine\<close>

text \<open>The states a link can be in; the other five of the enumeration are never assigned.\<close>

definition live_states :: "socket_state list" where
  "live_states = [INIT_STATE, ESTABLISHED_STATE, UNCONNECTED_STATE, CONNECTED_STATE, CLOSED_STATE]"

definition link_ok :: "tcp_dev \<Rightarrow> bool" where
  "link_ok d \<longleftrightarrow> (\<exists>l. user_data d = Some l \<and> status l \<in> set live_states)"

lemma link_ok_set [simp]: "link_ok (set_link d l) \<longleftrightarrow> status l \<in> set live_states"
  by (simp add: link_ok_def)

lemma link_ok_user: "user_data d' = user_data d \<Longrightarrow> link_ok d' = link_ok d"
  by (simp add: link_ok_def)

lemma link_ok_updates [simp]:
  "link_ok (d\<lparr>mutex := m\<rparr>) = link_ok d" "link_ok (d\<lparr>ref := r\<rparr>) = link_ok d"
  "link_ok (d\<lparr>fd := h\<rparr>) = link_ok d" "link_ok (d\<lparr>filename := s\<rparr>) = link_ok d"
  by (simp_all add: link_ok_def)

lemma live_state_simps [simp]:
  "INIT_STATE \<in> set live_states" "ESTABLISHED_STATE \<in> set live_states"
  "UNCONNECTED_STATE \<in> set live_states" "CONNECTED_STATE \<in> set live_states"
  "CLOSED_STATE \<in> set live_states"
  by (simp_all add: live_states_def)

lemma link_okE: "link_ok d \<Longrightarrow> parent d = Inr l \<Longrightarrow> status l \<in> set live_states"
  by (auto simp: link_ok_def parent_def)

lemma set_server_addr_ok: "set_server_addr K d ip port = Inr d' \<Longrightarrow> link_ok d \<Longrightarrow> link_ok d'"
  by (auto simp: set_server_addr_def assert_ptr_Inr Let_def dest: link_okE)

lemma tcp_import_ok:
  "tcp_import_ipaddr_from_filename K d = Inr (r, d') \<Longrightarrow> link_ok d \<Longrightarrow> link_ok d'"
  by (auto simp: tcp_import_split split: option.splits dest: set_server_addr_ok)

lemma tcp_init_ok: "tcp_init K d w = Inr (r, d', w') \<Longrightarrow> link_ok d'"
  by (auto simp: tcp_init_def Let_def case_prod_unfold split: if_splits)

lemma tcp_open_ok: "tcp_open K d w = Inr (r, d', w') \<Longrightarrow> link_ok d \<Longrightarrow> link_ok d'"
  by (auto simp: tcp_open_def Let_def case_prod_unfold split: if_splits dest: tcp_import_ok)

lemma tcp_close_ok: "tcp_close K d w = Inr (r, d', w') \<Longrightarrow> link_ok d \<Longrightarrow> link_ok d'"
  by (auto simp: tcp_close_def Let_def case_prod_unfold split: if_splits)

lemma tcp_read_ok: "tcp_read K d buf len w = Inr (r, buf', d', w') \<Longrightarrow> link_ok d \<Longrightarrow> link_ok d'"
  by (auto simp: tcp_read_def assert_ptr_Inr Let_def case_prod_unfold split: if_splits)

lemma set_keepalive_ok:
  assumes "set_keepalive K d v w = Inr (r, d', w')" "link_ok d"
  shows "link_ok d'"
proof -
  obtain l where l: "user_data d = Some l" "status l \<in> set live_states"
    using assms(2) by (auto simp: link_ok_def)
  obtain r0 w0 where 0: "k_setsockopt K (fd d) SOL_SOCKET SO_KEEPALIVE (Opt_Int v) w = (r0, w0)"
    by (rule prod.exhaust)
  obtain r1 w1 where 1: "k_setsockopt K (fd d) SOL_TCP TCP_KEEPINTVL (Opt_Int 20) w0 = (r1, w1)"
    by (rule prod.exhaust)
  obtain r2 w2 where 2: "k_setsockopt K (fd d) SOL_TCP TCP_KEEPIDLE (Opt_Int 120) w1 = (r2, w2)"
    by (rule prod.exhaust)
  obtain r3 w3 where 3: "k_setsockopt K (fd d) SOL_TCP TCP_KEEPCNT (Opt_Int 2) w2 = (r3, w3)"
    by (rule prod.exhaust)
  show ?thesis
    using assms l unfolding set_keepalive_cases [OF l(1) 0 1 2 3] by (auto split: if_split_asm)
qed

lemma tcp_control_ok:
  "tcp_control K d cmd arg w = Inr (r, arg', d', w') \<Longrightarrow> link_ok d \<Longrightarrow> link_ok d'"
  by (auto simp: tcp_control_def Let_def case_prod_unfold split: if_splits ctrl_arg.splits
      dest: set_keepalive_ok link_okE)

lemma tcp_connect_ok:
  assumes "tcp_connect_server_addr K d ip port w = Inr (r, d', w')" "link_ok d"
  shows "link_ok d'"
  using assms
  by (auto simp: tcp_connect_server_addr_def Let_def case_prod_unfold
      split: if_splits dest!: set_server_addr_ok)

lemma tcp_api_ok:
  assumes "api_step cls (d, w) (d', w')" "has_ops cls d (tcp_device_ops K)" "link_ok d"
  shows "link_ok d'"
proof -
  have fetched: "fetch cls d sel = Inr f \<longleftrightarrow> sel (tcp_device_ops K) = Some f" for sel and f :: "'f"
    using assms(2) by (auto simp: has_ops_fetch split: option.splits)
  show ?thesis
    using assms(1)
  proof (rule api_stepE, goal_cases)
    case (1 r)
    then show ?case using assms(3)
      by (auto simp: startup_device_def fetched split: if_splits dest: tcp_open_ok)
  next
    case (2 r)
    then show ?case using assms(3)
      by (auto simp: stop_device_def fetched Let_def split: if_splits dest: tcp_close_ok)
  next
    case (3 buf len r buf')
    then show ?case using assms(3)
      by (auto simp: read_device_def fetched mutex_lock_Inr mutex_unlock_def dest: tcp_read_ok)
  next
    case (4 buf len r)
    then show ?case using assms(3)
      by (auto simp: write_device_def fetched mutex_lock_Inr mutex_unlock_def dest: tcp_write_frame)
  next
    case (5 cmd arg r arg')
    then show ?case using assms(3)
      by (auto simp: control_device_def fetched mutex_lock_Inr mutex_unlock_def dest: tcp_control_ok)
  next
    case (6 r)
    then show ?case using assms(3)
      by (auto simp: check_status_def fetched mutex_lock_Inr mutex_unlock_def dest: tcp_check_frame)
  next
    case (7 ip port r)
    then show ?case using assms(3)
      by (auto simp: bind_local_addr_def fetched mutex_lock_Inr mutex_unlock_def dest: tcp_bind_frame)
  next
    case (8 ip port r)
    then show ?case using assms(3)
      by (auto simp: connect_server_addr_def fetched mutex_lock_Inr mutex_unlock_def
          dest: tcp_connect_ok)
  qed
qed

section \<open>Properties\<close>

lemma tcp_dispatch:
  assumes "has_ops cls d (tcp_device_ops K)" "\<not> mutex d"
  shows "read_device cls d buf len w =
      bind_res (tcp_read K (d\<lparr>mutex := True\<rparr>) buf len w) (\<lambda>(ret, buf, d, w).
      Inr (ret, buf, mutex_unlock d, w))"
    "control_device cls d cmd arg w =
      bind_res (tcp_control K (d\<lparr>mutex := True\<rparr>) cmd arg w) (\<lambda>(ret, arg, d, w).
      Inr (ret, arg, mutex_unlock d, w))"
    "connect_server_addr cls d ip port w =
      bind_res (tcp_connect_server_addr K (d\<lparr>mutex := True\<rparr>) ip port w) (\<lambda>(ret, d, w).
      Inr (ret, mutex_unlock d, w))"
  using assms has_ops_class [of "d\<lparr>mutex := True\<rparr>" d cls "tcp_device_ops K"]
  by (simp_all add: read_device_def control_device_def connect_server_addr_def mutex_lock_def
      has_ops_fetch)

lemma unlock_link:
  "\<not> mutex d \<Longrightarrow> mutex_unlock (set_link (d\<lparr>mutex := True\<rparr>) l) = set_link d l"
  "\<not> mutex d \<Longrightarrow> mutex_unlock (d\<lparr>mutex := True\<rparr>) = d"
  by (cases d; simp add: mutex_unlock_def set_link_def)+

section \<open>What each call does to the state\<close>

definition link_status :: "tcp_dev \<Rightarrow> socket_state option" where
  "link_status d = map_option status (user_data d)"

text \<open>The file name holds an address and a port.\<close>

definition names_peer :: "tcp_dev \<Rightarrow> bool" where
  "names_peer d \<longleftrightarrow> (\<exists>s. read_cstr (filename d) = Inr s \<and> split_endpoint s \<noteq> None)"

text \<open>The state after \<open>connect\<close> has answered \<open>c\<close>.\<close>

definition connect_status :: "int \<Rightarrow> socket_state" where
  "connect_status c = (if c = -1 then UNCONNECTED_STATE else CONNECTED_STATE)"

lemma link_status_simps [simp]:
  "link_status (set_link d l) = Some (status l)" "link_status (d\<lparr>ref := n\<rparr>) = link_status d"
  "link_status (d\<lparr>mutex := m\<rparr>) = link_status d" "link_status (mutex_unlock d) = link_status d"
  "link_status (d\<lparr>fd := h\<rparr>) = link_status d" "link_status (d\<lparr>filename := f\<rparr>) = link_status d"
  "names_peer (d\<lparr>mutex := m\<rparr>) = names_peer d" "names_peer (d\<lparr>ref := n\<rparr>) = names_peer d"
  by (simp_all add: link_status_def names_peer_def mutex_unlock_def)

lemma link_status_parent: "link_status d = Some s \<longleftrightarrow> (\<exists>l. parent d = Inr l \<and> status l = s)"
  by (auto simp: link_status_def parent_def split: option.splits)

lemma parent_status: "parent d = Inr l \<Longrightarrow> link_status d = Some (status l)"
  by (auto simp: link_status_parent)

lemma set_server_addr_status: "set_server_addr K d ip port = Inr d' \<Longrightarrow> link_status d' = link_status d \<and> fd d' = fd d"
  using set_server_addr_frame [of K d ip port d']
  by (auto simp: set_server_addr_def assert_ptr_Inr parent_Inr Let_def link_status_def)

lemma tcp_init_status:
  "tcp_init K d w = Inr (r, d', w') \<Longrightarrow>
     link_status d' = Some (if fd d' < 0 then INIT_STATE else ESTABLISHED_STATE) \<and>
     fd d' = fst (k_socket K (int AF_INET) SOCK_STREAM 0 w)"
  by (auto simp: tcp_init_def Let_def case_prod_unfold split: if_splits)

lemma tcp_open_status:
  assumes "tcp_open K d w = Inr (r, d', w')" "link_status d = Some s"
  shows "if names_peer d
    then \<exists>c a. k_connect K (fd d) a w = (c, w') \<and> link_status d' = Some (connect_status c)
    else w' = w \<and> link_status d' = Some s"
proof -
  obtain r1 d1 where i: "tcp_import_ipaddr_from_filename K d = Inr (r1, d1)" using assms(1) by (auto simp: tcp_open_def)
  then have n: "names_peer d \<longleftrightarrow> r1 = LDAL_EOK" "\<not> names_peer d \<longrightarrow> d1 = d" "link_status d1 = Some s" "fd d1 = fd d"
    using assms(2) by (auto simp: tcp_import_split names_peer_def split: option.splits
        dest!: set_server_addr_status)
  show ?thesis
  proof (cases "names_peer d")
    case True
    then obtain l where "parent d1 = Inr l" using n(3) by (auto simp: link_status_parent)
    moreover obtain c w2 where "k_connect K (fd d1) (server l) w = (c, w2)" by (metis surj_pair)
    ultimately show ?thesis
      using assms(1) i n True by (auto simp: tcp_open_def connect_status_def split: if_splits)
  qed (use assms i n in \<open>auto simp: tcp_open_def\<close>)
qed

lemma tcp_close_status:
  assumes "tcp_close K d w = Inr (r, d', w')" "link_status d = Some s" "s \<noteq> CLOSING_STATE"
  shows "link_status d' = Some CLOSED_STATE \<and> w' = (if s = CLOSED_STATE then w else snd (k_close K (fd d) w)) \<and> fd d' = fd d"
proof -
  obtain l where l: "parent d = Inr l" "status l = s" using assms(2) by (auto simp: link_status_parent)
  obtain c w1 where "k_close K (fd d) w = (c, w1)" by (metis surj_pair)
  with assms l show ?thesis by (cases "s = CLOSED_STATE") (auto simp: tcp_close_def)
qed

lemma tcp_read_status:
  assumes "tcp_read K d buf len w = Inr (r, buf', d', w')" "link_status d = Some s"
  shows "link_status d' = Some (if to_int (fst (k_recv K (fd d) (unat len) 0 w)) = 0 then UNCONNECTED_STATE else s)"
  using assms
  by (auto simp: tcp_read_def assert_ptr_Inr Let_def case_prod_unfold link_status_parent split: if_splits)

lemma set_keepalive_status: "set_keepalive K d v w = Inr (r, d', w') \<Longrightarrow> link_status d' = link_status d"
proof -
  assume a: "set_keepalive K d v w = Inr (r, d', w')"
  show "link_status d' = link_status d"
  proof (cases "user_data d")
    case None
    then show ?thesis using set_keepalive_no_link [OF None a] by simp
  next
    case (Some l)
    obtain r0 w0 where 0: "k_setsockopt K (fd d) SOL_SOCKET SO_KEEPALIVE (Opt_Int v) w = (r0, w0)"
      by (rule prod.exhaust)
    obtain r1 w1 where 1: "k_setsockopt K (fd d) SOL_TCP TCP_KEEPINTVL (Opt_Int 20) w0 = (r1, w1)"
      by (rule prod.exhaust)
    obtain r2 w2 where 2: "k_setsockopt K (fd d) SOL_TCP TCP_KEEPIDLE (Opt_Int 120) w1 = (r2, w2)"
      by (rule prod.exhaust)
    obtain r3 w3 where 3: "k_setsockopt K (fd d) SOL_TCP TCP_KEEPCNT (Opt_Int 2) w2 = (r3, w3)"
      by (rule prod.exhaust)
    have "link_status d = Some (status l)" using Some by (simp add: link_status_def)
    then show ?thesis using a unfolding set_keepalive_cases [OF Some 0 1 2 3] by (auto split: if_split_asm)
  qed
qed

lemma tcp_control_status:
  assumes "tcp_control K d cmd arg w = Inr (r, arg', d', w')"
  shows "link_status d' = link_status d"
  using assms by (auto simp: tcp_control_def Let_def case_prod_unfold parent_status
      split: if_splits ctrl_arg.splits dest: set_keepalive_status)

text \<open>The socket that is connected: a new one, made a second after the old one was closed, unless that was closed before.\<close>

lemma tcp_connect_status:
  assumes "tcp_connect_server_addr K d ip port w = Inr (r, d', w')" "link_status d = Some s" "s \<noteq> CLOSING_STATE"
  shows "if s = CONNECTED_STATE then w' = w \<and> d' = d
    else \<exists>c a u. k_connect K (fd d') a u = (c, w') \<and> link_status d' = Some (connect_status c) \<and>
      (if s = CLOSED_STATE then u = w \<and> fd d' = fd d
       else fd d' = fst (k_socket K (int AF_INET) SOCK_STREAM 0 (k_sleep K 1 (snd (k_close K (fd d) w)))))"
proof -
  obtain a l where a: "inet_addr K ip = Inr a" and l: "parent d = Inr l" "status l = s"
    using assms by (auto simp: tcp_connect_server_addr_def link_status_parent)
  define t where "t = \<lparr>sin_family = AF_INET, sin_port = htons port, sin_addr = a\<rparr>"
  define join where "join = (\<lambda>d1 u. bind_res (parent d1) (\<lambda>link.
     let (r, w) = k_connect K (fd d1) t u in
     if r = -1 then Inr (- LDAL_ERROR, set_link d1 (link\<lparr>status := UNCONNECTED_STATE\<rparr>), w)
     else
       let dev = set_link d1 (link\<lparr>status := CONNECTED_STATE\<rparr>) in
       bind_res (set_server_addr K dev ip port) (\<lambda>dev. Inr (LDAL_EOK, dev, w))))"
  have j: "\<exists>c. k_connect K (fd d') t u = (c, w') \<and> link_status d' = Some (connect_status c) \<and> fd d' = fd d1"
    if jn: "join d1 u = Inr (r, d', w')" for d1 u
  proof -
    obtain c w2 where k: "k_connect K (fd d1) t u = (c, w2)" by (metis surj_pair)
    obtain l1 where l1: "parent d1 = Inr l1" using jn by (cases "parent d1") (auto simp: join_def)
    show ?thesis
    proof (cases "c = -1")
      case True
      then show ?thesis using jn k l1 by (auto simp: join_def connect_status_def)
    next
      case False
      then have "set_server_addr K (set_link d1 (l1\<lparr>status := CONNECTED_STATE\<rparr>)) ip port = Inr d'" "w' = w2"
        using jn k l1 by (auto simp: join_def Let_def)
      with False k set_server_addr_status [OF this(1)] show ?thesis by (simp add: connect_status_def)
    qed
  qed
  consider "s = CONNECTED_STATE" | "s = CLOSED_STATE" | "s \<noteq> CONNECTED_STATE" "s \<noteq> CLOSED_STATE" by blast
  then show ?thesis
  proof cases
    case 1
    then show ?thesis using assms(1) a l by (simp add: tcp_connect_server_addr_def)
  next
    case 2
    then have "join d w = Inr (r, d', w')"
      using assms(1) a l by (simp add: tcp_connect_server_addr_def join_def t_def)
    from j [OF this] 2 show ?thesis by auto
  next
    case 3
    then obtain r1 d1 w1 r2 d2 w2 where c: "tcp_close K d w = Inr (r1, d1, w1)"
      "tcp_init K d1 (k_sleep K 1 w1) = Inr (r2, d2, w2)" "join d2 w2 = Inr (r, d', w')"
      using assms(1) a l by (auto simp: tcp_connect_server_addr_def join_def t_def)
    from j [OF c(3)] tcp_init_status [OF c(2)] tcp_close_status [OF c(1) assms(2,3)] 3 show ?thesis by auto
  qed
qed

text \<open>In every state that can be reached the link is in one of the five states.\<close>

lemma tcp_reach:
  assumes "tcp_init K d0 w0 = Inr (r, d, w)" "has_ops cls d (tcp_device_ops K)"
    "(api_step cls)\<^sup>*\<^sup>* (d, w) (d', w')"
  shows "link_ok d' \<and> has_ops cls d' (tcp_device_ops K)"
  using assms(3)
proof (induction rule: rtranclp_induct2)
  case refl
  then show ?case using tcp_init_ok [OF assms(1)] assms(2) by simp
next
  case (step d1 w1 d2 w2)
  then have "has_ops cls d1 (tcp_device_ops K)" "link_ok d1" by auto
  with tcp_api_ok [OF step.hyps(2)] tcp_drv.api_step_frame(3) [OF step.hyps(2)]
    has_ops_class [of d2 d1 cls "tcp_device_ops K"] show ?case by blast
qed

text \<open>
  Property C34. The state machine of a TCP link. Initialisation leaves it established, or initial when there is no socket. After
  any calls it is initial, established, unconnected, connected or closed, and the next call moves it like this.
  The first start of a device whose file name holds an address asks the kernel to connect its descriptor: the link is then unconnected
  if the kernel refused and connected otherwise; any other start leaves it. The last stop closes the descriptor and
  the link, unless it was closed. A connect call does nothing on a connected link; on a closed one it connects the old descriptor, in the
  other three states it closes that and connects a new socket, and the link is again unconnected or connected as the
  kernel answers. A read that finds the end of the stream leaves it unconnected. No other call changes it.
\<close>
theorem tcp_states:
  fixes K :: "'w kernel"
  assumes "tcp_init K d0 w0 = Inr (r0, d1, w1)" "has_ops cls d1 (tcp_device_ops K)" "(api_step cls)\<^sup>*\<^sup>* (d1, w1) (d, w)"
  shows "link_status d1 = Some (if fd d1 < 0 then INIT_STATE else ESTABLISHED_STATE) \<and>
    (\<exists>s \<in> {INIT_STATE, ESTABLISHED_STATE, UNCONNECTED_STATE, CONNECTED_STATE, CLOSED_STATE}.
      link_status d = Some s \<and>
      (\<forall>r d' w'. startup_device cls d w = Inr (r, d', w') \<longrightarrow>
        (if is_init d \<and> ref d = 0 \<and> names_peer d
         then \<exists>c a. k_connect K (fd d) a w = (c, w') \<and>
           link_status d' = Some (connect_status c)
         else w' = w \<and> link_status d' = Some s)) \<and>
      (\<forall>r d' w'. stop_device cls d w = Inr (r, d', w') \<longrightarrow>
        (if is_init d \<and> ref d = 1 \<and> s \<noteq> CLOSED_STATE
         then w' = snd (k_close K (fd d) w) \<and> link_status d' = Some CLOSED_STATE
         else w' = w \<and> link_status d' = Some s)) \<and>
      (\<forall>ip port r d' w'. connect_server_addr cls d ip port w = Inr (r, d', w') \<longrightarrow>
        (if s = CONNECTED_STATE then w' = w \<and> link_status d' = Some s
         else \<exists>c a u. k_connect K (fd d') a u = (c, w') \<and>
           link_status d' = Some (connect_status c) \<and>
           (if s = CLOSED_STATE then u = w \<and> fd d' = fd d
            else fd d' = fst (k_socket K (int AF_INET) SOCK_STREAM 0 (k_sleep K 1 (snd (k_close K (fd d) w))))))) \<and>
      (\<forall>buf len r buf' d' w'. read_device cls d buf len w = Inr (r, buf', d', w') \<longrightarrow>
        link_status d' = Some (if to_int (fst (k_recv K (fd d) (unat len) 0 w)) = 0 then UNCONNECTED_STATE else s)) \<and>
      (\<forall>r d' w'. (\<exists>buf len. write_device cls d buf len w = Inr (r, d', w')) \<or>
          (\<exists>cmd arg arg'. control_device cls d cmd arg w = Inr (r, arg', d', w')) \<or>
          check_status cls d w = Inr (r, d', w') \<or> (\<exists>ip port. bind_local_addr cls d ip port w = Inr (r, d', w')) \<longrightarrow>
        link_status d' = Some s))"
proof -
  have ok: "link_ok d" and ops: "has_ops cls d (tcp_device_ops K)" using tcp_reach [OF assms] by simp_all
  have f: "fetch cls d sel = Inr g \<longleftrightarrow> sel (tcp_device_ops K) = Some g" for sel and g :: "'g"
    using ops by (auto simp: has_ops_fetch split: option.splits)
  obtain s where s: "link_status d = Some s" "s \<in> set live_states"
    using ok by (auto simp: link_ok_def link_status_def)
  then have c: "s \<noteq> CLOSING_STATE" by (auto simp: live_states_def)
  show ?thesis
  proof (intro conjI bexI [of _ s] allI impI, goal_cases)
    case 1
    then show ?case using tcp_init_status [OF assms(1)] by simp
  next
    case 2
    then show ?case by (rule s)
  next
    case (3 r d' w')
    show ?case
    proof (cases "is_init d \<and> ref d = 0")
      case True
      then obtain ret d2 where "tcp_open K d w = Inr (ret, d2, w')" "link_status d' = link_status d2"
        using 3 by (auto simp: startup_device_def f split: if_splits)
      with tcp_open_status [OF this(1) s(1)] True show ?thesis by auto
    next
      case False
      then show ?thesis using 3 s(1) by (auto simp: startup_device_def word_neq_0_conv split: if_splits)
    qed
  next
    case (4 r d' w')
    have one: "0 < ref d \<and> ref d - 1 = 0 \<longleftrightarrow> ref d = 1" by (auto simp: word_neq_0_conv [symmetric])
    show ?case
      using 4 s(1) one by (auto simp: stop_device_def f Let_def split: if_splits dest!: tcp_close_status [OF _ _ c])
  next
    case (5 ip port r d' w')
    then obtain d2 where d2: "tcp_connect_server_addr K (d\<lparr>mutex := True\<rparr>) ip port w = Inr (r, d2, w')"
      "d' = mutex_unlock d2"
      by (auto simp: connect_server_addr_def f mutex_lock_Inr)
    have "link_status (d\<lparr>mutex := True\<rparr>) = Some s" using s(1) by simp
    note q = tcp_connect_status [OF d2(1) this c]
    have e: "fd d' = fd d2" "link_status d' = link_status d2" "fd (d\<lparr>mutex := True\<rparr>) = fd d"
      by (simp_all add: d2(2) mutex_unlock_def)
    show ?case
    proof (cases "s = CONNECTED_STATE")
      case True
      then show ?thesis using q s(1) by (simp add: e)
    next
      case False
      then show ?thesis using q by (simp only: e if_False)
    qed
  next
    case (6 buf len r buf' d' w')
    then show ?case
      using s(1) by (auto simp: read_device_def f mutex_lock_Inr dest!: tcp_read_status)
  next
    case (7 r d' w')
    then show ?case
      using s(1) by (auto simp: write_device_def control_device_def check_status_def bind_local_addr_def f mutex_lock_Inr
          dest!: tcp_write_frame tcp_control_status tcp_check_frame tcp_bind_frame)
  next
    case 8
    then show ?case using s(2) by (simp add: live_states_def)
  qed
qed

definition fresh_link :: ldal_tcp_device where
  "fresh_link =
     \<lparr>status = INIT_STATE, server = \<lparr>sin_family = 0, sin_port = 0, sin_addr = 0\<rparr>, recv_timeout = 0,
      send_timeout = 0, keepalive = 0, keepidle = 0, keepinterval = 0, keepcount = 0\<rparr>"

text \<open>
  Reading from a TCP device: received bytes are stored and counted; the end of the
  stream is reported as 0 and leaves the link unconnected; an error is reported as the negated
  \<open>errno\<close> and leaves the buffer and the link as they were.
\<close>
theorem tcp_read_cases:
  fixes K :: "'w kernel"
  assumes "has_ops cls d (tcp_device_ops K)" "\<not> mutex d" "user_data d = Some l"
    "k_recv K (fd d) (unat len) 0 w = (n, data, w')" "reply_ok (unat len) n data"
    "unat len \<le> length buf" "unat len < 2 ^ 31"
  shows "read_device cls d (Some buf) len w =
    (if n = -1 then Inr (- k_errno K w', Some buf, d, w')
     else if n = 0 then Inr (0, Some buf, set_link d (l\<lparr>status := UNCONNECTED_STATE\<rparr>), w')
     else Inr (n, Some (data @ drop (length data) buf), d, w'))"
proof -
  have "in_int n" using assms(5,7) by (auto simp: reply_ok_def in_int_def)
  then show ?thesis
    using assms(2-7) store_reply_ok [OF assms(5,6)] unfolding tcp_dispatch(1) [OF assms(1,2)]
    by (auto simp: tcp_read_def unlock_link reply_ok_def)
qed

lemma tcp_read_cases_witness:
  "read_device (single_class (tcp_device_ops sample_kernel)) (fresh_device ''net'' ''10.0.0.1:80'' fresh_link)
     (Some [0, 0]) 2 0 = Inr (1, Some [42, 0], fresh_device ''net'' ''10.0.0.1:80'' fresh_link, 1)"
  using tcp_read_cases [of "single_class (tcp_device_ops sample_kernel)"
      "fresh_device ''net'' ''10.0.0.1:80'' fresh_link" sample_kernel fresh_link 2 0 1 "[42]" 1 "[0, 0]"]
  by (simp add: sample_kernel_def reply_ok_def)

text \<open>
  Switching keep-alive on is all or nothing: if the kernel accepts the option itself and
  the three parameters, they are what the link records; if it refuses a parameter, keep-alive is
  switched off again and recorded as off. The caller is told of neither.
\<close>
theorem tcp_keepalive:
  fixes K :: "'w kernel"
  assumes "has_ops cls d (tcp_device_ops K)" "\<not> mutex d" "user_data d = Some l" "v \<noteq> 0"
    and k: "k_setsockopt K (fd d) SOL_SOCKET SO_KEEPALIVE (Opt_Int v) w = (r0, w0)" "0 \<le> r0"
      "k_setsockopt K (fd d) SOL_TCP TCP_KEEPINTVL (Opt_Int 20) w0 = (r1, w1)"
      "k_setsockopt K (fd d) SOL_TCP TCP_KEEPIDLE (Opt_Int 120) w1 = (r2, w2)"
      "k_setsockopt K (fd d) SOL_TCP TCP_KEEPCNT (Opt_Int 2) w2 = (r3, w3)"
  shows "control_device cls d SOCKET_SET_KEEPALIVE (Arg_Int v) w =
    (if 0 \<le> r1 \<and> 0 \<le> r2 \<and> 0 \<le> r3
     then Inr (0, Arg_Int v, set_link d (l\<lparr>keepalive := v, keepidle := 120, keepinterval := 20, keepcount := 2\<rparr>), w3)
     else Inr (0, Arg_Int v, set_link d (l\<lparr>keepalive := 0\<rparr>),
       snd (k_setsockopt K (fd d) SOL_SOCKET SO_KEEPALIVE (Opt_Int 0)
         (if r1 < 0 then w1 else if r2 < 0 then w2 else w3))))"
proof -
  define d1 where "d1 = d\<lparr>mutex := True\<rparr>"
  have d1: "user_data d1 = Some l" "fd d1 = fd d" using assms(3) by (simp_all add: d1_def)
  note c = set_keepalive_cases [OF d1(1), of K v w, unfolded d1(2), OF k(1) k(3-5)]
  have u: "mutex_unlock (set_link d1 x) = set_link d x" for x
    using assms(2) by (simp add: d1_def unlock_link)
  have "tcp_control K d1 SOCKET_SET_KEEPALIVE (Arg_Int v) w =
      bind_res (set_keepalive K d1 v w) (\<lambda>(_, dev, w). Inr (0, Arg_Int v, dev, w))"
    by (simp add: tcp_control_def socket_cmds)
  then show ?thesis
    using assms(4) k(2) unfolding tcp_dispatch(2) [OF assms(1,2)] d1_def [symmetric] c
    by (auto simp: u)
qed

lemma tcp_keepalive_witness:
  "control_device (single_class (tcp_device_ops sample_kernel))
     (fresh_device ''net'' ''10.0.0.1:80'' fresh_link) SOCKET_SET_KEEPALIVE (Arg_Int 1) 0 =
   Inr (0, Arg_Int 1, set_link (fresh_device ''net'' ''10.0.0.1:80'' fresh_link)
     (fresh_link\<lparr>keepalive := 1, keepidle := 120, keepinterval := 20, keepcount := 2\<rparr>), 4)"
  using tcp_keepalive [of "single_class (tcp_device_ops sample_kernel)"
      "fresh_device ''net'' ''10.0.0.1:80'' fresh_link" sample_kernel fresh_link 1 0 0 1 0 2 0 3 0 4]
  by (simp add: sample_kernel_def)

text \<open>The address the driver makes of an address in text and a port.\<close>

definition peer :: "'w kernel \<Rightarrow> string \<Rightarrow> u16 \<Rightarrow> sockaddr_in" where
  "peer K ip port = \<lparr>sin_family = AF_INET, sin_port = htons port, sin_addr = k_inet_addr K ip\<rparr>"

text \<open>A device whose file name holds an address, as registration or a successful connect leaves it.\<close>

definition addressed :: "tcp_dev \<Rightarrow> string \<Rightarrow> u16 \<Rightarrow> bool" where
  "addressed d ip port \<longleftrightarrow>
     (\<exists>junk. filename d = endpoint ip port @ NUL # junk) \<and> length (filename d) = LDAL_FILENAME_MAX"

lemma import_addressed:
  assumes "user_data d = Some l" "good_ip ip" "addressed d ip port"
  shows "tcp_import_ipaddr_from_filename K d = Inr (LDAL_EOK, set_link d (l\<lparr>server := peer K ip port\<rparr>))"
proof -
  obtain junk where f: "filename d = endpoint ip port @ NUL # junk" using assms(3) by (auto simp: addressed_def)
  note s = endpoint_text [OF assms(2), of port]
  have "unat port < 2 ^ LENGTH(16)" by (rule unsigned_less)
  then have "atoi (decimal (unat port)) = Inr (int (unat port))" by (intro atoi_decimal) simp
  moreover have "copy_string (filename d) (endpoint ip port) = Inr (filename d)"
    using copy_string_ok [of "endpoint ip port" "filename d"] f by simp
  then have "set_server_addr K d (Some ip) port = Inr (set_link d (l\<lparr>server := peer K ip port\<rparr>))"
    using assms(1) by (simp add: set_server_addr_def peer_def Let_def)
  ultimately show ?thesis
    using split_endpoint_endpoint [OF assms(2), of port] s f by (simp add: tcp_import_split)
qed

lemma tcp_open_addressed:
  assumes "user_data d = Some l" "good_ip ip" "addressed d ip port"
    "k_connect K (fd d) (peer K ip port) w = (r, w')"
  shows "tcp_open K d w =
    (if r = -1
     then Inr (- LDAL_ERROR, set_link d (l\<lparr>server := peer K ip port, status := UNCONNECTED_STATE\<rparr>), w')
     else Inr (LDAL_EOK, set_link d (l\<lparr>server := peer K ip port, status := CONNECTED_STATE\<rparr>), w'))"
  using assms import_addressed [OF assms(1-3), of K] by (simp add: tcp_open_def)

text \<open>
  Property C40. Starting a device whose file name is an address connects its socket to that address and
  port; when the connection is refused, the link is unconnected, the device counts as stopped and the
  call nevertheless reports success.
\<close>
theorem tcp_startup:
  fixes K :: "'w kernel"
  assumes "has_ops cls d (tcp_device_ops K)" "is_init d" "ref d = 0" "user_data d = Some l"
    "good_ip ip" "addressed d ip port"
    "k_connect K (fd d) \<lparr>sin_family = AF_INET, sin_port = htons port, sin_addr = k_inet_addr K ip\<rparr> w =
      (r, w')"
  shows "\<exists>d' l'. startup_device cls d w = Inr (LDAL_EOK, d', w') \<and> user_data d' = Some l' \<and> fd d' = fd d \<and>
    (if r = -1 then status l' = UNCONNECTED_STATE \<and> ref d' = 0
     else status l' = CONNECTED_STATE \<and> ref d' = 1)"
  using assms tcp_open_addressed [OF assms(4-6), of K w r w']
  by (auto simp: startup_device_def has_ops_fetch peer_def)

lemma addressed_fresh:
  assumes "good_ip ip"
  shows "addressed (fresh_device s (endpoint ip port) p) ip port"
proof -
  have "length (endpoint ip port) < LDAL_FILENAME_MAX" by (rule endpoint_text [OF assms])
  then obtain k where "LDAL_FILENAME_MAX - length (endpoint ip port) = Suc k"
    by (metis diff_is_0_eq not_less old.nat.exhaust)
  then show ?thesis
    using endpoint_text(2) [OF assms, of port] by (auto simp: addressed_def fresh_device_def)
qed

lemma good_sample: "good_ip ''10.0.0.1''"
  by (simp add: good_ip_def NUL_def)

lemma tcp_startup_witness:
  "\<exists>d' l'. startup_device (single_class (tcp_device_ops sample_kernel))
     (fresh_device ''net'' (endpoint ''10.0.0.1'' 80) fresh_link) 0 = Inr (LDAL_EOK, d', 1) \<and>
   user_data d' = Some l' \<and> status l' = CONNECTED_STATE \<and> ref d' = 1"
  using tcp_startup [of "single_class (tcp_device_ops sample_kernel)"
      "fresh_device ''net'' (endpoint ''10.0.0.1'' 80) fresh_link" sample_kernel fresh_link
      "''10.0.0.1''" 80 0 0 1] good_sample addressed_fresh [OF good_sample]
  by (auto simp: sample_kernel_def)

text \<open>
  Stopping a connected device closes its socket, and starting it again finds the address in
  its file name but connects the descriptor that was closed: no new socket is made.
\<close>
theorem tcp_restart:
  fixes K :: "'w kernel"
  assumes "has_ops cls d (tcp_device_ops K)" "is_init d" "ref d = 1" "user_data d = Some l"
    "status l = CONNECTED_STATE" "good_ip ip" "addressed d ip port"
    "k_close K (fd d) w = (c, w1)"
    "k_connect K (fd d) \<lparr>sin_family = AF_INET, sin_port = htons port, sin_addr = k_inet_addr K ip\<rparr> w1 =
      (r, w2)" "r \<noteq> -1"
  shows "\<exists>d1 d2. stop_device cls d w = Inr (LDAL_EOK, d1, w1) \<and>
    status (the (user_data d1)) = CLOSED_STATE \<and>
    startup_device cls d1 w1 = Inr (LDAL_EOK, d2, w2) \<and> fd d2 = fd d \<and> ref d2 = 1 \<and>
    status (the (user_data d2)) = CONNECTED_STATE"
proof -
  define d1 where "d1 = set_link (d\<lparr>ref := 0\<rparr>) (l\<lparr>status := CLOSED_STATE\<rparr>)"
  have ops: "has_ops cls d1 (tcp_device_ops K)"
    using assms(1) has_ops_class [of d1 d cls "tcp_device_ops K"] by (simp add: d1_def)
  have "stop_device cls d w = Inr (LDAL_EOK, d1, w1)"
    using assms(1-5,8) by (simp add: stop_device_def has_ops_fetch tcp_close_def d1_def)
  moreover have "startup_device cls d1 w1 =
      Inr (LDAL_EOK, (set_link d1 (l\<lparr>server := peer K ip port, status := CONNECTED_STATE\<rparr>))\<lparr>ref := 1\<rparr>, w2)"
    using tcp_open_addressed [of d1 "l\<lparr>status := CLOSED_STATE\<rparr>" ip port K w1 r w2] assms ops
    by (simp add: startup_device_def has_ops_fetch addressed_def peer_def d1_def)
  ultimately show ?thesis by (auto simp: d1_def)
qed

lemma tcp_restart_witness:
  "\<exists>d1 d2. stop_device (single_class (tcp_device_ops sample_kernel))
     ((fresh_device ''net'' (endpoint ''10.0.0.1'' 80) (fresh_link\<lparr>status := CONNECTED_STATE\<rparr>))\<lparr>ref := 1\<rparr>) 0 =
       Inr (LDAL_EOK, d1, 1) \<and>
     startup_device (single_class (tcp_device_ops sample_kernel)) d1 1 = Inr (LDAL_EOK, d2, 2) \<and> fd d2 = 0"
proof -
  define d where "d = (fresh_device ''net'' (endpoint ''10.0.0.1'' 80)
    (fresh_link\<lparr>status := CONNECTED_STATE\<rparr>))\<lparr>ref := 1\<rparr>"
  have "has_ops (single_class (tcp_device_ops sample_kernel)) d (tcp_device_ops sample_kernel)"
    by (simp add: d_def has_ops_class [of d "fresh_device ''net'' (endpoint ''10.0.0.1'' 80)
      (fresh_link\<lparr>status := CONNECTED_STATE\<rparr>)", unfolded d_def])
  moreover have "addressed d ''10.0.0.1'' 80"
    using addressed_fresh [OF good_sample] by (simp add: d_def addressed_def)
  moreover have "user_data d = Some (fresh_link\<lparr>status := CONNECTED_STATE\<rparr>)" "ref d = 1" "is_init d" "fd d = 0"
    by (simp_all add: d_def)
  ultimately show ?thesis
    using tcp_restart [of "single_class (tcp_device_ops sample_kernel)" d sample_kernel
        "fresh_link\<lparr>status := CONNECTED_STATE\<rparr>" "''10.0.0.1''" 80 0 0 1 0 2] good_sample
    unfolding d_def [symmetric] by (auto simp: sample_kernel_def)
qed

text \<open>
  A timeout in milliseconds reaches the kernel as a normalised number of seconds and
  microseconds of the same length.
\<close>
theorem tcp_recv_timeout:
  fixes K :: "'w kernel"
  assumes "has_ops cls d (tcp_device_ops K)" "\<not> mutex d" "user_data d = Some l"
  shows "\<exists>sec usec. control_device cls d SOCKET_SET_RECVTIMEO (Arg_Value v) w =
      Inr (0, Arg_Value v, set_link d (l\<lparr>recv_timeout := ucast v\<rparr>),
           snd (k_setsockopt K (fd d) SOL_SOCKET SO_RCVTIMEO (Opt_Timeval sec usec) w)) \<and>
    0 \<le> usec \<and> usec < 1000000 \<and> sec * 1000000 + usec = 1000 * (uint v mod 2 ^ 32)"
proof -
  define t :: u32 where "t = ucast v"
  define sec where "sec = uint (t div 1000)"
  define usec where "usec = uint ((t mod 1000) * 1000)"
  have t: "uint t = uint v mod 2 ^ 32" by (simp add: t_def unsigned_ucast_eq take_bit_eq_mod)
  have sec: "sec = uint t div 1000" by (simp add: sec_def uint_div)
  have m: "uint (t mod 1000) = uint t mod 1000" by (simp add: uint_mod)
  have "usec = (uint t mod 1000) * 1000 mod 2 ^ 32"
    by (simp only: usec_def uint_word_ariths m) simp
  moreover have "uint t mod 1000 < 1000" "0 \<le> uint t mod 1000" by simp_all
  ultimately have usec: "usec = (uint t mod 1000) * 1000" by simp
  have "0 \<le> usec \<and> usec < 1000000" using usec by simp
  moreover have "sec * 1000000 + usec = 1000 * uint t"
    using div_mult_mod_eq [of "uint t" 1000] unfolding sec usec by linarith
  moreover have "control_device cls d SOCKET_SET_RECVTIMEO (Arg_Value v) w =
      Inr (0, Arg_Value v, set_link d (l\<lparr>recv_timeout := t\<rparr>),
           snd (k_setsockopt K (fd d) SOL_SOCKET SO_RCVTIMEO (Opt_Timeval sec usec) w))"
    using assms(2,3) unfolding tcp_dispatch(2) [OF assms(1,2)]
    by (simp add: tcp_control_def socket_cmds arg_value_def set_recv_timeout_def case_prod_unfold
        unlock_link t_def sec_def usec_def)
  ultimately show ?thesis using t by (auto simp: t_def)
qed

lemma tcp_recv_timeout_witness:
  "\<exists>sec usec. control_device (single_class (tcp_device_ops sample_kernel))
     (fresh_device ''net'' ''10.0.0.1:80'' fresh_link) SOCKET_SET_RECVTIMEO (Arg_Value 1500) 0 =
     Inr (0, Arg_Value 1500, set_link (fresh_device ''net'' ''10.0.0.1:80'' fresh_link)
       (fresh_link\<lparr>recv_timeout := ucast (1500 :: 64 word)\<rparr>),
       snd (k_setsockopt sample_kernel 0 SOL_SOCKET SO_RCVTIMEO (Opt_Timeval sec usec) 0)) \<and>
     sec * 1000000 + usec = 1500000"
  using tcp_recv_timeout [of "single_class (tcp_device_ops sample_kernel)"
      "fresh_device ''net'' ''10.0.0.1:80'' fresh_link" sample_kernel fresh_link 1500 0]
  by auto

lemma set_server_addr_eq:
  assumes "user_data d = Some l" "good_ip ip" "length (filename d) = LDAL_FILENAME_MAX"
  obtains s where "set_server_addr K d (Some ip) port =
      Inr ((set_link d (l\<lparr>server := peer K ip port\<rparr>))\<lparr>filename := s\<rparr>)"
    "addressed (d\<lparr>filename := s\<rparr>) ip port"
proof -
  define s where "s = endpoint ip port @ NUL # drop (Suc (length (endpoint ip port))) (filename d)"
  have "copy_string (filename d) (endpoint ip port) = Inr s"
    using endpoint_text(2) [OF assms(2), of port] assms(3) by (simp add: copy_string_ok s_def)
  moreover have "length s = LDAL_FILENAME_MAX"
    using endpoint_text(2) [OF assms(2), of port] assms(3) by (simp add: s_def)
  ultimately show thesis
    using assms(1) by (intro that [of s]) (auto simp: set_server_addr_def peer_def Let_def addressed_def s_def)
qed

text \<open>
  Connecting a link that is established or unconnected closes its socket, waits a second,
  makes a new socket with the default timeouts, connects that one and records the address, so that
  the device can be started with it again; a refused connection leaves the new socket unconnected.
\<close>
theorem tcp_connect:
  fixes K :: "'w kernel"
  assumes d: "has_ops cls d (tcp_device_ops K)" "\<not> mutex d" "user_data d = Some l"
      "status l \<in> {INIT_STATE, ESTABLISHED_STATE, UNCONNECTED_STATE}" "good_ip ip"
      "length (filename d) = LDAL_FILENAME_MAX"
    and K: "k_close K (fd d) w = (c, w1)" "k_socket K (int AF_INET) SOCK_STREAM 0 (k_sleep K 1 w1) = (h, w2)"
      "0 \<le> h" "k_setsockopt K h SOL_SOCKET SO_RCVTIMEO (Opt_Timeval 3 0) w2 = (o1, w3)"
      "k_setsockopt K h SOL_SOCKET SO_SNDTIMEO (Opt_Timeval 3 0) w3 = (o2, w4)"
      "k_setsockopt K h SOL_SOCKET SO_REUSEADDR (Opt_Int 1) w4 = (o3, w5)"
      "k_connect K h \<lparr>sin_family = AF_INET, sin_port = htons port, sin_addr = k_inet_addr K ip\<rparr> w5 = (r, w6)"
  shows "\<exists>d' l'. connect_server_addr cls d (Some ip) port w =
      Inr (if r = -1 then - LDAL_ERROR else LDAL_EOK, d', w6) \<and> \<not> mutex d' \<and> fd d' = h \<and>
    user_data d' = Some l' \<and>
    (if r = -1 then status l' = UNCONNECTED_STATE
     else status l' = CONNECTED_STATE \<and> addressed d' ip port)"
proof -
  define d1 where "d1 = d\<lparr>mutex := True\<rparr>"
  define d2 where "d2 = set_link (d1\<lparr>fd := h\<rparr>) (l\<lparr>status := ESTABLISHED_STATE, recv_timeout := 3000, send_timeout := 3000\<rparr>)"
  have d1: "user_data d1 = Some l" "fd d1 = fd d" "length (filename d1) = LDAL_FILENAME_MAX"
    using d by (simp_all add: d1_def)
  have close: "tcp_close K d1 w = Inr (LDAL_EOK, set_link d1 (l\<lparr>status := CLOSED_STATE\<rparr>), w1)"
    using d(4) d1 K(1) by (auto simp: tcp_close_def)
  have "tcp_init K (set_link d1 (l\<lparr>status := CLOSED_STATE\<rparr>)) (k_sleep K 1 w1) = Inr (LDAL_EOK, d2, w5)"
    using K by (simp add: tcp_init_def set_recv_timeout_def set_send_timeout_def tcp_set_reuse_addr_def
        d2_def set_link_def)
  then have "tcp_connect_server_addr K d1 (Some ip) port w =
      (if r = -1 then Inr (- LDAL_ERROR, set_link d2 (the (user_data d2)\<lparr>status := UNCONNECTED_STATE\<rparr>), w6)
       else bind_res (set_server_addr K (set_link d2 (the (user_data d2)\<lparr>status := CONNECTED_STATE\<rparr>)) (Some ip) port)
         (\<lambda>d. Inr (LDAL_EOK, d, w6)))"
    using close d(4) d1 K(7) by (auto simp: tcp_connect_server_addr_def Let_def d2_def)
  moreover define d3 where "d3 = set_link d2 (the (user_data d2)\<lparr>status := CONNECTED_STATE\<rparr>)"
  have "user_data d3 = Some (the (user_data d2)\<lparr>status := CONNECTED_STATE\<rparr>)"
    "length (filename d3) = LDAL_FILENAME_MAX" using d1 by (simp_all add: d3_def d2_def)
  then obtain s where "set_server_addr K d3 (Some ip) port =
      Inr ((set_link d3 (the (user_data d2)\<lparr>status := CONNECTED_STATE, server := peer K ip port\<rparr>))\<lparr>filename := s\<rparr>)"
    "addressed (d3\<lparr>filename := s\<rparr>) ip port"
    using set_server_addr_eq [of d3 _ ip K port] d(5) by force
  ultimately show ?thesis
    unfolding tcp_dispatch(3) [OF d(1,2)] d1_def [symmetric] d3_def [symmetric]
    by (auto simp: mutex_unlock_def addressed_def d2_def d3_def)
qed

lemma fresh_filename: "length path \<le> LDAL_FILENAME_MAX \<Longrightarrow> length (filename (fresh_device s path p)) = LDAL_FILENAME_MAX"
  by (simp add: fresh_device_def)

lemma tcp_connect_witness:
  "\<exists>d'. connect_server_addr (single_class (tcp_device_ops sample_kernel))
     (fresh_device ''net'' ''eth0'' fresh_link) (Some ''10.0.0.1'') 80 0 = Inr (LDAL_EOK, d', 7) \<and>
   addressed d' ''10.0.0.1'' 80"
proof -
  have "length (filename (fresh_device ''net'' ''eth0'' fresh_link)) = LDAL_FILENAME_MAX"
    by (rule fresh_filename) simp
  from tcp_connect [OF fresh_device_simps(6) fresh_device_simps(4,5) _ good_sample this,
      of sample_kernel 0 0 1 4 3 0 4 0 5 0 6 80 0 7] show ?thesis
    by (auto simp: sample_kernel_def fresh_link_def)
qed

text \<open>A link that is initialised, started and stopped.\<close>

lemma tcp_states_witness:
  "\<exists>d1 d2 d3. tcp_init sample_kernel (fresh_device ''net'' (endpoint ''10.0.0.1'' 80) fresh_link) 0 = Inr (0, d1, 4) \<and>
    link_status d1 = Some ESTABLISHED_STATE \<and>
    startup_device (single_class (tcp_device_ops sample_kernel)) d1 4 = Inr (0, d2, 5) \<and>
    link_status d2 = Some CONNECTED_STATE \<and>
    stop_device (single_class (tcp_device_ops sample_kernel)) d2 5 = Inr (0, d3, 6) \<and>
    link_status d3 = Some CLOSED_STATE"
proof -
  let ?C = "single_class (tcp_device_ops sample_kernel)"
  let ?d0 = "fresh_device ''net'' (endpoint ''10.0.0.1'' 80) fresh_link"
  let ?to = "peer sample_kernel ''10.0.0.1'' 80"
  obtain d1 where d1: "tcp_init sample_kernel ?d0 0 = Inr (0, d1, 4)" "filename d1 = filename ?d0" "fd d1 = 4"
    by (simp add: tcp_init_def sample_kernel_def Let_def set_recv_timeout_def set_send_timeout_def tcp_set_reuse_addr_def)
  have id: "dclass d1 = dclass ?d0" "is_init d1" "ref d1 = 0" "user_data d1 \<noteq> None"
    using tcp_init_frame [OF d1(1)] by (simp_all add: dev_frame)
  obtain l where l: "user_data d1 = Some l" using id(4) by blast
  have ops: "has_ops ?C d1 (tcp_device_ops sample_kernel)" using id(1) by (simp add: has_ops_class)
  have n: "addressed d1 ''10.0.0.1'' 80" using addressed_fresh [OF good_sample] d1(2) by (simp add: addressed_def)
  have k: "k_connect sample_kernel f a u = (0, Suc u)" "k_close sample_kernel f u = (0, Suc u)" for f a u
    by (simp_all add: sample_kernel_def)
  define d2 where "d2 = (set_link d1 (l\<lparr>server := ?to, status := CONNECTED_STATE\<rparr>))\<lparr>ref := 1\<rparr>"
  have start: "startup_device ?C d1 4 = Inr (0, d2, 5)"
    using tcp_open_addressed [OF l good_sample n k(1)] id(2,3) ops by (simp add: startup_device_def has_ops_fetch d2_def)
  have ops2: "has_ops ?C d2 (tcp_device_ops sample_kernel)" using ops by (simp add: d2_def has_ops_class [of d2 d1] has_ops_def ops_of_def)
  have p2: "is_init d2" "ref d2 = 1" "user_data d2 = Some (l\<lparr>server := ?to, status := CONNECTED_STATE\<rparr>)"
    using id(2) by (simp_all add: d2_def)
  define d3 where "d3 = set_link (d2\<lparr>ref := 0\<rparr>) (l\<lparr>server := ?to, status := CLOSED_STATE\<rparr>)"
  have stop: "stop_device ?C d2 5 = Inr (0, d3, 6)"
    using p2 by (simp add: stop_device_def has_ops_fetch [OF ops2] tcp_close_def k d3_def parent_def)
  note t = tcp_states [OF d1(1) ops]
  have "link_status d1 = Some ESTABLISHED_STATE" using t [OF rtranclp.rtrancl_refl] d1(3) by simp
  moreover have "link_status d2 = Some CONNECTED_STATE"
  proof -
    have "names_peer d1" using n endpoint_text [OF good_sample, of 80] split_endpoint_endpoint [OF good_sample, of 80]
      by (auto simp: names_peer_def addressed_def)
    then show ?thesis
      using t [OF rtranclp.rtrancl_refl] start id(2,3) by (auto simp: k connect_status_def)
  qed
  moreover have "link_status d3 = Some CLOSED_STATE"
    using t [OF r_into_rtranclp [where r = "api_step ?C", OF api_startup [OF start]]] stop id(2)
    by (auto simp: d2_def)
  ultimately show ?thesis using d1(1) start stop by blast
qed

end
