(* ===== verification/Udp_Driver.thy ===== *)
theory Udp_Driver
  imports Endpoint
begin

text \<open>
  The UDP class, \<open>src/class/ldal_udp.c\<close>: datagrams go to the configured peer, or, with the echo flag, to
  whoever sent the last one.
\<close>

section \<open>The driver\<close>

record ldal_udp_device =
  saddr :: sockaddr_in
  raddr :: sockaddr_in
  echo_flag :: bool

type_synonym udp_dev = "ldal_udp_device ldal_device"

definition set_udp :: "udp_dev \<Rightarrow> ldal_udp_device \<Rightarrow> udp_dev" where
  "set_udp dev link = dev\<lparr>user_data := Some link\<rparr>"

definition udp_set_reuse_addr :: "'w kernel \<Rightarrow> udp_dev \<Rightarrow> 'w \<Rightarrow> int \<times> 'w" where
  "udp_set_reuse_addr K dev w = k_setsockopt K (fd dev) SOL_SOCKET SO_REUSEADDR (Opt_Int 1) w"

definition udp_bind_to_device ::
    "'w kernel \<Rightarrow> udp_dev \<Rightarrow> string option \<Rightarrow> 'w \<Rightarrow> (int \<times> 'w) result" where
  "udp_bind_to_device K dev netdev w =
     (let (ret, w) = k_setsockopt K (fd dev) SOL_SOCKET SO_BINDTODEVICE (Opt_Ifname []) w in
      if ret < 0 then Inr (- LDAL_ERROR, w)
      else
        bind_res (ifr_name netdev) (\<lambda>nm.
        let (ret, w) = k_setsockopt K (fd dev) SOL_SOCKET SO_BINDTODEVICE (Opt_Ifname nm) w in
        if ret < 0 then Inr (- LDAL_ERROR, w) else Inr (LDAL_EOK, w)))"

definition udp_bind_local_addr ::
    "'w kernel \<Rightarrow> udp_dev \<Rightarrow> string option \<Rightarrow> u16 \<Rightarrow> 'w \<Rightarrow> (int \<times> udp_dev \<times> 'w) result" where
  "udp_bind_local_addr K dev ipaddr port w =
     (let addr = \<lparr>sin_family = AF_INET, sin_port = htons port,
                  sin_addr = (case ipaddr of None \<Rightarrow> 0 | Some s \<Rightarrow> k_inet_addr K s)\<rparr>;
          (ret, w) = k_bind K (fd dev) addr w
      in Inr (ret, dev, w))"

text \<open>Unlike the TCP class, there is no assertion on \<open>ipaddr\<close>: \<open>inet_addr\<close> dereferences it.\<close>

definition set_remote_addr ::
    "'w kernel \<Rightarrow> udp_dev \<Rightarrow> string option \<Rightarrow> u16 \<Rightarrow> udp_dev result" where
  "set_remote_addr K dev ipaddr port =
     bind_res (parent dev) (\<lambda>link.
     case ipaddr of
       None \<Rightarrow> Inl Null_Pointer
     | Some ip \<Rightarrow>
         let dev = set_udp dev (link\<lparr>saddr :=
               \<lparr>sin_family = AF_INET, sin_port = htons port, sin_addr = k_inet_addr K ip\<rparr>\<rparr>)
         in bind_res (copy_string (filename dev) (endpoint ip port)) (\<lambda>s.
            Inr (dev\<lparr>filename := s\<rparr>)))"

definition udp_connect_server_addr ::
    "'w kernel \<Rightarrow> udp_dev \<Rightarrow> string option \<Rightarrow> u16 \<Rightarrow> 'w \<Rightarrow> (int \<times> udp_dev \<times> 'w) result" where
  "udp_connect_server_addr K dev ipaddr port w =
     bind_res (inet_addr K ipaddr) (\<lambda>a.
     let addr = \<lparr>sin_family = AF_INET, sin_port = htons port, sin_addr = a\<rparr>;
         (r, w) = k_connect K (fd dev) addr w
     in if r = -1 then Inr (- LDAL_ERROR, dev, w)
        else bind_res (set_remote_addr K dev ipaddr port) (\<lambda>dev. Inr (LDAL_EOK, dev, w)))"

definition udp_import_ipaddr_from_filename ::
    "'w kernel \<Rightarrow> udp_dev \<Rightarrow> (int \<times> udp_dev) result" where
  "udp_import_ipaddr_from_filename K dev =
     bind_res (read_cstr (filename dev)) (\<lambda>ipstr.
     let (ipaddr, rest) = strtok (CHR '':'') ipstr;
         (port, _) = strtok (CHR '':'') rest
     in case (ipaddr, port) of
          (Some ipaddr, Some port) \<Rightarrow>
            bind_res (atoi port) (\<lambda>n.
            bind_res (set_remote_addr K dev (Some ipaddr) (word_of_int n)) (\<lambda>dev.
            Inr (LDAL_EOK, dev)))
        | _ \<Rightarrow> Inr (- LDAL_EINVAL, dev))"

definition udp_init :: "(ldal_udp_device, 'w) dev_call" where
  "udp_init dev w =
     bind_res (parent dev) (\<lambda>link. Inr (LDAL_EOK, set_udp dev (link\<lparr>echo_flag := False\<rparr>), w))"

definition udp_open :: "'w kernel \<Rightarrow> (ldal_udp_device, 'w) dev_call" where
  "udp_open K dev w =
     (let (h, w) = k_socket K (int AF_INET) SOCK_DGRAM 0 w; dev = dev\<lparr>fd := h\<rparr> in
      if fd dev < 0 then Inr (- LDAL_ERROR, dev, w)
      else bind_res (udp_import_ipaddr_from_filename K dev) (\<lambda>(_, dev). Inr (LDAL_EOK, dev, w)))"

definition udp_close :: "'w kernel \<Rightarrow> (ldal_udp_device, 'w) dev_call" where
  "udp_close K device w = (let (_, w) = k_close K (fd device) w in Inr (LDAL_EOK, device, w))"

text \<open>
  The kernel stores the sender's address in \<open>raddr\<close> and its length in \<open>addr_len\<close>, 0 when there is none,
  so that the copy to \<open>saddr\<close> is of the whole address or of nothing.
\<close>

definition udp_read :: "'w kernel \<Rightarrow> (ldal_udp_device, 'w) read_call" where
  "udp_read K dev buf len w =
     assert_ptr buf (\<lambda>b.
     bind_res (parent dev) (\<lambda>link.
     let (n, data, from, w) = k_recvfrom K (fd dev) (unat len) 0 w; ret = to_int n;
         link = (case from of None \<Rightarrow> link | Some a \<Rightarrow> link\<lparr>raddr := a\<rparr>)
     in bind_res (store_reply b n data) (\<lambda>b.
        if ret = -1 then Inr (- LDAL_ERROR, Some b, set_udp dev link, w)
        else
          let link = (if echo_flag link \<and> from \<noteq> None then link\<lparr>saddr := raddr link\<rparr> else link)
          in Inr (LDAL_EOK, Some b, set_udp dev link, w))))"

definition udp_write :: "'w kernel \<Rightarrow> (ldal_udp_device, 'w) write_call" where
  "udp_write K dev buf len w =
     assert_ptr buf (\<lambda>b.
     bind_res (parent dev) (\<lambda>link.
     if length b < unat len then Inl Out_Of_Bounds
     else
       let (n, w) = k_sendto K (fd dev) (take (unat len) b) 0 (saddr link) w; ret = to_int n in
       if ret = -1 then Inr (- LDAL_ERROR, dev, w) else Inr (LDAL_EOK, dev, w)))"

definition udp_control :: "'w kernel \<Rightarrow> (ldal_udp_device, 'w) control_call" where
  "udp_control K dev cmd arg w =
     (if cmd = SOCKET_SET_REUSEADDR then
        let (_, w) = udp_set_reuse_addr K dev w in Inr (0, arg, dev, w)
      else if cmd = SOCKET_SET_NETDEV then
        bind_res (arg_string arg) (\<lambda>ifname.
        bind_res (udp_bind_to_device K dev ifname w) (\<lambda>(_, w). Inr (0, arg, dev, w)))
      else if cmd = SOCKET_GET_RECVADDR then
        (case arg of
           Arg_Null \<Rightarrow> Inr (- LDAL_EINVAL, arg, dev, w)
         | Arg_Addr _ \<Rightarrow>
             bind_res (parent dev) (\<lambda>link. Inr (- LDAL_EINVAL, Arg_Addr (raddr link), dev, w))
         | _ \<Rightarrow> Inl Bad_Cast)
      else if cmd = SOCKET_SET_ECHO_FLAG then
        bind_res (arg_value arg) (\<lambda>v.
        bind_res (parent dev) (\<lambda>link.
        Inr (LDAL_EOK, arg, set_udp dev (link\<lparr>echo_flag := v \<noteq> 0\<rparr>), w)))
      else Inr (- LDAL_EINVAL, arg, dev, w))"

definition udp_device_ops :: "'w kernel \<Rightarrow> (ldal_udp_device, 'w) device_ops" where
  "udp_device_ops K = no_ops
     \<lparr>op_init := Some udp_init, op_open := Some (udp_open K), op_close := Some (udp_close K),
      op_read := Some (udp_read K), op_write := Some (udp_write K),
      op_control := Some (udp_control K), op_bind := Some (udp_bind_local_addr K),
      op_connect := Some (udp_connect_server_addr K)\<rparr>"

section \<open>Frames\<close>

lemma set_udp_simps [simp]:
  "user_data (set_udp d l) = Some l" "fd (set_udp d l) = fd d" "filename (set_udp d l) = filename d"
  "dclass (set_udp d l) = dclass d" "mutex (set_udp d l) = mutex d"
  "set_udp (set_udp d l) l' = set_udp d l'"
  by (simp_all add: set_udp_def)

lemma dev_id_set_udp: "user_data d \<noteq> None \<Longrightarrow> dev_id (set_udp d l) = dev_id d"
  by (simp add: dev_frame set_udp_def)

lemma dev_id_updates [simp]: "dev_id (d\<lparr>fd := h\<rparr>) = dev_id d" "dev_id (d\<lparr>filename := s\<rparr>) = dev_id d"
  by (simp_all add: dev_frame)

lemma set_remote_addr_frame: "set_remote_addr K d ip port = Inr d' \<Longrightarrow> dev_id d' = dev_id d"
  by (auto simp: set_remote_addr_def parent_Inr Let_def dev_id_set_udp split: option.splits)

lemma udp_import_split:
  "udp_import_ipaddr_from_filename K d =
      bind_res (read_cstr (filename d)) (\<lambda>s.
      case split_endpoint s of
        None \<Rightarrow> Inr (- LDAL_EINVAL, d)
      | Some (ip, port) \<Rightarrow>
          bind_res (atoi port) (\<lambda>n.
          bind_res (set_remote_addr K d (Some ip) (word_of_int n)) (\<lambda>d. Inr (LDAL_EOK, d))))"
  by (auto simp: udp_import_ipaddr_from_filename_def split_endpoint_def case_prod_unfold Let_def
      intro!: bind_res_cong split: option.splits)

lemma udp_import_frame: "udp_import_ipaddr_from_filename K d = Inr (r, d') \<Longrightarrow> dev_id d' = dev_id d"
  by (auto simp: udp_import_split split: option.splits dest!: set_remote_addr_frame)

lemma udp_init_frame: "udp_init d w = Inr (r, d', w') \<Longrightarrow> dev_id d' = dev_id d"
  by (auto simp: udp_init_def parent_Inr dev_id_set_udp)

lemma udp_open_frame: "udp_open K d w = Inr (r, d', w') \<Longrightarrow> dev_id d' = dev_id d"
  by (auto simp: udp_open_def case_prod_unfold Let_def split: if_splits dest!: udp_import_frame)

lemma udp_close_frame: "udp_close K d w = Inr (r, d', w') \<Longrightarrow> d' = d"
  by (auto simp: udp_close_def case_prod_unfold)

lemma udp_read_frame: "udp_read K d buf len w = Inr (r, buf', d', w') \<Longrightarrow> dev_id d' = dev_id d"
  by (auto simp: udp_read_def assert_ptr_Inr parent_Inr Let_def case_prod_unfold dev_id_set_udp
      split: if_split_asm)

lemma udp_write_frame: "udp_write K d buf len w = Inr (r, d', w') \<Longrightarrow> d' = d"
  by (auto simp: udp_write_def assert_ptr_Inr parent_Inr Let_def case_prod_unfold split: if_splits)

lemma udp_control_frame: "udp_control K d cmd arg w = Inr (r, arg', d', w') \<Longrightarrow> dev_id d' = dev_id d"
  by (auto simp: udp_control_def parent_Inr Let_def case_prod_unfold dev_id_set_udp
      split: if_splits ctrl_arg.splits)

lemma udp_bind_frame: "udp_bind_local_addr K d ip port w = Inr (r, d', w') \<Longrightarrow> d' = d"
  by (auto simp: udp_bind_local_addr_def Let_def case_prod_unfold)

lemma udp_connect_frame:
  "udp_connect_server_addr K d ip port w = Inr (r, d', w') \<Longrightarrow> dev_id d' = dev_id d"
  by (auto simp: udp_connect_server_addr_def Let_def case_prod_unfold split: if_splits
      dest!: set_remote_addr_frame)

lemma udp_table [simp]:
  "op_init (udp_device_ops K) = Some udp_init" "op_open (udp_device_ops K) = Some (udp_open K)"
  "op_close (udp_device_ops K) = Some (udp_close K)" "op_read (udp_device_ops K) = Some (udp_read K)"
  "op_write (udp_device_ops K) = Some (udp_write K)"
  "op_control (udp_device_ops K) = Some (udp_control K)"
  "op_bind (udp_device_ops K) = Some (udp_bind_local_addr K)"
  "op_connect (udp_device_ops K) = Some (udp_connect_server_addr K)"
  "op_check (udp_device_ops K) = None"
  by (simp_all add: udp_device_ops_def no_ops_def)

interpretation udp_drv: driver "udp_device_ops K" for K
proof
qed (auto dest: udp_init_frame udp_open_frame udp_close_frame udp_read_frame udp_write_frame
    udp_control_frame udp_bind_frame udp_connect_frame)

section \<open>The address contract\<close>

definition udp_record_addr :: "'w kernel \<Rightarrow> string \<Rightarrow> u16 \<Rightarrow> udp_dev \<Rightarrow> udp_dev" where
  "udp_record_addr K ip port d =
     d\<lparr>user_data := map_option (\<lambda>link. link\<lparr>saddr :=
         \<lparr>sin_family = AF_INET, sin_port = htons port, sin_addr = k_inet_addr K ip\<rparr>\<rparr>) (user_data d)\<rparr>"

interpretation udp_addr: endpoint_store "udp_record_addr K" "set_remote_addr K"
  "udp_import_ipaddr_from_filename K" for K
proof
  fix d :: udp_dev and ip port
  assume "user_data d \<noteq> None"
  then show "set_remote_addr K d (Some ip) port =
      bind_res (copy_string (filename d) (endpoint ip port)) (\<lambda>s.
      Inr ((udp_record_addr K ip port d)\<lparr>filename := s\<rparr>))"
    by (auto simp: set_remote_addr_def udp_record_addr_def set_udp_def parent_def Let_def)
next
  fix d :: udp_dev
  show "udp_import_ipaddr_from_filename K d =
      bind_res (read_cstr (filename d)) (\<lambda>s.
      case split_endpoint s of
        None \<Rightarrow> Inr (- LDAL_EINVAL, d)
      | Some (ip, port) \<Rightarrow>
          bind_res (atoi port) (\<lambda>n.
          bind_res (set_remote_addr K d (Some ip) (word_of_int n)) (\<lambda>d. Inr (LDAL_EOK, d))))"
    by (rule udp_import_split)
next
  fix d :: udp_dev and ip port
  show "udp_record_addr K ip port (udp_record_addr K ip port d) = udp_record_addr K ip port d"
    by (cases d; cases "user_data d") (auto simp: udp_record_addr_def)
qed (auto simp: udp_record_addr_def)

section \<open>Properties\<close>

lemma udp_dispatch:
  assumes "has_ops cls d (udp_device_ops K)" "\<not> mutex d"
  shows "read_device cls d buf len w =
      bind_res (udp_read K (d\<lparr>mutex := True\<rparr>) buf len w) (\<lambda>(ret, buf, d, w).
      Inr (ret, buf, mutex_unlock d, w))"
    "write_device cls d buf len w =
      bind_res (udp_write K (d\<lparr>mutex := True\<rparr>) buf len w) (\<lambda>(ret, d, w).
      Inr (ret, mutex_unlock d, w))"
    "control_device cls d cmd arg w =
      bind_res (udp_control K (d\<lparr>mutex := True\<rparr>) cmd arg w) (\<lambda>(ret, arg, d, w).
      Inr (ret, arg, mutex_unlock d, w))"
    "connect_server_addr cls d ip port w =
      bind_res (udp_connect_server_addr K (d\<lparr>mutex := True\<rparr>) ip port w) (\<lambda>(ret, d, w).
      Inr (ret, mutex_unlock d, w))"
  using assms has_ops_class [of "d\<lparr>mutex := True\<rparr>" d cls "udp_device_ops K"]
  by (simp_all add: read_device_def write_device_def control_device_def connect_server_addr_def mutex_lock_def
      has_ops_fetch)

lemma unlock_udp:
  "\<not> mutex d \<Longrightarrow> mutex_unlock (set_udp (d\<lparr>mutex := True\<rparr>) l) = set_udp d l"
  "\<not> mutex d \<Longrightarrow> mutex_unlock (d\<lparr>mutex := True\<rparr>) = d"
  by (cases d; simp add: mutex_unlock_def set_udp_def)+

text \<open>
  With the echo flag set, a datagram received from an address makes that address the
  destination of the next write; without it, the destination stays the configured one.
\<close>
theorem udp_echo:
  fixes K :: "'w kernel"
  assumes d: "has_ops cls d (udp_device_ops K)" "\<not> mutex d" "user_data d = Some l"
    and recv: "k_recvfrom K (fd d) (unat len) 0 w = (n, data, Some a, w1)" "reply_ok (unat len) n data"
      "n \<noteq> -1" "unat len \<le> length buf" "unat len < 2 ^ 31"
    and send: "k_sendto K (fd d) out 0 (if echo_flag l then a else saddr l) w1 = (m, w2)" "in_int m"
      "length out = unat olen"
  shows "\<exists>d1. read_device cls d (Some buf) len w =
      Inr (LDAL_EOK, Some (data @ drop (length data) buf), d1, w1) \<and>
    map_option raddr (user_data d1) = Some a \<and>
    write_device cls d1 (Some out) olen w1 =
      Inr (if m = -1 then - LDAL_ERROR else LDAL_EOK, d1, w2)"
proof -
  define l1 where "l1 = (if echo_flag l then l\<lparr>raddr := a, saddr := a\<rparr> else l\<lparr>raddr := a\<rparr>)"
  define d1 where "d1 = set_udp d l1"
  have d1: "\<not> mutex d1" "user_data d1 = Some l1" "fd d1 = fd d" "has_ops cls d1 (udp_device_ops K)"
    using d has_ops_class [of d1 d cls "udp_device_ops K"] by (simp_all add: d1_def)
  have "in_int n" using recv(2,5) by (auto simp: reply_ok_def in_int_def)
  then have "read_device cls d (Some buf) len w =
      Inr (LDAL_EOK, Some (data @ drop (length data) buf), d1, w1)"
    using d(2,3) recv store_reply_ok [OF recv(2,4)] unfolding udp_dispatch(1) [OF d(1,2)]
    by (simp add: udp_read_def unlock_udp d1_def l1_def)
  moreover have "saddr l1 = (if echo_flag l then a else saddr l)" by (simp add: l1_def)
  then have "write_device cls d1 (Some out) olen w1 =
      Inr (if m = -1 then - LDAL_ERROR else LDAL_EOK, d1, w2)"
    using d1 send unfolding udp_dispatch(2) [OF d1(4,1)] by (simp add: udp_write_def unlock_udp)
  ultimately show ?thesis using d1(2) by (intro exI [of _ d1]) (simp add: l1_def)
qed

definition udp_sample :: udp_dev where
  "udp_sample = fresh_device ''u'' ''any''
     \<lparr>saddr = \<lparr>sin_family = 2, sin_port = 0, sin_addr = 0\<rparr>,
      raddr = \<lparr>sin_family = 2, sin_port = 0, sin_addr = 0\<rparr>, echo_flag = True\<rparr>"

lemma udp_echo_witness:
  "\<exists>d1. read_device (single_class (udp_device_ops (sample_kernel\<lparr>k_recvfrom := \<lambda>_ _ _ w.
        (1, [42], Some \<lparr>sin_family = 2, sin_port = 7, sin_addr = 9\<rparr>, w)\<rparr>))) udp_sample (Some [0]) 1 0 =
      Inr (LDAL_EOK, Some [42], d1, 0) \<and>
    map_option raddr (user_data d1) = Some \<lparr>sin_family = 2, sin_port = 7, sin_addr = 9\<rparr>"
  using udp_echo [of "single_class (udp_device_ops (sample_kernel\<lparr>k_recvfrom := \<lambda>_ _ _ w.
        (1, [42], Some \<lparr>sin_family = 2, sin_port = 7, sin_addr = 9\<rparr>, w)\<rparr>))" udp_sample
      "sample_kernel\<lparr>k_recvfrom := \<lambda>_ _ _ w.
        (1, [42], Some \<lparr>sin_family = 2, sin_port = 7, sin_addr = 9\<rparr>, w)\<rparr>"
      _ 1 0 1 "[42]" "\<lparr>sin_family = 2, sin_port = 7, sin_addr = 9\<rparr>" 0 "[0]" "[1]" 1 1 1]
  by (auto simp: sample_kernel_def reply_ok_def udp_sample_def)

text \<open>
  Property C39. The peer of a UDP device is kept in its file name. Connecting a device to a peer succeeds when the kernel
  accepts it and leaves \<open>"address:port"\<close> in the file name; any UDP device with this file name, whatever address
  it had before, has this peer after it has been started on a new socket, and what is then written to it is sent there. This
  holds for every port and every address text of up to 57 characters without a colon.
\<close>
theorem udp_address_roundtrip:
  fixes K :: "'w kernel"
  assumes d: "has_ops cls d (udp_device_ops K)" "\<not> mutex d" "user_data d = Some l" "good_ip ip"
      "length (filename d) = LDAL_FILENAME_MAX"
    and to: "to = \<lparr>sin_family = AF_INET, sin_port = htons port, sin_addr = k_inet_addr K ip\<rparr>"
    and conn: "k_connect K (fd d) to w = (r, w1)" "r \<noteq> -1"
    and e: "has_ops cls e (udp_device_ops K)" "\<not> mutex e" "user_data e = Some l'" "is_init e" "ref e = 0"
      "k_socket K (int AF_INET) SOCK_DGRAM 0 v = (h, v1)" "0 \<le> h"
  shows "\<exists>d'. connect_server_addr cls d (Some ip) port w = Inr (LDAL_EOK, d', w1) \<and>
    read_cstr (filename d') = Inr (endpoint ip port) \<and>
    (filename e = filename d' \<longrightarrow> (\<exists>e'. startup_device cls e v = Inr (LDAL_EOK, e', v1) \<and>
      user_data e' = Some (l'\<lparr>saddr := to\<rparr>) \<and> fd e' = h \<and> ref e' = 1 \<and> filename e' = filename e \<and>
      (\<forall>out u n u1. k_sendto K h out 0 to u = (n, u1) \<and> in_int n \<and> length out < 2 ^ 64 \<longrightarrow>
        write_device cls e' (Some out) (word_of_nat (length out)) u =
          Inr (if n = -1 then - LDAL_ERROR else LDAL_EOK, e', u1))))"
proof -
  define d1 where "d1 = d\<lparr>mutex := True\<rparr>"
  have d1: "user_data d1 \<noteq> None" "length (filename d1) = LDAL_FILENAME_MAX" "fd d1 = fd d"
    using d(3,5) by (simp_all add: d1_def)
  obtain d2 where set: "set_remote_addr K d1 (Some ip) port = Inr d2"
    "d2 = (udp_record_addr K ip port d1)
       \<lparr>filename := endpoint ip port @ NUL # drop (Suc (length (endpoint ip port))) (filename d1)\<rparr>"
    by (rule udp_addr.set_result [OF d1(1) d(4) d1(2)])
  have "udp_connect_server_addr K d1 (Some ip) port w = Inr (LDAL_EOK, d2, w1)"
    using conn set(1) d1(3) by (simp add: udp_connect_server_addr_def Let_def flip: to)
  then have c: "connect_server_addr cls d (Some ip) port w = Inr (LDAL_EOK, mutex_unlock d2, w1)"
    using d(2) by (simp add: udp_dispatch(4) [OF d(1,2)] flip: d1_def)
  have f: "filename (mutex_unlock d2) = endpoint ip port @ NUL # drop (Suc (length (endpoint ip port))) (filename d1)"
    by (simp add: set(2) mutex_unlock_def)
  define e1 where "e1 = (udp_record_addr K ip port (e\<lparr>fd := h\<rparr>))\<lparr>ref := 1\<rparr>"
  have e1: "user_data e1 = Some (l'\<lparr>saddr := to\<rparr>)" "fd e1 = h" "ref e1 = 1" "filename e1 = filename e"
    "\<not> mutex e1" "has_ops cls e1 (udp_device_ops K)"
    using e(1-3) has_ops_class [of e1 e cls "udp_device_ops K"] by (simp_all add: e1_def udp_record_addr_def to)
  have open_ok: "startup_device cls e v = Inr (LDAL_EOK, e1, v1)" if "filename e = filename (mutex_unlock d2)"
  proof -
    have "udp_import_ipaddr_from_filename K (e\<lparr>fd := h\<rparr>) = Inr (LDAL_EOK, udp_record_addr K ip port (e\<lparr>fd := h\<rparr>))"
      by (rule udp_addr.import_named [OF _ d(4)]) (use e(3) that f in simp_all)
    then show ?thesis
      using e by (simp add: startup_device_def has_ops_fetch udp_open_def e1_def udp_record_addr_def)
  qed
  have send: "write_device cls e1 (Some out) (word_of_nat (length out)) u =
      Inr (if n = -1 then - LDAL_ERROR else LDAL_EOK, e1, u1)"
    if "k_sendto K h out 0 to u = (n, u1)" "in_int n" "length out < 2 ^ 64" for out u n u1
  proof -
    have "unat (word_of_nat (length out) :: size_t) = length out"
      by (rule word_of_nat_unat_small) (use that(3) in simp)
    then show ?thesis
      using that(1,2) e1 unfolding udp_dispatch(2) [OF e1(6,5)] by (simp add: udp_write_def unlock_udp)
  qed
  have "read_cstr (filename (mutex_unlock d2)) = Inr (endpoint ip port)"
    using endpoint_text(1) [OF d(4), of port] by (simp add: f)
  with c open_ok send e1 show ?thesis by blast
qed

lemma udp_address_roundtrip_witness:
  "\<exists>d' e'. connect_server_addr (single_class (udp_device_ops sample_kernel)) udp_sample (Some ''10.0.0.1'') 65535 0 =
      Inr (LDAL_EOK, d', 1) \<and>
    startup_device (single_class (udp_device_ops sample_kernel)) (udp_sample\<lparr>filename := filename d'\<rparr>) 7 =
      Inr (LDAL_EOK, e', 8) \<and>
    map_option saddr (user_data e') = Some \<lparr>sin_family = 2, sin_port = 0xFFFF, sin_addr = 0x0100007F\<rparr>"
proof -
  let ?C = "single_class (udp_device_ops sample_kernel)"
  let ?to = "\<lparr>sin_family = AF_INET, sin_port = htons 65535, sin_addr = k_inet_addr sample_kernel ''10.0.0.1''\<rparr>"
  obtain l where l: "user_data udp_sample = Some l" by (simp add: udp_sample_def)
  have d: "has_ops ?C udp_sample (udp_device_ops sample_kernel)" "\<not> mutex udp_sample" "is_init udp_sample" "ref udp_sample = 0"
    by (simp_all add: udp_sample_def)
  have ops: "has_ops ?C (udp_sample\<lparr>filename := s\<rparr>) (udp_device_ops sample_kernel)" for s
    by (rule has_ops_class [THEN iffD2, OF _ d(1)]) simp
  have g: "good_ip ''10.0.0.1''" "length (filename udp_sample) = LDAL_FILENAME_MAX"
    by (simp_all add: udp_sample_def good_ip_def NUL_def fresh_device_def)
  have k: "k_connect sample_kernel (fd udp_sample) ?to 0 = (0, 1)" "k_socket sample_kernel (int AF_INET) SOCK_DGRAM 0 7 = (4, 8)"
    by (simp_all add: sample_kernel_def)
  have "htons 65535 = (0xFFFF :: u16)" by code_simp
  then have to: "?to = \<lparr>sin_family = 2, sin_port = 0xFFFF, sin_addr = 0x0100007F\<rparr>"
    by (simp add: sample_kernel_def AF_INET_def)
  note r = udp_address_roundtrip [OF d(1,2) l g refl k(1), of "udp_sample\<lparr>filename := s\<rparr>" l 7 4 8 for s,
      OF _ ops]
  obtain d' where d': "connect_server_addr ?C udp_sample (Some ''10.0.0.1'') 65535 0 = Inr (LDAL_EOK, d', 1)"
    using r [of "[]"] d l k(2) by auto
  show ?thesis
    using r [of "filename d'"] d d' l k(2) by (auto simp: to)
qed

text \<open>
  Asking a UDP device for the sender of the last datagram stores that address for the
  caller and yet always answers \<open>-LDAL_EINVAL\<close>, as for a null argument.
\<close>
theorem udp_recvaddr_fails:
  assumes "has_ops cls d (udp_device_ops K)" "\<not> mutex d" "user_data d = Some l"
  shows "control_device cls d SOCKET_GET_RECVADDR (Arg_Addr a) w =
      Inr (- LDAL_EINVAL, Arg_Addr (raddr l), d, w) \<and>
    control_device cls d SOCKET_GET_RECVADDR Arg_Null w = Inr (- LDAL_EINVAL, Arg_Null, d, w)"
  using assms(2,3) unfolding udp_dispatch(3) [OF assms(1,2)]
  by (simp add: udp_control_def socket_cmds unlock_udp)

lemma udp_recvaddr_fails_witness:
  "control_device (single_class (udp_device_ops sample_kernel)) udp_sample SOCKET_GET_RECVADDR Arg_Null 0 =
     Inr (-10, Arg_Null, udp_sample, 0)"
  using udp_recvaddr_fails [of "single_class (udp_device_ops sample_kernel)" udp_sample sample_kernel]
  by (simp add: udp_sample_def)

end
