(* ===== verification/Serial_Driver.thy ===== *)
theory Serial_Driver
  imports Ldal_Device
begin

text \<open>
  The serial port class, \<open>src/class/ldal_serial.c\<close>: the translation between \<open>struct port_option\<close> and the
  flag words of \<open>struct termios\<close>, the read loop with its timeout, and the opening of a port. The speed
  functions of the C library are those of glibc on Linux, which keeps the speed in \<open>c_cflag\<close>.
\<close>

section \<open>Terminal flags\<close>

definition CBAUD :: u32 where "CBAUD = 0x100F"
definition CSIZE :: u32 where "CSIZE = 0x30"
definition CS5 :: u32 where "CS5 = 0"
definition CS6 :: u32 where "CS6 = 0x10"
definition CS7 :: u32 where "CS7 = 0x20"
definition CS8 :: u32 where "CS8 = 0x30"
definition CSTOPB :: u32 where "CSTOPB = 0x40"
definition CREAD :: u32 where "CREAD = 0x80"
definition PARENB :: u32 where "PARENB = 0x100"
definition PARODD :: u32 where "PARODD = 0x200"
definition CLOCAL :: u32 where "CLOCAL = 0x800"
definition CRTSCTS :: u32 where "CRTSCTS = 0x80000000"
definition IBAUD0 :: u32 where "IBAUD0 = 0x80000000"
definition B115200 :: u32 where "B115200 = 0x1002"
definition TCIOFLUSH :: int where "TCIOFLUSH = 2"
definition FD_SETSIZE :: int where "FD_SETSIZE = 1024"

lemmas term_flags =
  CBAUD_def CSIZE_def CS5_def CS6_def CS7_def CS8_def CSTOPB_def CREAD_def PARENB_def PARODD_def
  CLOCAL_def CRTSCTS_def IBAUD0_def B115200_def

text \<open>A speed is valid if its bits are those of \<open>CBAUD\<close>; an invalid one is refused.\<close>

definition valid_speed :: "u32 \<Rightarrow> bool" where
  "valid_speed speed \<longleftrightarrow> speed AND NOT CBAUD = 0"

definition cfsetispeed :: "termios \<Rightarrow> u32 \<Rightarrow> termios" where
  "cfsetispeed t speed =
     (if \<not> valid_speed speed then t
      else if speed = 0 then t\<lparr>c_iflag := c_iflag t OR IBAUD0\<rparr>
      else t\<lparr>c_iflag := c_iflag t AND NOT IBAUD0, c_cflag := (c_cflag t AND NOT CBAUD) OR speed\<rparr>)"

definition cfsetospeed :: "termios \<Rightarrow> u32 \<Rightarrow> termios" where
  "cfsetospeed t speed =
     (if \<not> valid_speed speed then t else t\<lparr>c_cflag := (c_cflag t AND NOT CBAUD) OR speed\<rparr>)"

definition cfgetispeed :: "termios \<Rightarrow> u32" where
  "cfgetispeed t = (if c_iflag t AND IBAUD0 \<noteq> 0 then 0 else c_cflag t AND CBAUD)"

section \<open>The driver\<close>

definition SERIAL_SET_TIMEOUT :: int where "SERIAL_SET_TIMEOUT = 0x101"
definition SERIAL_SET_OPTIONS :: int where "SERIAL_SET_OPTIONS = 0x102"
definition SERIAL_GET_OPTIONS :: int where "SERIAL_GET_OPTIONS = 0x103"

definition PAR_NONE :: u32 where "PAR_NONE = 0"
definition PAR_EVEN :: u32 where "PAR_EVEN = 1"
definition PAR_ODD :: u32 where "PAR_ODD = 2"
definition BITS_1P0 :: u32 where "BITS_1P0 = 1"
definition BITS_1P5 :: u32 where "BITS_1P5 = 0"
definition BITS_2P0 :: u32 where "BITS_2P0 = 2"

lemmas port_codes = PAR_NONE_def PAR_EVEN_def PAR_ODD_def BITS_1P0_def BITS_1P5_def BITS_2P0_def

lemmas serial_commands = SERIAL_SET_TIMEOUT_def SERIAL_SET_OPTIONS_def SERIAL_GET_OPTIONS_def

record ldal_serial_device =
  ser_status :: int
  ser_timeout :: u32
  ser_opt :: port_option

definition set_serial_options :: "termios \<Rightarrow> port_option \<Rightarrow> termios" where
  "set_serial_options options opt =
     (let options = cfsetispeed options (baudrate opt);
          options = cfsetospeed options (baudrate opt);
          c = c_cflag options;
          c = (if data_bits opt = 8 then (c AND NOT CSIZE) OR CS8
               else if data_bits opt = 7 then (c AND NOT CSIZE) OR CS7
               else if data_bits opt = 6 then (c AND NOT CSIZE) OR CS6
               else if data_bits opt = 5 then (c AND NOT CSIZE) OR CS5
               else c);
          c = (if parity opt = PAR_NONE then c AND NOT PARENB
               else if parity opt = PAR_ODD then (c OR PARENB) OR PARODD
               else if parity opt = PAR_EVEN then (c OR PARENB) AND NOT PARODD
               else c);
          c = (if stop_bits opt = BITS_1P0 then c AND NOT CSTOPB
               else if stop_bits opt = BITS_1P5 then c
               else if stop_bits opt = BITS_2P0 then c OR CSTOPB
               else c);
          c = (if flowctrl opt \<noteq> 0 then c OR CRTSCTS else c AND NOT CRTSCTS)
      in options\<lparr>c_cflag := c\<rparr>)"

definition get_serial_options :: "termios \<Rightarrow> port_option \<Rightarrow> port_option" where
  "get_serial_options options opt =
     (let c = c_cflag options; sz = c AND CSIZE in
      opt\<lparr>baudrate := cfgetispeed options,
          data_bits := (if sz = CS5 then 5 else if sz = CS6 then 6 else if sz = CS7 then 7
                        else if sz = CS8 then 8 else data_bits opt),
          parity := (if c AND PARENB \<noteq> 0 then if c AND PARODD \<noteq> 0 then PAR_ODD else PAR_EVEN
                     else PAR_NONE),
          stop_bits := (if c AND CSTOPB \<noteq> 0 then BITS_2P0 else BITS_1P0),
          flowctrl := (if c AND CRTSCTS \<noteq> 0 then 1 else 0)\<rparr>)"

definition serial_default_config :: "'w kernel \<Rightarrow> int \<Rightarrow> 'w \<Rightarrow> int \<times> 'w" where
  "serial_default_config K f w =
     (let (_, _, w) = k_tcgetattr K f w;
          new_tio = \<lparr>c_iflag = 0, c_oflag = 0, c_cflag = B115200 OR CS8 OR CLOCAL OR CREAD,
                     c_lflag = 0, c_vtime = 0, c_vmin = 1\<rparr>;
          (_, w) = k_tcflush K f TCIOFLUSH w;
          (_, w) = k_tcsetattr K f new_tio w;
          (_, w) = k_fcntl K f F_SETFL (int O_NONBLOCK) w
      in (f, w))"

text \<open>The terminal test is on the standard input, descriptor 0, not on the port.\<close>

definition serial_open :: "'w kernel \<Rightarrow> ('p, 'w) dev_call" where
  "serial_open K device w =
     bind_res (read_cstr (filename device)) (\<lambda>path.
     let (h, w) = k_open K path (O_RDWR OR O_NOCTTY OR O_NDELAY) 0 w; device = device\<lparr>fd := h\<rparr> in
     if fd device = -1 then Inr (- LDAL_ERROR, device, w)
     else
       let (r, w) = k_fcntl K (fd device) F_SETFL 0 w in
       if r < 0 then Inr (- LDAL_ERROR, device, w)
       else
         let (_, w) = k_fcntl K (fd device) F_SETFL 0 w in
         if k_isatty K 0 w = 0 then Inr (- LDAL_ERROR, device, w)
         else
           let (_, w) = serial_default_config K (fd device) w in Inr (LDAL_EOK, device, w))"

definition serial_close :: "'w kernel \<Rightarrow> ('p, 'w) dev_call" where
  "serial_close K device w = (let (_, w) = k_close K (fd device) w in Inr (LDAL_EOK, device, w))"

text \<open>
  The loop over \<open>read\<close>, with the number of tries that are left: an error after some bytes have come is
  tried again, an error before is the result. \<open>len > size\<close> compares as \<open>size_t\<close>.
\<close>

fun read_tries ::
    "'w kernel \<Rightarrow> int \<Rightarrow> size_t \<Rightarrow> nat \<Rightarrow> byte list \<Rightarrow> int \<Rightarrow> 'w \<Rightarrow> (int \<times> byte list \<times> 'w) result" where
  "read_tries K f len 0 buf sz w = Inr (sz, buf, w)"
| "read_tries K f len (Suc n) buf sz w =
     (if word_of_int sz < len then
        let (ret, data, w) = k_read K f (unat (len - word_of_int sz)) w; tmp = to_int ret in
        bind_res (if ret \<le> 0 then Inr buf else memcpy buf sz data 0 ret) (\<lambda>buf.
        if 0 < tmp then bind_res (c_add sz tmp) (\<lambda>sz. read_tries K f len n buf sz w)
        else if tmp = 0 then Inr (sz, buf, w)
        else if sz = 0 then Inr (tmp, buf, w)
        else read_tries K f len n buf sz w)
      else Inr (sz, buf, w))"

text \<open>\<open>FD_SET\<close> writes outside the set for a descriptor that is not below \<open>FD_SETSIZE\<close>.\<close>

definition serial_read :: "'w kernel \<Rightarrow> (ldal_serial_device, 'w) read_call" where
  "serial_read K dev buf len w =
     (if fd dev < 0 \<or> FD_SETSIZE \<le> fd dev then Inl Out_Of_Bounds
      else
        bind_res (parent dev) (\<lambda>serial.
        let t = uint (ser_timeout serial);
            wait_time = (if 0 < t then Some (t div 1000, t mod 1000 * 1000) else None);
            (select_r, isset, w) = k_select K (fd dev) wait_time w
        in
        if select_r \<le> 0 then
          Inr (if select_r = 0 then - LDAL_ETIMEOUT else - LDAL_ERROR, buf, dev, w)
        else if isset then
          bind_res (read_tries K (fd dev) len 5 (case_option [] id buf) 0 w) (\<lambda>(size, b, w).
          Inr (size, map_option (\<lambda>_. b) buf, dev, w))
        else Inr (0, buf, dev, w)))"

definition serial_write :: "'w kernel \<Rightarrow> ('p, 'w) write_call" where
  "serial_write K device buf len w =
     bind_res (sys_write K (fd device) (case_option [] id buf) len w) (\<lambda>(ret, w). Inr (ret, device, w))"

definition serial_control :: "'w kernel \<Rightarrow> (ldal_serial_device, 'w) control_call" where
  "serial_control K dev cmd arg w =
     (if cmd = SERIAL_GET_OPTIONS then
        (case arg of
           Arg_Null \<Rightarrow> Inr (- LDAL_EINVAL, arg, dev, w)
         | Arg_Port opt \<Rightarrow>
             (let (r, options, w) = k_tcgetattr K (fd dev) w in
              if r < 0 then Inr (- LDAL_ERROR, arg, dev, w)
              else Inr (LDAL_EOK, Arg_Port (get_serial_options options opt), dev, w))
         | _ \<Rightarrow> Inl Bad_Cast)
      else if cmd = SERIAL_SET_OPTIONS then
        (case arg of
           Arg_Null \<Rightarrow> Inr (- LDAL_EINVAL, arg, dev, w)
         | Arg_Port opt \<Rightarrow>
             (let (r, options, w) = k_tcgetattr K (fd dev) w in
              if r < 0 then Inr (- LDAL_ERROR, arg, dev, w)
              else
                let options = set_serial_options options opt;
                    (_, w) = k_tcflush K (fd dev) TCIOFLUSH w;
                    (r, w) = k_tcsetattr K (fd dev) options w
                in if r < 0 then Inr (- LDAL_ERROR, arg, dev, w)
                   else
                     bind_res (parent dev) (\<lambda>serial.
                     Inr (LDAL_EOK, arg, dev\<lparr>user_data := Some (serial\<lparr>ser_opt := opt\<rparr>)\<rparr>, w)))
         | _ \<Rightarrow> Inl Bad_Cast)
      else if cmd = SERIAL_SET_TIMEOUT then
        bind_res (case arg of Arg_Null \<Rightarrow> Inr 0 | Arg_Value v \<Rightarrow> Inr v | _ \<Rightarrow> Inl Bad_Cast) (\<lambda>v.
        bind_res (parent dev) (\<lambda>serial.
        Inr (LDAL_EOK, arg, dev\<lparr>user_data := Some (serial\<lparr>ser_timeout := ucast v\<rparr>)\<rparr>, w)))
      else Inr (- LDAL_EINVAL, arg, dev, w))"

definition serial_init :: "(ldal_serial_device, 'w) dev_call" where
  "serial_init dev w =
     bind_res (parent dev) (\<lambda>serial.
     Inr (LDAL_EOK, dev\<lparr>user_data := Some (serial\<lparr>ser_timeout := 0\<rparr>)\<rparr>, w))"

definition serial_device_ops :: "'w kernel \<Rightarrow> (ldal_serial_device, 'w) device_ops" where
  "serial_device_ops K = no_ops
     \<lparr>op_init := Some serial_init, op_open := Some (serial_open K), op_close := Some (serial_close K),
      op_read := Some (serial_read K), op_write := Some (serial_write K),
      op_control := Some (serial_control K)\<rparr>"


interpretation serial_drv: driver "serial_device_ops K" for K
  by unfold_locales
    (auto simp: serial_device_ops_def no_ops_def serial_init_def serial_open_def serial_close_def
      serial_read_def serial_write_def serial_control_def parent_Inr dev_frame Let_def case_prod_unfold
      split: if_splits ctrl_arg.splits)

section \<open>Options\<close>

text \<open>Reading a group of flags from a word in which others have been set and cleared.\<close>

lemma and_or_mask: "(x OR y) AND m = (x AND m) OR (y AND m :: u32)"
  by (simp add: bit.conj_disj_distrib2)

lemma and_clear: "(x AND - numeral k) AND numeral m = x AND (- numeral k AND numeral m :: u32)"
  by (simp add: ac_simps)

lemmas flag_simps = and_or_mask and_clear term_flags port_codes

lemma valid_speed_masks:
  assumes "valid_speed s"
  shows "s AND CBAUD = s" "s AND CSIZE = 0" "s AND PARENB = 0" "s AND PARODD = 0" "s AND CSTOPB = 0"
    "s AND CRTSCTS = 0"
proof -
  have "s = (s AND CBAUD) OR (s AND NOT CBAUD)"
    by (simp add: bit_eq_iff bit_simps) blast
  then show s: "s AND CBAUD = s" using assms by (simp add: valid_speed_def)
  have other: "s AND m = 0" if "CBAUD AND m = 0" for m
  proof -
    have "s AND m = s AND (CBAUD AND m)" by (subst s [symmetric], rule and.assoc)
    with that show ?thesis by simp
  qed
  show "s AND CSIZE = 0" "s AND PARENB = 0" "s AND PARODD = 0" "s AND CSTOPB = 0" "s AND CRTSCTS = 0"
    by (rule other, simp add: term_flags)+
qed

text \<open>The options that \<open>struct termios\<close> can hold.\<close>

definition good_options :: "port_option \<Rightarrow> bool" where
  "good_options opt \<longleftrightarrow>
     valid_speed (baudrate opt) \<and> baudrate opt \<noteq> 0 \<and> data_bits opt \<in> {5, 6, 7, 8} \<and>
     parity opt \<in> {PAR_NONE, PAR_EVEN, PAR_ODD} \<and> stop_bits opt \<in> {BITS_1P0, BITS_2P0} \<and>
     flowctrl opt \<in> {0, 1}"

lemma set_speed:
  assumes "valid_speed s" "s \<noteq> 0"
  shows "cfsetospeed (cfsetispeed t s) s =
     t\<lparr>c_iflag := c_iflag t AND NOT IBAUD0, c_cflag := (c_cflag t AND NOT CBAUD) OR s\<rparr>"
proof -
  have "(((c_cflag t AND NOT CBAUD) OR s) AND NOT CBAUD) OR s = (c_cflag t AND NOT CBAUD) OR s"
    by (simp add: bit_eq_iff bit_simps) blast
  then show ?thesis using assms by (simp add: cfsetispeed_def cfsetospeed_def)
qed

lemma get_set_options:
  assumes "good_options opt"
  shows "get_serial_options (set_serial_options t opt) opt0 =
     opt0\<lparr>baudrate := baudrate opt, data_bits := data_bits opt, parity := parity opt,
          stop_bits := stop_bits opt, flowctrl := flowctrl opt\<rparr>"
proof -
  define s where "s = baudrate opt"
  have s: "valid_speed s" "s \<noteq> 0" using assms by (auto simp: good_options_def s_def)
  note masks = valid_speed_masks [OF s(1)]
  define c0 where "c0 = (c_cflag t AND NOT CBAUD) OR s"
  define c1 where "c1 = (if data_bits opt = 8 then (c0 AND NOT CSIZE) OR CS8
      else if data_bits opt = 7 then (c0 AND NOT CSIZE) OR CS7
      else if data_bits opt = 6 then (c0 AND NOT CSIZE) OR CS6
      else if data_bits opt = 5 then (c0 AND NOT CSIZE) OR CS5 else c0)"
  define c2 where "c2 = (if parity opt = PAR_NONE then c1 AND NOT PARENB
      else if parity opt = PAR_ODD then (c1 OR PARENB) OR PARODD
      else if parity opt = PAR_EVEN then (c1 OR PARENB) AND NOT PARODD else c1)"
  define c3 where "c3 = (if stop_bits opt = BITS_1P0 then c2 AND NOT CSTOPB
      else if stop_bits opt = BITS_1P5 then c2
      else if stop_bits opt = BITS_2P0 then c2 OR CSTOPB else c2)"
  define c4 where "c4 = (if flowctrl opt \<noteq> 0 then c3 OR CRTSCTS else c3 AND NOT CRTSCTS)"
  have set: "set_serial_options t opt =
      t\<lparr>c_iflag := c_iflag t AND NOT IBAUD0, c_cflag := c4\<rparr>"
    unfolding set_serial_options_def Let_def c4_def c3_def c2_def c1_def c0_def s_def [symmetric] set_speed [OF s]
    by simp
  have c0: "c0 AND CBAUD = s"
    using masks by (simp add: c0_def flag_simps)
  have c1: "c1 AND CBAUD = s" "c1 AND CSIZE = (if data_bits opt = 8 then CS8
      else if data_bits opt = 7 then CS7 else if data_bits opt = 6 then CS6 else CS5)"
    using c0 assms by (auto simp: c1_def good_options_def flag_simps)
  have c2: "c2 AND CBAUD = s" "c2 AND CSIZE = c1 AND CSIZE"
    "c2 AND PARENB = (if parity opt = PAR_NONE then 0 else PARENB)"
    "parity opt = PAR_ODD \<Longrightarrow> c2 AND PARODD = PARODD" "parity opt = PAR_EVEN \<Longrightarrow> c2 AND PARODD = 0"
    using c1(1) assms by (auto simp: c2_def good_options_def flag_simps)
  have c3: "c3 AND CBAUD = s" "c3 AND CSIZE = c1 AND CSIZE" "c3 AND PARENB = c2 AND PARENB"
    "c3 AND PARODD = c2 AND PARODD" "c3 AND CSTOPB = (if stop_bits opt = BITS_1P0 then 0 else CSTOPB)"
    using c2(1,2) assms by (auto simp: c3_def good_options_def flag_simps)
  have c4: "c4 AND CBAUD = s" "c4 AND CSIZE = c1 AND CSIZE" "c4 AND PARENB = c2 AND PARENB"
    "c4 AND PARODD = c2 AND PARODD" "c4 AND CSTOPB = c3 AND CSTOPB"
    "c4 AND CRTSCTS = (if flowctrl opt = 0 then 0 else CRTSCTS)"
    using c3(1-4) by (auto simp: c4_def flag_simps)
  have speed: "cfgetispeed (t\<lparr>c_iflag := c_iflag t AND NOT IBAUD0, c_cflag := c4\<rparr>) = s"
  proof -
    have "(c_iflag t AND NOT IBAUD0) AND IBAUD0 = 0" by (simp add: flag_simps)
    then show ?thesis by (simp add: cfgetispeed_def c4(1))
  qed
  have size: "(if c4 AND CSIZE = CS5 then 5 else if c4 AND CSIZE = CS6 then 6
      else if c4 AND CSIZE = CS7 then 7 else if c4 AND CSIZE = CS8 then 8 else data_bits opt0) = data_bits opt"
    unfolding c4(2) c1(2) using assms by (auto simp: good_options_def CS5_def CS6_def CS7_def CS8_def)
  have par: "(if c4 AND PARENB \<noteq> 0 then if c4 AND PARODD \<noteq> 0 then PAR_ODD else PAR_EVEN else PAR_NONE) =
      parity opt"
    unfolding c4(3,4) c2(3) using assms c2(4,5) by (auto simp: good_options_def PARENB_def PARODD_def port_codes)
  have stop: "(if c4 AND CSTOPB \<noteq> 0 then BITS_2P0 else BITS_1P0) = stop_bits opt"
    unfolding c4(5) c3(5) using assms by (auto simp: good_options_def CSTOPB_def port_codes)
  have flow: "(if c4 AND CRTSCTS \<noteq> 0 then 1 else 0) = flowctrl opt"
    unfolding c4(6) using assms by (auto simp: good_options_def CRTSCTS_def)
  have c: "c_cflag (t\<lparr>c_iflag := c_iflag t AND NOT IBAUD0, c_cflag := c4\<rparr>) = c4" by simp
  show ?thesis
    unfolding get_serial_options_def set Let_def c speed size par stop flow s_def by (rule refl)
qed

section \<open>Reading\<close>

text \<open>Every \<open>read\<close> on the descriptor is as POSIX says.\<close>

definition reads_ok :: "'w kernel \<Rightarrow> int \<Rightarrow> bool" where
  "reads_ok K f \<longleftrightarrow> (\<forall>n w. reply_ok n (fst (k_read K f n w)) (fst (snd (k_read K f n w))))"

lemma memcpy_front:
  assumes "length data \<le> length rest"
  shows "memcpy (pre @ rest) (int (length pre)) data 0 (int (length data)) =
    Inr (pre @ data @ drop (length data) rest)"
  using memcpy_nat [of "length pre" "length data" "pre @ rest" 0 data] assms by simp

text \<open>
  The loop appends to the bytes it has, never beyond \<open>len\<close>, and returns their number; an error is returned
  only when there are none.
\<close>

lemma read_tries_ok:
  assumes "reads_ok K f" "unat len < 2 ^ 31"
    and "length pre \<le> unat len" "unat len \<le> length (pre @ rest)"
  shows "\<exists>r data w'. read_tries K f len n (pre @ rest) (int (length pre)) w =
      Inr (r, pre @ data @ drop (length data) rest, w') \<and> length (pre @ data) \<le> unat len \<and>
      (r = int (length (pre @ data)) \<or> r = - 1 \<and> pre @ data = [])"
  using assms(3,4)
proof (induction n arbitrary: pre rest w)
  case 0
  then show ?case by (auto intro!: exI [of _ "[]"])
next
  case (Suc n)
  define k where "k = length pre"
  have k: "unat (word_of_nat k :: size_t) = k"
    using Suc.prems(1) assms(2) by (intro word_of_nat_unat_small) (simp add: k_def)
  show ?case
  proof (cases "k < unat len")
    case False
    then have "\<not> word_of_nat k < len" using k by (simp add: word_less_nat_alt)
    then show ?thesis using Suc.prems by (auto simp: k_def intro!: exI [of _ "[]"])
  next
    case True
    then have lt: "word_of_nat k < len" "unat (len - word_of_nat k) = unat len - k"
      using k by (simp_all add: word_less_nat_alt unat_sub word_le_nat_alt)
    obtain r data w1 where r: "k_read K f (unat len - k) w = (r, data, w1)" by (rule prod_cases3)
    with assms(1) have ok: "reply_ok (unat len - k) r data"
      by (metis reads_ok_def fst_conv snd_conv)
    then have i: "to_int r = r" using assms(2) by (auto simp: reply_ok_def in_int_def intro!: to_int_id)
    show ?thesis
    proof (cases "0 < r")
      case True
      with ok have d: "r = int (length data)" "k + length data \<le> unat len" using Suc.prems(1) by (auto simp: reply_ok_def k_def)
      have "memcpy (pre @ rest) (int k) data 0 r = Inr (pre @ data @ drop (length data) rest)"
        using d Suc.prems(2) memcpy_front [of data rest pre] by (simp add: k_def)
      moreover have "c_add (int k) r = Inr (int (length (pre @ data)))"
        using d assms(2) by (simp add: c_add_def in_int_def k_def)
      moreover obtain r' data' w' where
        "read_tries K f len n ((pre @ data) @ drop (length data) rest) (int (length (pre @ data))) w1 =
           Inr (r', (pre @ data) @ data' @ drop (length data') (drop (length data) rest), w')"
        "length ((pre @ data) @ data') \<le> unat len"
        "r' = int (length ((pre @ data) @ data')) \<or> r' = - 1 \<and> (pre @ data) @ data' = []"
        using Suc.IH [of "pre @ data" "drop (length data) rest" w1] d(2) Suc.prems k_def by auto
      ultimately show ?thesis
        using True lt r i by (auto simp: k_def Let_def intro!: exI [of _ "data @ data'"] simp: add.commute)
    next
      case False
      with ok consider "r = 0" | "r = - 1" "pre = []" | "r = - 1" "pre \<noteq> []"
        by (auto simp: reply_ok_def)
      then show ?thesis
      proof cases
        case 3
        then have "read_tries K f len (Suc n) (pre @ rest) (int (length pre)) w =
            read_tries K f len n (pre @ rest) (int (length pre)) w1"
          using lt r i by (simp add: k_def Let_def)
        then show ?thesis using Suc.IH [OF Suc.prems, of w1] by simp
      qed (use lt r i Suc.prems in \<open>auto simp: k_def Let_def intro!: exI [of _ "[]"]\<close>)
    qed
  qed
qed

text \<open>
  Reading a serial port: when no data come in time the result is \<open>-LDAL_ETIMEOUT\<close>, when waiting
  fails \<open>-LDAL_ERROR\<close>, and the buffer is untouched. Otherwise at most five reads fill the front of the
  buffer, never beyond \<open>len\<close>, and their bytes are counted; an error is reported only if none came.
\<close>
theorem serial_read_cases:
  fixes K :: "'w kernel"
  assumes d: "has_ops cls d (serial_device_ops K)" "\<not> mutex d" "user_data d = Some s"
    and f: "0 \<le> fd d" "fd d < FD_SETSIZE" "reads_ok K (fd d)"
    and b: "unat len \<le> length b" "unat len < 2 ^ 31"
    and sel: "k_select K (fd d) (if ser_timeout s = 0 then None
        else Some (uint (ser_timeout s) div 1000, uint (ser_timeout s) mod 1000 * 1000)) w = (r, True, w1)"
  shows "(r = 0 \<longrightarrow> read_device cls d (Some b) len w = Inr (- LDAL_ETIMEOUT, Some b, d, w1)) \<and>
    (r < 0 \<longrightarrow> read_device cls d (Some b) len w = Inr (- LDAL_ERROR, Some b, d, w1)) \<and>
    (0 < r \<longrightarrow> (\<exists>n data w2. length data \<le> unat len \<and> (n = int (length data) \<or> n = - 1 \<and> data = []) \<and>
      read_device cls d (Some b) len w = Inr (n, Some (data @ drop (length data) b), d, w2)))"
proof -
  have rd: "read_device cls d (Some b) len w =
      bind_res (serial_read K (d\<lparr>mutex := True\<rparr>) (Some b) len w) (\<lambda>(r, b, d, w).
      Inr (r, b, mutex_unlock d, w))"
    using d(1,2) by (simp add: read_device_def mutex_lock_def has_ops_fetch serial_device_ops_def no_ops_def)
  have t: "(0 < uint (ser_timeout s)) = (ser_timeout s \<noteq> 0)"
    unfolding word_neq_0_conv word_less_def by simp
  have m: "d\<lparr>mutex := False\<rparr> = d" using d(2) by (rule device_mutex_same)
  note simps = rd serial_read_def parent_def Let_def t mutex_unlock_def m
  obtain n data w2 where "read_tries K (fd d) len 5 b 0 w1 = Inr (n, data @ drop (length data) b, w2)"
    "length data \<le> unat len" "n = int (length data) \<or> n = - 1 \<and> data = []"
    using read_tries_ok [OF f(3) b(2), of "[]" b 5 w1] b(1) by auto
  then show ?thesis using f(1,2) sel d(3) by (auto simp: simps split: if_splits)
qed

definition fresh_serial :: ldal_serial_device where
  "fresh_serial = \<lparr>ser_status = 0, ser_timeout = 1500,
     ser_opt = \<lparr>baudrate = 13, data_bits = 8, parity = 0, stop_bits = 1, flowctrl = 0, fcopt = [],
       po_mn = [], po_addr = 0\<rparr>\<rparr>"

lemma serial_read_cases_witness:
  "\<exists>n data w. length data \<le> 4 \<and> (n = int (length data) \<or> n = - 1 \<and> data = []) \<and>
     read_device (single_class (serial_device_ops sample_kernel)) (fresh_device ''s1'' ''/dev/ttyS1'' fresh_serial)
       (Some [1, 2, 3, 4, 5]) 4 0 =
     Inr (n, Some (data @ drop (length data) [1, 2, 3, 4, 5]), fresh_device ''s1'' ''/dev/ttyS1'' fresh_serial, w)"
proof -
  have "reads_ok sample_kernel 0" by (simp add: reads_ok_def reply_ok_def sample_kernel_def)
  then show ?thesis
    using serial_read_cases [of "single_class (serial_device_ops sample_kernel)"
        "fresh_device ''s1'' ''/dev/ttyS1'' fresh_serial" sample_kernel fresh_serial 4 "[1, 2, 3, 4, 5]" 0 1 1]
    by (simp add: FD_SETSIZE_def fresh_serial_def sample_kernel_def)
qed

section \<open>Setting and reading the options\<close>

lemma serial_control_call:
  assumes "has_ops cls d (serial_device_ops K)" "\<not> mutex d"
  shows "control_device cls d cmd arg w =
    bind_res (serial_control K (d\<lparr>mutex := True\<rparr>) cmd arg w) (\<lambda>(r, arg, d, w).
    Inr (r, arg, mutex_unlock d, w))"
  using assms by (simp add: control_device_def mutex_lock_def has_ops_fetch serial_device_ops_def no_ops_def)

text \<open>
  Property C30. The options set on a serial port are those read from it: speed, character size, parity,
  stop bits and flow control come back unchanged, whatever the port's settings were before, and the
  device records them; the other members of the caller's structure are left alone.
\<close>
theorem serial_options_roundtrip:
  fixes K :: "'w kernel"
  assumes d: "has_ops cls d (serial_device_ops K)" "\<not> mutex d" "user_data d = Some s"
    and opt: "good_options opt"
    and K: "k_tcgetattr K (fd d) w = (0, t, w1)"
      "k_tcsetattr K (fd d) (set_serial_options t opt) (snd (k_tcflush K (fd d) TCIOFLUSH w1)) = (0, w2)"
      "k_tcgetattr K (fd d) w2 = (0, set_serial_options t opt, w3)"
  shows "bind_res (control_device cls d SERIAL_SET_OPTIONS (Arg_Port opt) w) (\<lambda>(r, a, d', w').
      bind_res (control_device cls d' SERIAL_GET_OPTIONS (Arg_Port opt0) w') (\<lambda>(r', a', d'', w'').
      Inr (r, r', a', d''))) =
    Inr (LDAL_EOK, LDAL_EOK,
      Arg_Port (opt0\<lparr>baudrate := baudrate opt, data_bits := data_bits opt, parity := parity opt,
        stop_bits := stop_bits opt, flowctrl := flowctrl opt\<rparr>),
      d\<lparr>user_data := Some (s\<lparr>ser_opt := opt\<rparr>)\<rparr>)"
proof -
  define d' where "d' = d\<lparr>user_data := Some (s\<lparr>ser_opt := opt\<rparr>)\<rparr>"
  have d': "has_ops cls d' (serial_device_ops K)" "\<not> mutex d'" "fd d' = fd d" "d'\<lparr>mutex := False\<rparr> = d'"
    "d\<lparr>user_data := Some (s\<lparr>ser_opt := opt\<rparr>), mutex := False\<rparr> = d'"
    using d has_ops_class [of d' d cls "serial_device_ops K"] device_mutex_same [of d] device_mutex_same [of d']
    by (simp_all add: d'_def)
  have "control_device cls d SERIAL_SET_OPTIONS (Arg_Port opt) w = Inr (LDAL_EOK, Arg_Port opt, d', w2)"
    using K(1,2) d(3) d'(5) unfolding serial_control_call [OF d(1,2)]
    by (simp add: serial_control_def serial_commands parent_def case_prod_unfold Let_def mutex_unlock_def)
  moreover have "control_device cls d' SERIAL_GET_OPTIONS (Arg_Port opt0) w2 =
      Inr (LDAL_EOK, Arg_Port (get_serial_options (set_serial_options t opt) opt0), d', w3)"
    using K(3) d'(3,4) unfolding serial_control_call [OF d'(1,2)]
    by (simp add: serial_control_def serial_commands mutex_unlock_def)
  ultimately show ?thesis by (simp add: get_set_options [OF opt] flip: d'_def)
qed

text \<open>A port that remembers its settings.\<close>

definition tty_kernel :: "termios kernel" where
  "tty_kernel = quiet_kernel\<lparr>k_tcgetattr := (\<lambda>_ w. (0, w, w)), k_tcsetattr := (\<lambda>_ t _. (0, t))\<rparr>"

lemma serial_options_roundtrip_witness:
  "bind_res (control_device (single_class (serial_device_ops tty_kernel))
       (fresh_device ''s1'' ''/dev/ttyS1'' fresh_serial) SERIAL_SET_OPTIONS
       (Arg_Port ((ser_opt fresh_serial)\<lparr>data_bits := 7, parity := PAR_EVEN, stop_bits := BITS_2P0\<rparr>)) blank_termios)
     (\<lambda>(r, a, d, w).
     bind_res (control_device (single_class (serial_device_ops tty_kernel)) d SERIAL_GET_OPTIONS
       (Arg_Port (ser_opt fresh_serial)) w) (\<lambda>(r', a, d, w). Inr (r, r', a))) =
   Inr (0, 0, Arg_Port ((ser_opt fresh_serial)\<lparr>data_bits := 7, parity := PAR_EVEN, stop_bits := BITS_2P0\<rparr>))"
proof -
  define opt where "opt = (ser_opt fresh_serial)\<lparr>data_bits := 7, parity := PAR_EVEN, stop_bits := BITS_2P0\<rparr>"
  define t where "t = set_serial_options blank_termios opt"
  have "good_options opt"
    by (simp add: good_options_def opt_def fresh_serial_def valid_speed_def term_flags)
  then show ?thesis
    using serial_options_roundtrip [where cls = "single_class (serial_device_ops tty_kernel)"
        and K = tty_kernel and d = "fresh_device ''s1'' ''/dev/ttyS1'' fresh_serial" and s = fresh_serial
        and opt = opt and w = blank_termios and t = blank_termios and ?w1.0 = blank_termios and ?w2.0 = t
        and ?w3.0 = t and ?opt0.0 = "ser_opt fresh_serial"]
    by (auto simp: tty_kernel_def quiet_kernel_def case_prod_unfold simp flip: t_def opt_def)
      (auto simp: opt_def fresh_serial_def)
qed

text \<open>
  Starting a serial port when the standard input is not a terminal opens its device file
  and gives it up: the call reports success, the device counts as stopped, and stopping it does not
  close the descriptor, which the next startup replaces by another.
\<close>
theorem serial_open_leaks:
  fixes K :: "'w kernel" and d :: "ldal_serial_device ldal_device"
  assumes d: "has_ops cls d (serial_device_ops K)" "is_init d" "ref d = 0" "read_cstr (filename d) = Inr path"
    and K: "k_open K path (O_RDWR OR O_NOCTTY OR O_NDELAY) 0 w = (h, w1)" "0 \<le> h"
      "k_fcntl K h F_SETFL 0 w1 = (0, w2)" "k_isatty K 0 (snd (k_fcntl K h F_SETFL 0 w2)) = 0"
  shows "bind_res (startup_device cls d w) (\<lambda>(r, d, w).
      bind_res (stop_device cls d w) (\<lambda>(r', d, w). Inr (r, r', d, w))) =
    Inr (LDAL_EOK, LDAL_EOK, d\<lparr>fd := h\<rparr>, snd (k_fcntl K h F_SETFL 0 w2))"
proof -
  have "serial_open K d w = Inr (- LDAL_ERROR, d\<lparr>fd := h\<rparr>, snd (k_fcntl K h F_SETFL 0 w2))"
    using K by (simp add: serial_open_def d(4) case_prod_unfold Let_def)
  then have "startup_device cls d w = Inr (LDAL_EOK, d\<lparr>fd := h\<rparr>, snd (k_fcntl K h F_SETFL 0 w2))"
    using d(1-3) by (simp add: startup_device_def has_ops_fetch serial_device_ops_def no_ops_def)
  then show ?thesis using d(2,3) by (simp add: stop_device_def)
qed

lemma serial_open_leaks_witness:
  "bind_res (startup_device (single_class (serial_device_ops (sample_kernel\<lparr>k_isatty := \<lambda>_ _. 0\<rparr>)))
       (fresh_device ''s1'' ''/dev/ttyS1'' fresh_serial) 0) (\<lambda>(r, d, w).
     bind_res (stop_device (single_class (serial_device_ops (sample_kernel\<lparr>k_isatty := \<lambda>_ _. 0\<rparr>))) d w)
       (\<lambda>(r', d, w). Inr (r, r', d, w))) =
   Inr (0, 0, (fresh_device ''s1'' ''/dev/ttyS1'' fresh_serial)\<lparr>fd := 3\<rparr>, 3)"
  using serial_open_leaks [of "single_class (serial_device_ops (sample_kernel\<lparr>k_isatty := \<lambda>_ _. 0\<rparr>))"
      "fresh_device ''s1'' ''/dev/ttyS1'' fresh_serial" "sample_kernel\<lparr>k_isatty := \<lambda>_ _. 0\<rparr>"
      "''/dev/ttyS1''" 0 3 1 2]
  by (simp add: NUL_def sample_kernel_def)

end
