(* ===== verification/Float32.thy ===== *)
theory Float32
  imports Complex_Main Kernel "HOL-Library.Log_Nat"
begin

text \<open>
  The floating-point arithmetic the backlight and analog drivers use: IEEE 754 binary32 and binary64, rounding to nearest with
  ties to even. A number is exact as a rational; every operation rounds once. Which NaN results is left
  open by the standard, so there is one.
\<close>

section \<open>Values and rounding\<close>

text \<open>The \<open>bool\<close> is the sign; the rational of \<open>Num\<close> is not 0.\<close>

datatype f32 = Zero bool | Num rat | Inf bool | Nan

definition rne :: "rat \<Rightarrow> int" where
  "rne y =
     (let n = \<lfloor>y\<rfloor>; r = y - of_int n in
      if r < 1 / 2 then n else if 1 / 2 < r then n + 1 else if even n then n else n + 1)"

text \<open>The exponent of a positive number, \<open>2 ^ e \<le> a < 2 ^ (e + 1)\<close>, and its unit in the last place.\<close>

definition exponent :: "rat \<Rightarrow> int" where
  "exponent a =
     (let (n, d) = quotient_of a; e = bitlen n - bitlen d in if 2 powi e \<le> a then e else e - 1)"

text \<open>Rounding to \<open>p\<close> bits with the least exponent \<open>k\<close>, and to infinity from \<open>2 ^ e\<close> on.\<close>

definition ulp_at :: "int \<Rightarrow> int \<Rightarrow> rat \<Rightarrow> int" where
  "ulp_at p k a = max (exponent a - (p - 1)) k"

definition round_at :: "int \<Rightarrow> int \<Rightarrow> rat \<Rightarrow> rat" where
  "round_at p k a = of_int (rne (a / 2 powi ulp_at p k a)) * 2 powi ulp_at p k a"

definition fp_round :: "int \<Rightarrow> int \<Rightarrow> nat \<Rightarrow> rat \<Rightarrow> f32" where
  "fp_round p k e q =
     (let a = round_at p k \<bar>q\<bar>; s = (q < 0) in
      if q = 0 then Zero False
      else if a = 0 then Zero s
      else if 2 ^ e \<le> a then Inf s
      else Num (if s then - a else a))"

text \<open>\<open>float\<close> and \<open>double\<close>; a \<open>float\<close> is a \<open>double\<close> without conversion.\<close>

abbreviation f_round :: "rat \<Rightarrow> f32" where "f_round \<equiv> fp_round 24 (- 149) 128"
abbreviation d_round :: "rat \<Rightarrow> f32" where "d_round \<equiv> fp_round 53 (- 1074) 1024"
abbreviation ulp :: "rat \<Rightarrow> int" where "ulp \<equiv> ulp_at 24 (- 149)"
abbreviation round_abs :: "rat \<Rightarrow> rat" where "round_abs \<equiv> round_at 24 (- 149)"

section \<open>Operations\<close>

fun f_neg :: "f32 \<Rightarrow> f32" where
  "f_neg (Zero s) = Zero (\<not> s)"
| "f_neg (Num q) = Num (- q)"
| "f_neg (Inf s) = Inf (\<not> s)"
| "f_neg Nan = Nan"

fun fp_add :: "(rat \<Rightarrow> f32) \<Rightarrow> f32 \<Rightarrow> f32 \<Rightarrow> f32" where
  "fp_add rnd (Zero s) (Zero t) = Zero (s \<and> t)"
| "fp_add rnd (Zero s) (Num q) = Num q"
| "fp_add rnd (Num p) (Zero t) = Num p"
| "fp_add rnd (Num p) (Num q) = rnd (p + q)"
| "fp_add rnd (Inf s) (Inf t) = (if s = t then Inf s else Nan)"
| "fp_add rnd Nan _ = Nan"
| "fp_add rnd _ Nan = Nan"
| "fp_add rnd (Inf s) _ = Inf s"
| "fp_add rnd _ (Inf t) = Inf t"

abbreviation f_add :: "f32 \<Rightarrow> f32 \<Rightarrow> f32" where "f_add \<equiv> fp_add f_round"
abbreviation d_add :: "f32 \<Rightarrow> f32 \<Rightarrow> f32" where "d_add \<equiv> fp_add d_round"

definition f_sub :: "f32 \<Rightarrow> f32 \<Rightarrow> f32" where
  "f_sub x y = f_add x (f_neg y)"

definition d_sub :: "f32 \<Rightarrow> f32 \<Rightarrow> f32" where
  "d_sub x y = d_add x (f_neg y)"

fun f_sign :: "f32 \<Rightarrow> bool" where
  "f_sign (Zero s) = s"
| "f_sign (Num q) = (q < 0)"
| "f_sign (Inf s) = s"
| "f_sign Nan = False"

fun fp_mul :: "(rat \<Rightarrow> f32) \<Rightarrow> f32 \<Rightarrow> f32 \<Rightarrow> f32" where
  "fp_mul rnd (Num p) (Num q) = rnd (p * q)"
| "fp_mul rnd Nan _ = Nan"
| "fp_mul rnd _ Nan = Nan"
| "fp_mul rnd (Inf s) (Zero t) = Nan"
| "fp_mul rnd (Zero s) (Inf t) = Nan"
| "fp_mul rnd (Inf s) y = Inf (s \<noteq> f_sign y)"
| "fp_mul rnd x (Inf t) = Inf (f_sign x \<noteq> t)"
| "fp_mul rnd x y = Zero (f_sign x \<noteq> f_sign y)"

fun fp_div :: "(rat \<Rightarrow> f32) \<Rightarrow> f32 \<Rightarrow> f32 \<Rightarrow> f32" where
  "fp_div rnd (Num p) (Num q) = rnd (p / q)"
| "fp_div rnd Nan _ = Nan"
| "fp_div rnd _ Nan = Nan"
| "fp_div rnd (Inf s) (Inf t) = Nan"
| "fp_div rnd (Zero s) (Zero t) = Nan"
| "fp_div rnd (Inf s) y = Inf (s \<noteq> f_sign y)"
| "fp_div rnd x (Inf t) = Zero (f_sign x \<noteq> t)"
| "fp_div rnd x (Zero t) = Inf (f_sign x \<noteq> t)"
| "fp_div rnd (Zero s) y = Zero (s \<noteq> f_sign y)"

abbreviation f_mul :: "f32 \<Rightarrow> f32 \<Rightarrow> f32" where "f_mul \<equiv> fp_mul f_round"
abbreviation f_div :: "f32 \<Rightarrow> f32 \<Rightarrow> f32" where "f_div \<equiv> fp_div f_round"
abbreviation d_div :: "f32 \<Rightarrow> f32 \<Rightarrow> f32" where "d_div \<equiv> fp_div d_round"

text \<open>The conversion of a \<open>double\<close> to \<open>float\<close>.\<close>

definition d_to_f :: "f32 \<Rightarrow> f32" where
  "d_to_f x = (case x of Num q \<Rightarrow> f_round q | _ \<Rightarrow> x)"

text \<open>Comparison: no order with \<open>Nan\<close>, and the two zeros are equal.\<close>

fun f_less :: "f32 \<Rightarrow> f32 \<Rightarrow> bool" where
  "f_less Nan _ = False"
| "f_less _ Nan = False"
| "f_less (Inf s) (Inf t) = (s \<and> \<not> t)"
| "f_less (Inf s) _ = s"
| "f_less _ (Inf t) = (\<not> t)"
| "f_less (Zero _) (Zero _) = False"
| "f_less (Zero _) (Num q) = (0 < q)"
| "f_less (Num p) (Zero _) = (p < 0)"
| "f_less (Num p) (Num q) = (p < q)"

definition d_of_int :: "int \<Rightarrow> f32" where
  "d_of_int n = d_round (of_int n)"

definition f_of_int :: "int \<Rightarrow> f32" where
  "f_of_int n = f_round (of_int n)"

text \<open>Conversion to \<open>int\<close> discards the fraction; out of range it is undefined.\<close>

definition f_to_int :: "f32 \<Rightarrow> int result" where
  "f_to_int x =
     (case x of
        Zero _ \<Rightarrow> Inr 0
      | Num q \<Rightarrow>
          (let n = (if q < 0 then - \<lfloor>- q\<rfloor> else \<lfloor>q\<rfloor>) in if in_int n then Inr n else Inl Int_Overflow)
      | _ \<Rightarrow> Inl Int_Overflow)"

section \<open>Bit patterns\<close>

definition f_decode :: "u32 \<Rightarrow> f32" where
  "f_decode w =
     (let n = uint w; s = (2 ^ 31 \<le> n); e = n div 2 ^ 23 mod 2 ^ 8; m = n mod 2 ^ 23;
          v = (if e = 0 then of_int m * 2 powi (- 149) else of_int (2 ^ 23 + m) * 2 powi (e - 150))
      in if e = 255 then if m = 0 then Inf s else Nan
         else if e = 0 \<and> m = 0 then Zero s
         else Num (if s then - v else v))"

definition f_encode :: "f32 \<Rightarrow> u32" where
  "f_encode x =
     (case x of
        Zero s \<Rightarrow> if s then 0x80000000 else 0
      | Inf s \<Rightarrow> if s then 0xFF800000 else 0x7F800000
      | Nan \<Rightarrow> 0x7FC00000
      | Num q \<Rightarrow>
          (let a = \<bar>q\<bar>; k = ulp a; m = \<lfloor>a / 2 powi k\<rfloor>;
               n = (if m < 2 ^ 23 then m else (k + 149) * 2 ^ 23 + m)
           in word_of_int (if q < 0 then 2 ^ 31 + n else n)))"

text \<open>A bit pattern in memory, least significant byte first.\<close>

definition u32_bytes :: "u32 \<Rightarrow> byte list" where
  "u32_bytes w = int_bytes (sint w)"

definition bytes_u32 :: "byte list \<Rightarrow> u32" where
  "bytes_u32 bs = word_of_int (bytes_int bs)"

lemma bytes_u32_bytes [simp]: "bytes_u32 (u32_bytes w) = w"
proof -
  have "in_int (sint w)" using sint_ge [of w] sint_lt [of w] by (simp add: in_int_def)
  then show ?thesis by (simp add: bytes_u32_def u32_bytes_def bytes_int_bytes)
qed

lemma length_u32_bytes [simp]: "length (u32_bytes w) = 4"
  by (simp add: u32_bytes_def)

section \<open>Rounding\<close>

lemma rne_error: "\<bar>of_int (rne y) - y\<bar> \<le> 1 / 2"
proof -
  define n r where "n = \<lfloor>y\<rfloor>" and "r = y - of_int n"
  have r: "0 \<le> r" "r < 1" "y = of_int n + r" unfolding n_def r_def by linarith+
  have "rne y = n \<and> r \<le> 1 / 2 \<or> rne y = n + 1 \<and> 1 / 2 \<le> r"
    unfolding rne_def Let_def n_def [symmetric] r_def [symmetric] by auto
  then show ?thesis
  proof
    assume "rne y = n \<and> r \<le> 1 / 2"
    then show ?thesis using r by (simp add: abs_if)
  next
    assume "rne y = n + 1 \<and> 1 / 2 \<le> r"
    then show ?thesis using r by (simp add: abs_if)
  qed
qed

lemma rne_lower:
  assumes "of_int n \<le> y"
  shows "n \<le> rne y"
proof -
  have "n \<le> \<lfloor>y\<rfloor>" using assms by (simp add: le_floor_iff)
  then show ?thesis unfolding rne_def Let_def by auto
qed

lemma rne_upper: "y \<le> of_int n \<Longrightarrow> rne y \<le> n"
proof -
  assume y: "y \<le> of_int n"
  show "rne y \<le> n"
  proof (cases "\<lfloor>y\<rfloor> < n")
    case True
    then show ?thesis by (simp add: rne_def Let_def)
  next
    case False
    with y have "y = of_int n" using of_int_floor_le [of y] by linarith
    then show ?thesis by (simp add: rne_def)
  qed
qed

lemma exponent_bounds:
  assumes "0 < a"
  shows "2 powi exponent a \<le> a" "a < 2 powi (exponent a + 1)"
proof -
  obtain n d where nd: "quotient_of a = (n, d)" by (cases "quotient_of a")
  have d: "0 < d" using nd by (rule quotient_of_denom_pos)
  have a: "a = of_int n / of_int d" using nd by (rule quotient_of_div)
  then have n: "0 < n" using assms d by (simp add: zero_less_divide_iff)
  define i j where "i = nat (bitlen n - 1)" and "j = nat (bitlen d - 1)"
  have ij: "bitlen n = int i + 1" "bitlen d = int j + 1"
    using bitlen_bounds [OF n] bitlen_bounds [OF d] bitlen_nonneg [of n] bitlen_nonneg [of d] n d
      bitlen_eq_zero_iff [of n] bitlen_eq_zero_iff [of d] unfolding i_def j_def by linarith+
  have bn: "2 ^ i \<le> n" "n < 2 ^ (i + 1)" and bd: "2 ^ j \<le> d" "d < 2 ^ (j + 1)"
    using bitlen_bounds [OF n] bitlen_bounds [OF d] ij by (simp_all add: nat_add_distrib)
  have rn: "(2::rat) ^ i \<le> of_int n" "of_int n < (2::rat) ^ (i + 1)"
    and rd: "(2::rat) ^ j \<le> of_int d" "of_int d < (2::rat) ^ (j + 1)"
    using bn bd by (metis of_int_le_iff of_int_less_iff of_int_numeral of_int_power)+
  have p: "(2::rat) powi (int i - int j) = 2 ^ i / 2 ^ j" for i j :: nat
    by (simp add: power_int_diff)
  have lo: "(2::rat) powi (int i - int (j + 1)) \<le> a"
    unfolding p a using rn(1) rd d n by (intro frac_le) auto
  have hi: "a < (2::rat) powi (int (i + 1) - int j)"
    unfolding p a using rn(2) rd(1) d n by (intro frac_less) auto
  define e where "e = int i - int j"
  have e: "exponent a = (if 2 powi e \<le> a then e else e - 1)"
    by (simp add: exponent_def nd ij e_def)
  show "2 powi exponent a \<le> a" using lo by (simp add: e) (simp add: e_def algebra_simps)
  show "a < 2 powi (exponent a + 1)" using hi by (simp add: e) (simp add: e_def algebra_simps)
qed


text \<open>The rounding error of a normal number is at most half a unit in the last place.\<close>

lemma round_abs_error:
  assumes "2 powi (- 126) \<le> a"
  shows "\<bar>round_abs a - a\<bar> \<le> a / 2 ^ 24"
proof -
  have "(0::rat) < 2 powi (- 126)" by simp
  with assms have a: "0 < a" by linarith
  have e: "- 126 \<le> exponent a"
  proof (rule ccontr)
    assume "\<not> - 126 \<le> exponent a"
    then have "(2::rat) powi (exponent a + 1) \<le> 2 powi (- 126)" by (intro power_int_increasing) auto
    with exponent_bounds(2) [OF a] assms show False by linarith
  qed
  then have k: "ulp a = exponent a - 23" by (simp add: ulp_at_def)
  define u where "u = (2::rat) powi ulp a"
  have u: "0 < u" by (simp add: u_def)
  have ua: "u \<le> a / 2 ^ 23"
  proof -
    have "u * 2 ^ 23 = 2 powi exponent a" by (simp add: u_def k power_int_diff)
    then show ?thesis using exponent_bounds(1) [OF a] by simp
  qed
  have "\<bar>round_abs a - a\<bar> = \<bar>of_int (rne (a / u)) - a / u\<bar> * u"
    using u by (simp add: round_at_def u_def [symmetric] abs_if field_simps)
  also have "\<dots> \<le> 1 / 2 * u"
    using rne_error [of "a / u"] u by (intro mult_right_mono) simp_all
  also have "\<dots> \<le> a / 2 ^ 24" using ua by simp
  finally show ?thesis .
qed

text \<open>Rounding does not cross an integer below \<open>2 ^ 24\<close>, and leaves it as it is.\<close>

lemma small_ulp:
  assumes "0 < a" "a < 2 ^ 24"
  shows "ulp a \<le> 0"
proof (rule ccontr)
  assume "\<not> ulp a \<le> 0"
  then have "24 \<le> exponent a" by (simp add: ulp_at_def)
  then have "(2::rat) powi 24 \<le> 2 powi exponent a" by (intro power_int_increasing) auto
  with exponent_bounds(1) [OF assms(1)] assms(2) show False by simp
qed

lemma integer_grid:
  assumes "ulp a \<le> 0"
  shows "of_int n * 2 ^ nat (- ulp a) * (2::rat) powi ulp a = of_int n"
proof -
  define j where "j = nat (- ulp a)"
  have "ulp a = - int j" using assms by (simp add: j_def)
  then show ?thesis by (simp add: power_int_minus field_simps)
qed

lemma round_abs_upper:
  assumes "0 < a" "a \<le> of_int n" "n < 2 ^ 24"
  shows "round_abs a \<le> of_int n"
proof -
  have "(of_int n :: rat) < of_int (2 ^ 24)" using assms(3) by (simp only: of_int_less_iff)
  with assms have k: "ulp a \<le> 0" by (intro small_ulp) simp_all
  have "a / 2 powi ulp a \<le> of_int (n * 2 ^ nat (- ulp a))"
    using assms(2) by (simp add: divide_le_eq integer_grid [OF k])
  then have "rne (a / 2 powi ulp a) \<le> n * 2 ^ nat (- ulp a)" by (rule rne_upper)
  then have "round_abs a \<le> of_int (n * 2 ^ nat (- ulp a)) * 2 powi ulp a"
    unfolding round_at_def by (intro mult_right_mono) (simp_all only: of_int_le_iff, simp)
  then show ?thesis by (simp add: integer_grid [OF k])
qed

lemma round_abs_lower:
  assumes "0 < a" "of_int n \<le> a" "n \<le> 2 ^ 24"
  shows "of_int n \<le> round_abs a"
proof (cases "ulp a \<le> 0")
  case True
  have "of_int (n * 2 ^ nat (- ulp a)) \<le> a / 2 powi ulp a"
    using assms(2) by (simp add: le_divide_eq integer_grid [OF True])
  then have "n * 2 ^ nat (- ulp a) \<le> rne (a / 2 powi ulp a)" by (rule rne_lower)
  then have "of_int (n * 2 ^ nat (- ulp a)) * 2 powi ulp a \<le> round_abs a"
    unfolding round_at_def by (intro mult_right_mono) (simp_all only: of_int_le_iff, simp)
  then show ?thesis by (simp add: integer_grid [OF True])
next
  case False
  then have k: "ulp a = exponent a - 23" "1 \<le> ulp a" by (auto simp: ulp_at_def)
  have "2 ^ 23 * (2::rat) powi ulp a = 2 powi exponent a" by (simp add: k(1) power_int_diff)
  then have "of_int (2 ^ 23) \<le> a / 2 powi ulp a"
    using exponent_bounds(1) [OF assms(1)] by (simp add: le_divide_eq)
  then have "2 ^ 23 \<le> rne (a / 2 powi ulp a)" by (rule rne_lower)
  then have "(2 ^ 23 :: rat) \<le> of_int (rne (a / 2 powi ulp a))"
    by (metis of_int_le_iff of_int_numeral of_int_power)
  moreover have "(2::rat) powi 1 \<le> 2 powi ulp a" using k(2) by (intro power_int_increasing) auto
  ultimately have "2 ^ 23 * 2 powi 1 \<le> round_abs a"
    unfolding round_at_def by (intro mult_mono) auto
  moreover have "of_int n \<le> (of_int (2 ^ 24) :: rat)" using assms(3) by (simp only: of_int_le_iff)
  ultimately show ?thesis by simp
qed

lemma round_abs_int:
  assumes "0 < n" "n < 2 ^ 24"
  shows "round_abs (of_int n) = of_int n"
  using round_abs_upper [of "of_int n" n] round_abs_lower [of "of_int n" n] assms by simp

lemma f_of_int_small:
  assumes "\<bar>n\<bar> < 2 ^ 24" "n \<noteq> 0"
  shows "f_of_int n = Num (of_int n)"
proof -
  have r: "round_abs (of_int \<bar>n\<bar>) = of_int \<bar>n\<bar>" using assms by (intro round_abs_int) simp_all
  have "(of_int \<bar>n\<bar> :: rat) < of_int (2 ^ 24)" using assms(1) by (simp only: of_int_less_iff)
  then have "\<not> 2 ^ 128 \<le> (of_int \<bar>n\<bar> :: rat)" by simp
  with r assms(2) show ?thesis by (auto simp: f_of_int_def fp_round_def Let_def abs_if)
qed

lemma f_of_int_zero [simp]: "f_of_int 0 = Zero False"
  by (simp add: f_of_int_def fp_round_def)

text \<open>A positive result in range is the rounded number.\<close>

lemma f_round_pos:
  assumes "0 < q" "q < 2 ^ 24" "2 powi (- 126) \<le> q"
  shows "f_round q = Num (round_abs q)" "0 < round_abs q"
proof -
  have e: "\<bar>round_abs q - q\<bar> \<le> q / 2 ^ 24" by (rule round_abs_error [OF assms(3)])
  then have "q - round_abs q \<le> q / 2 ^ 24" "round_abs q - q \<le> q / 2 ^ 24" by linarith+
  then have p: "0 < round_abs q" "round_abs q < 2 ^ 128" using assms(1,2) by simp_all
  then show "0 < round_abs q" "f_round q = Num (round_abs q)"
    using assms(1) by (simp_all add: fp_round_def Let_def)
qed

section \<open>Accuracy\<close>

text \<open>The number a finite float stands for, and the error of an operation that does not overflow.\<close>

fun f_finite :: "f32 \<Rightarrow> bool" where
  "f_finite (Zero s) = True"
| "f_finite (Num q) = True"
| "f_finite _ = False"

fun f_val :: "f32 \<Rightarrow> rat" where
  "f_val (Num q) = q"
| "f_val _ = 0"

definition tiny :: rat where
  "tiny = 1 / 2 ^ 150"

definition near :: "f32 \<Rightarrow> rat \<Rightarrow> bool" where
  "near x q \<longleftrightarrow> f_finite x \<and> \<bar>f_val x - q\<bar> \<le> \<bar>q\<bar> / 2 ^ 24 + tiny"

lemma tiny_bounds: "0 < tiny" "tiny < 1 / 2 ^ 100"
  by (simp_all add: tiny_def)

lemma round_abs_error_any:
  assumes "0 < a"
  shows "\<bar>round_abs a - a\<bar> \<le> a / 2 ^ 24 + tiny"
proof -
  define u where "u = (2::rat) powi ulp a"
  have u: "0 < u" by (simp add: u_def)
  have ua: "u \<le> a / 2 ^ 23 + 2 * tiny"
  proof (cases "ulp a = - 149")
    case True
    have "2 * tiny = inverse (2 powi 149)" by (simp add: tiny_def)
    then have "u = 2 * tiny" by (simp only: u_def True power_int_minus)
    moreover have "0 \<le> a / 2 ^ 23" using assms by (intro divide_nonneg_pos) auto
    ultimately show ?thesis by linarith
  next
    case False
    then have k: "ulp a = exponent a - 23" by (auto simp: ulp_at_def)
    have "u * 2 ^ 23 = 2 powi exponent a" by (simp add: u_def k power_int_diff)
    then have "u \<le> a / 2 ^ 23" using exponent_bounds(1) [OF assms] by simp
    moreover have "0 \<le> 2 * tiny" using tiny_bounds(1) by simp
    ultimately show ?thesis by linarith
  qed
  have "\<bar>round_abs a - a\<bar> = \<bar>of_int (rne (a / u)) - a / u\<bar> * u"
    using u by (simp add: round_at_def u_def [symmetric] abs_if field_simps)
  also have "\<dots> \<le> 1 / 2 * u"
    using rne_error [of "a / u"] u by (intro mult_right_mono) simp_all
  also have "\<dots> \<le> 1 / 2 * (a / 2 ^ 23 + 2 * tiny)" using ua by (rule mult_left_mono) simp
  also have "\<dots> = a / 2 ^ 24 + tiny" by simp
  finally show ?thesis .
qed

lemma f_round_near:
  assumes "\<bar>q\<bar> \<le> 2 ^ 120"
  shows "near (f_round q) q"
proof (cases "q = 0")
  case True
  then show ?thesis using tiny_bounds(1) by (simp add: near_def fp_round_def)
next
  case False
  define a where "a = round_abs \<bar>q\<bar>"
  have e: "\<bar>a - \<bar>q\<bar>\<bar> \<le> \<bar>q\<bar> / 2 ^ 24 + tiny"
    unfolding a_def by (rule round_abs_error_any) (use False in simp)
  then have "a - \<bar>q\<bar> \<le> \<bar>q\<bar> / 2 ^ 24 + tiny" by linarith
  moreover have "\<bar>q\<bar> / 2 ^ 24 \<le> 2 ^ 120 / 2 ^ 24" using assms by (intro divide_right_mono) simp_all
  ultimately have "a \<le> 2 ^ 120 + (2 ^ 120 / 2 ^ 24 + tiny)" using assms by linarith
  also have "\<dots> < (2 :: rat) ^ 128" using tiny_bounds(2) by simp
  finally have r: "f_round q = (if a = 0 then Zero (q < 0) else Num (if q < 0 then - a else a))"
    using False by (simp add: fp_round_def Let_def a_def)
  have "f_finite (f_round q) \<and> \<bar>f_val (f_round q) - q\<bar> = \<bar>a - \<bar>q\<bar>\<bar>"
    unfolding r by (auto simp: abs_if)
  then show ?thesis using e by (simp add: near_def)
qed

lemma near_zero [simp]: "near (Zero s) 0"
  by (simp add: near_def tiny_def)

lemma near_exact: "f_finite x \<Longrightarrow> near x (f_val x)"
  using tiny_bounds(1) by (simp add: near_def)

lemma f_neg_val [simp]: "f_val (f_neg x) = - f_val x" "f_finite (f_neg x) = f_finite x"
  by (cases x; simp)+

lemma finite_cases:
  assumes "f_finite x"
  obtains s where "x = Zero s" | q where "x = Num q"
  using assms by (cases x) auto

lemma f_add_near:
  assumes "f_finite x" "f_finite y" "\<bar>f_val x + f_val y\<bar> \<le> 2 ^ 120"
  shows "near (f_add x y) (f_val x + f_val y)"
  using assms by (elim finite_cases) (auto simp: near_exact [where x = "Num q" for q, simplified] intro: f_round_near)

lemma f_sub_near:
  assumes "f_finite x" "f_finite y" "\<bar>f_val x - f_val y\<bar> \<le> 2 ^ 120"
  shows "near (f_sub x y) (f_val x - f_val y)"
  using f_add_near [of x "f_neg y"] assms by (simp add: f_sub_def)

lemma f_mul_near:
  assumes "f_finite x" "f_finite y" "\<bar>f_val x * f_val y\<bar> \<le> 2 ^ 120"
  shows "near (f_mul x y) (f_val x * f_val y)"
  using assms by (elim finite_cases) (auto simp: near_exact [where x = "Num q" for q, simplified] intro: f_round_near)

lemma f_div_near:
  assumes "f_finite x" "\<bar>f_val x / q\<bar> \<le> 2 ^ 120"
  shows "near (f_div x (Num q)) (f_val x / q)"
  using assms by (elim finite_cases) (auto simp: near_exact [where x = "Num q" for q, simplified] intro: f_round_near)

lemma f_less_val: "f_finite x \<Longrightarrow> f_finite y \<Longrightarrow> f_less x y \<longleftrightarrow> f_val x < f_val y"
  by (elim finite_cases) auto

end
