(* ===== verification/Backlight_Driver.thy ===== *)
theory Backlight_Driver
  imports Ldal_Device Float32
begin

text \<open>
  The backlight class, \<open>src/class/ldal_backlight.c\<close>: a brightness from 0 to 100 for the caller is a level
  between \<open>min\<close> and \<open>max\<close> for the system, kept as decimal text in a file and computed with floats.
\<close>

section \<open>The driver\<close>

definition USR_BACKLIGHT_MIN :: int where "USR_BACKLIGHT_MIN = 0"
definition USR_BACKLIGHT_MAX :: int where "USR_BACKLIGHT_MAX = 100"
definition SYS_BACKLIGHT_MIN :: int where "SYS_BACKLIGHT_MIN = 20"
definition SYS_BACKLIGHT_MAX :: int where "SYS_BACKLIGHT_MAX = 255"

lemmas backlight_limits =
  USR_BACKLIGHT_MIN_def USR_BACKLIGHT_MAX_def SYS_BACKLIGHT_MIN_def SYS_BACKLIGHT_MAX_def

record ldal_backlight_device =
  bl_status :: int
  bl_min :: int
  bl_max :: int

text \<open>The result and what \<open>*value\<close> holds afterwards: text that is no number leaves it as it was.\<close>

definition get_from_file ::
    "'w kernel \<Rightarrow> string \<Rightarrow> int \<Rightarrow> 'w \<Rightarrow> (int \<times> int \<times> 'w) result" where
  "get_from_file K path value w =
     (let (fp, w) = k_fopen K path ''r'' w in
      case fp of
        None \<Rightarrow> Inr (- LDAL_ERROR, value, w)
      | Some fp \<Rightarrow>
          let (text, w) = k_ftext K fp w; (_, w') = k_fclose K fp w in
          (case scan_d text of
             Scan_Eof \<Rightarrow> Inr (- LDAL_ERROR, value, w')
           | Scan_Mismatch \<Rightarrow> Inr (LDAL_EOK, value, w')
           | Scan_Int v \<Rightarrow> if in_int v then Inr (LDAL_EOK, v, w') else Inl Int_Overflow))"

definition set_to_file :: "'w kernel \<Rightarrow> string \<Rightarrow> int \<Rightarrow> 'w \<Rightarrow> int \<times> 'w" where
  "set_to_file K path value w =
     (let (fp, w) = k_fopen K path ''w'' w in
      case fp of
        None \<Rightarrow> (- LDAL_ERROR, w)
      | Some fp \<Rightarrow>
          let (r, w) = k_fputs K fp (print_d value) w; (_, w) = k_fclose K fp w in
          (if r < 0 then - LDAL_ERROR else LDAL_EOK, w))"

text \<open>\<open>snprintf(path, LDAL_FILENAME_MAX * 2, "%s/...", dev->filename)\<close>.\<close>

definition bl_path :: "'p ldal_device \<Rightarrow> string \<Rightarrow> string result" where
  "bl_path dev s =
     bind_res (read_cstr (filename dev)) (\<lambda>f. Inr (take (2 * LDAL_FILENAME_MAX - 1) (f @ s)))"

definition backlight_init :: "'w kernel \<Rightarrow> (ldal_backlight_device, 'w) dev_call" where
  "backlight_init K dev w =
     bind_res (bl_path dev ''/max_brightness'') (\<lambda>path.
     bind_res (get_from_file K path (k_stack_int K w) w) (\<lambda>(r, value, w).
     bind_res (parent dev) (\<lambda>bl.
     let bl = (if r = LDAL_EOK
               then bl\<lparr>bl_max := value, bl_min := (if value > 32 then value div 5 else 1)\<rparr>
               else bl\<lparr>bl_min := SYS_BACKLIGHT_MIN, bl_max := SYS_BACKLIGHT_MAX\<rparr>)
     in Inr (LDAL_EOK, dev\<lparr>user_data := Some bl\<rparr>, w))))"

definition backlight_open :: "'w kernel \<Rightarrow> ('p, 'w) dev_call" where
  "backlight_open K dev w =
     bind_res (bl_path dev ''/brightness'') (\<lambda>path.
     if k_access K path w = -1 then Inr (- LDAL_ERROR, dev, w) else Inr (LDAL_EOK, dev, w))"

definition backlight_close :: "('p, 'w) dev_call" where
  "backlight_close dev w = Inr (LDAL_EOK, dev, w)"

text \<open>The two conversions; the differences are computed as \<open>int\<close>.\<close>

definition bl_delta :: "ldal_backlight_device \<Rightarrow> f32 result" where
  "bl_delta bl =
     bind_res (c_add (bl_max bl) (- bl_min bl)) (\<lambda>n. Inr (f_div (f_of_int n) (f_of_int USR_BACKLIGHT_MAX)))"

definition bl_to_user :: "ldal_backlight_device \<Rightarrow> int \<Rightarrow> int result" where
  "bl_to_user bl sys_val =
     bind_res (bl_delta bl) (\<lambda>delta.
     bind_res (c_add sys_val (- bl_min bl)) (\<lambda>n. f_to_int (f_div (f_of_int n) delta)))"

definition bl_to_sys :: "ldal_backlight_device \<Rightarrow> int \<Rightarrow> int result" where
  "bl_to_sys bl value =
     bind_res (bl_delta bl) (\<lambda>delta.
     f_to_int (f_add (f_mul (f_of_int value) delta) (f_of_int (bl_min bl))))"

definition backlight_read :: "'w kernel \<Rightarrow> (ldal_backlight_device, 'w) read_call" where
  "backlight_read K dev buf len w =
     assert_ptr buf (\<lambda>b.
     if len < 4 then Inr (- LDAL_EINVAL, buf, dev, w)
     else
       bind_res (bl_path dev ''/brightness'') (\<lambda>path.
       bind_res (get_from_file K path (k_stack_int K w) w) (\<lambda>(r, sys_val, w).
       if r \<noteq> LDAL_EOK then Inr (- LDAL_ERROR, buf, dev, w)
       else
         bind_res (parent dev) (\<lambda>bl.
         bind_res (bl_to_user bl sys_val) (\<lambda>v.
         bind_res (memcpy b 0 (int_bytes v) 0 4) (\<lambda>b. Inr (LDAL_EOK, Some b, dev, w)))))))"

definition backlight_write :: "'w kernel \<Rightarrow> (ldal_backlight_device, 'w) write_call" where
  "backlight_write K dev buf len w =
     assert_ptr buf (\<lambda>b.
     if len < 4 then Inr (- LDAL_EINVAL, dev, w)
     else if length b < 4 then Inl Out_Of_Bounds
     else
       let value = bytes_int b in
       if value < USR_BACKLIGHT_MIN \<or> USR_BACKLIGHT_MAX < value then Inr (- LDAL_EINVAL, dev, w)
       else
         bind_res (parent dev) (\<lambda>bl.
         bind_res (bl_to_sys bl value) (\<lambda>sys_val.
         bind_res (bl_path dev ''/brightness'') (\<lambda>path.
         let (r, w) = set_to_file K path sys_val w in Inr (r, dev, w)))))"

definition backlight_device_ops :: "'w kernel \<Rightarrow> (ldal_backlight_device, 'w) device_ops" where
  "backlight_device_ops K = no_ops
     \<lparr>op_init := Some (backlight_init K), op_open := Some (backlight_open K),
      op_close := Some backlight_close, op_read := Some (backlight_read K),
      op_write := Some (backlight_write K)\<rparr>"

lemma backlight_read_frame: "backlight_read K d buf len w = Inr (r, buf', d', w') \<Longrightarrow> d' = d"
  by (auto simp: backlight_read_def assert_ptr_Inr split: if_split_asm)

lemma backlight_write_frame: "backlight_write K d buf len w = Inr (r, d', w') \<Longrightarrow> d' = d"
  by (auto simp: backlight_write_def assert_ptr_Inr Let_def case_prod_unfold simp del: ldal_codes
      split: if_split_asm)

lemma backlight_open_frame: "backlight_open K d w = Inr (r, d', w') \<Longrightarrow> d' = d"
  by (auto simp: backlight_open_def split: if_split_asm)

lemma backlight_init_frame: "backlight_init K d w = Inr (r, d', w') \<Longrightarrow> dev_id d' = dev_id d"
  by (auto simp: backlight_init_def parent_Inr dev_frame Let_def)

interpretation backlight_drv: driver "backlight_device_ops K" for K
  by unfold_locales
    (auto simp: backlight_device_ops_def no_ops_def backlight_close_def
      dest: backlight_read_frame backlight_write_frame backlight_open_frame backlight_init_frame)


section \<open>The conversions\<close>

text \<open>
  A range the class works with; the system's levels are at most 16 bits. \<open>bl_step\<close> is the float the code
  calls \<open>delta\<close>.
\<close>

definition bl_ok :: "ldal_backlight_device \<Rightarrow> bool" where
  "bl_ok bl \<longleftrightarrow> 1 \<le> bl_min bl \<and> bl_min bl < bl_max bl \<and> bl_max bl < 2 ^ 16"

definition bl_step :: "ldal_backlight_device \<Rightarrow> rat" where
  "bl_step bl = round_abs (of_int (bl_max bl - bl_min bl) / 100)"

lemma bl_delta_ok:
  assumes "bl_ok bl"
  shows "bl_delta bl = Inr (Num (bl_step bl))" "0 < bl_step bl"
    "\<bar>bl_step bl - of_int (bl_max bl - bl_min bl) / 100\<bar> \<le> of_int (bl_max bl - bl_min bl) / 100 / 2 ^ 24"
proof -
  define n where "n = bl_max bl - bl_min bl"
  have n: "1 \<le> n" "n < 2 ^ 16" using assms by (auto simp: n_def bl_ok_def)
  have q: "(1::rat) \<le> of_int n" "of_int n < (2::rat) ^ 16"
    using n by (simp, metis of_int_less_iff of_int_numeral of_int_power)
  have l: "2 powi (- 126) \<le> (of_int n / 100 :: rat)"
  proof -
    have "(2::rat) powi (- 126) \<le> 1 / 100" by (simp add: power_int_minus)
    with q show ?thesis by simp
  qed
  have "f_div (f_of_int n) (f_of_int 100) = f_round (of_int n / 100)"
    using n f_of_int_small [of n] f_of_int_small [of 100] by simp
  moreover have "f_round (of_int n / 100) = Num (round_abs (of_int n / 100))" "0 < round_abs (of_int n / 100)"
    using q l by (intro f_round_pos; simp)+
  ultimately show "bl_delta bl = Inr (Num (bl_step bl))" "0 < bl_step bl"
    using n by (simp_all add: bl_delta_def bl_step_def c_add_def in_int_def USR_BACKLIGHT_MAX_def flip: n_def)
  show "\<bar>bl_step bl - of_int (bl_max bl - bl_min bl) / 100\<bar> \<le> of_int (bl_max bl - bl_min bl) / 100 / 2 ^ 24"
    using round_abs_error [OF l] by (simp add: bl_step_def n_def)
qed

lemma abs_diff_bound: "\<bar>a - b\<bar> \<le> c \<longleftrightarrow> a \<le> b + c \<and> b \<le> a + c" for a b c :: rat
  by linarith

lemmas abs_diffD = abs_diff_bound [THEN iffD1, THEN conjunct1] abs_diff_bound [THEN iffD1, THEN conjunct2]

lemma f_to_int_pos: "0 < q \<Longrightarrow> q < 2 ^ 31 \<Longrightarrow> f_to_int (Num q) = Inr \<lfloor>q\<rfloor>"
proof -
  assume q: "0 < q" "q < 2 ^ 31"
  have "0 \<le> \<lfloor>q\<rfloor>" "\<lfloor>q\<rfloor> < 2 ^ 31" using q by (simp_all add: floor_less_iff)
  with q show ?thesis by (simp add: f_to_int_def in_int_def Let_def)
qed

lemma bl_to_sys_ok:
  assumes "bl_ok bl" "0 \<le> v" "v \<le> 100"
  shows "\<exists>n. bl_to_sys bl v = Inr n \<and> bl_min bl \<le> n \<and> n \<le> bl_max bl \<and>
    of_int n \<le> of_int (bl_min bl) + of_int v * of_int (bl_max bl - bl_min bl) / 100 + (1 / 16 :: rat) \<and>
    of_int (bl_min bl) + of_int v * of_int (bl_max bl - bl_min bl) / 100 < of_int n + (17 / 16 :: rat)"
proof (cases "v = 0")
  case True
  have "f_of_int (bl_min bl) = Num (of_int (bl_min bl))"
    using assms(1) by (intro f_of_int_small) (auto simp: bl_ok_def)
  moreover have "f_to_int (Num (of_int (bl_min bl))) = Inr (bl_min bl)"
    using assms(1) by (simp add: f_to_int_def bl_ok_def in_int_def)
  ultimately show ?thesis
    using True bl_delta_ok(1) [OF assms(1)] assms(1) by (simp add: bl_to_sys_def bl_ok_def)
next
  case False
  define D where "D = (of_int (bl_max bl - bl_min bl) :: rat)"
  define m where "m = (of_int (bl_min bl) :: rat)"
  define s where "s = bl_step bl"
  define V where "V = (of_int v :: rat)"
  have pow: "(2::rat) ^ 16 = 65536" "(2::rat) ^ 17 = 131072" "(2::rat) ^ 18 = 262144"
    "(2::rat) ^ 24 = 16777216" "(2::rat) ^ 31 = 2147483648" by simp_all
  have V: "1 \<le> V" "V \<le> 100" using False assms(2,3) by (simp_all add: V_def)
  have D: "1 \<le> D" "1 \<le> m" "m + D < 2 ^ 16"
  proof -
    show "1 \<le> D" "1 \<le> m" using assms(1) by (simp_all add: D_def m_def bl_ok_def)
    have "m + D = of_int (bl_max bl)" by (simp add: m_def D_def)
    then show "m + D < 2 ^ 16"
      using assms(1) unfolding bl_ok_def by (metis of_int_less_iff of_int_numeral of_int_power)
  qed
  have s: "0 < s" "\<bar>s - D / 100\<bar> \<le> D / 100 / 2 ^ 24"
    using bl_delta_ok(2,3) [OF assms(1)] by (simp_all add: s_def D_def)
  have vs: "\<bar>V * s - V * D / 100\<bar> \<le> D / 2 ^ 24"
  proof -
    have "V * s - V * D / 100 = V * (s - D / 100)" by (simp add: algebra_simps)
    then have "\<bar>V * s - V * D / 100\<bar> = V * \<bar>s - D / 100\<bar>" using V(1) by (simp add: abs_mult)
    also have "\<dots> \<le> 100 * (D / 100 / 2 ^ 24)" using V s by (intro mult_mono) auto
    finally show ?thesis by simp
  qed
  have vd: "V * D / 100 \<le> D" using V D by (simp add: mult_right_mono)
  have lo: "2 powi (- 126) \<le> V * s"
  proof -
    have "(2::rat) powi (- 126) \<le> 1 / 1000" by (simp add: power_int_minus)
    moreover have "D / 100 - s \<le> D / 100 / 2 ^ 24" using s(2) by linarith
    with D have "1 / 1000 \<le> s" by simp
    moreover have "s \<le> V * s" using V s by simp
    ultimately show ?thesis by linarith
  qed
  have x: "0 < V * s" "V * s < 2 ^ 17"
    using V s(1) by simp (use abs_diffD [OF vs] vd D in \<open>unfold pow, linarith\<close>)
  have mul: "f_mul (f_of_int v) (Num s) = Num (round_abs (V * s))" and p0: "0 < round_abs (V * s)"
    using f_of_int_small [of v] False assms(2,3) f_round_pos [OF x(1) _ lo] x by (simp_all flip: V_def)
  define p where "p = round_abs (V * s)"
  have p: "\<bar>p - V * s\<bar> \<le> V * s / 2 ^ 24" using round_abs_error [OF lo] by (simp add: p_def)
  have pm: "0 < p + m" "p + m < 2 ^ 18" "2 powi (- 126) \<le> p + m"
  proof -
    have "(2::rat) powi (- 126) \<le> 1" by (simp add: power_int_minus)
    then show "2 powi (- 126) \<le> p + m" using p0 D by (simp add: p_def)
    show "0 < p + m" "p + m < 2 ^ 18" using abs_diffD [OF p] x p0 [folded p_def] D by simp_all
  qed
  define t where "t = round_abs (p + m)"
  have t: "\<bar>t - (p + m)\<bar> \<le> (p + m) / 2 ^ 24" using round_abs_error [OF pm(3)] by (simp add: t_def)
  have "f_of_int (bl_min bl) = Num m"
    using assms(1) unfolding m_def by (intro f_of_int_small) (auto simp: bl_ok_def)
  then have "f_add (f_mul (f_of_int v) (Num s)) (f_of_int (bl_min bl)) = Num t" and t0: "0 < t"
    using mul f_round_pos [OF pm(1) _ pm(3)] pm(2) by (simp_all add: p_def t_def)
  moreover have small: "(p + m) / 2 ^ 24 \<le> 1 / 64" using pm(2) by simp
  have small2: "V * s / 2 ^ 24 \<le> 1 / 128" using x(2) unfolding pow by linarith
  have small3: "D / 2 ^ 24 \<le> 1 / 256" using D unfolding pow by linarith
  note small = small small2 small3
  have err: "\<bar>t - (m + V * D / 100)\<bar> \<le> 1 / 16"
  proof (rule abs_diff_bound [THEN iffD2], rule conjI)
    show "t \<le> m + V * D / 100 + 1 / 16"
      using abs_diffD(1) [OF t] abs_diffD(1) [OF p] abs_diffD(1) [OF vs] small by linarith
    show "m + V * D / 100 \<le> t + 1 / 16"
      using abs_diffD(2) [OF t] abs_diffD(2) [OF p] abs_diffD(2) [OF vs] small by linarith
  qed
  moreover have "t < 2 ^ 31" using abs_diffD [OF err] vd D unfolding pow by linarith
  ultimately have n: "bl_to_sys bl v = Inr \<lfloor>t\<rfloor>"
    using bl_delta_ok(1) [OF assms(1)] f_to_int_pos [of t] by (simp add: bl_to_sys_def s_def)
  have "of_int (bl_min bl) \<le> t"
    unfolding t_def using p0 pm assms(1)
    by (intro round_abs_lower) (simp_all add: m_def p_def bl_ok_def)
  then have "bl_min bl \<le> \<lfloor>t\<rfloor>" by (simp add: le_floor_iff)
  moreover have "t < of_int (bl_max bl + 1)"
  proof -
    have "of_int (bl_max bl + 1) = m + D + 1" by (simp add: m_def D_def)
    then show ?thesis using abs_diffD [OF err] vd by linarith
  qed
  then have "\<lfloor>t\<rfloor> \<le> bl_max bl" by (simp add: floor_le_iff)
  moreover have "of_int \<lfloor>t\<rfloor> \<le> m + V * D / 100 + 1 / 16" "m + V * D / 100 < of_int \<lfloor>t\<rfloor> + 17 / 16"
    using abs_diffD [OF err] of_int_floor_le [of t] floor_correct [of t] by linarith+
  ultimately show ?thesis using n by (simp add: m_def D_def V_def)
qed

text \<open>Back from the level: with 110 levels or more, at most one step is lost.\<close>

lemma bl_to_user_ok:
  assumes bl: "bl_ok bl" "110 \<le> bl_max bl - bl_min bl" and v: "0 \<le> v" "v \<le> 100"
    and n: "bl_min bl \<le> n" "n \<le> bl_max bl"
      "of_int n \<le> of_int (bl_min bl) + of_int v * of_int (bl_max bl - bl_min bl) / 100 + (1 / 16 :: rat)"
      "of_int (bl_min bl) + of_int v * of_int (bl_max bl - bl_min bl) / 100 < of_int n + (17 / 16 :: rat)"
  shows "\<exists>u. bl_to_user bl n = Inr u \<and> v - 1 \<le> u \<and> u \<le> v \<and> 0 \<le> u"
proof -
  define D where "D = (of_int (bl_max bl - bl_min bl) :: rat)"
  define N where "N = (of_int (n - bl_min bl) :: rat)"
  define V where "V = (of_int v :: rat)"
  define s where "s = bl_step bl"
  have pow: "(2::rat) ^ 24 = 16777216" by simp
  have D: "110 \<le> D" "D < 65536"
  proof -
    have "of_int 110 \<le> D" unfolding D_def of_int_le_iff by (rule bl(2))
    then show "110 \<le> D" by simp
    have "D < of_int 65536" unfolding D_def of_int_less_iff using bl(1) by (simp add: bl_ok_def)
    then show "D < 65536" by simp
  qed
  have V: "0 \<le> V" "V \<le> 100" using v by (simp_all add: V_def)
  have N: "N \<le> V * D / 100 + 1 / 16" "V * D / 100 < N + 17 / 16"
    using n(3,4) unfolding N_def V_def D_def by simp_all
  have s: "0 < s" "\<bar>s - D / 100\<bar> \<le> D / 100 / 2 ^ 24"
    using bl_delta_ok(2,3) [OF bl(1)] by (simp_all add: s_def D_def)
  have sD: "s \<le> D / 100 + D / 1677721600" "D / 100 - D / 1677721600 \<le> s"
    using abs_diffD [OF s(2)] by simp_all
  have vs: "V * s \<le> V * D / 100 + D / 16777216" "V * D / 100 - D / 16777216 \<le> V * s"
  proof -
    have "V * s \<le> V * (D / 100 + D / 1677721600)" using sD(1) V by (intro mult_left_mono)
    moreover have "V * (D / 1677721600) \<le> 100 * (D / 1677721600)" using V D by (intro mult_right_mono) simp_all
    ultimately show "V * s \<le> V * D / 100 + D / 16777216"
      unfolding distrib_left times_divide_eq_right by linarith
    have "V * (D / 100 - D / 1677721600) \<le> V * s" using sD(2) V by (intro mult_left_mono)
    moreover have "V * (D / 1677721600) \<le> 100 * (D / 1677721600)" using V D by (intro mult_right_mono) simp_all
    ultimately show "V * D / 100 - D / 16777216 \<le> V * s"
      unfolding right_diff_distrib times_divide_eq_right by linarith
  qed
  define q where "q = N / s"
  have q: "q * s = N" using s(1) by (simp add: q_def)
  have up: "q < V + 6 / 100"
  proof (rule ccontr)
    assume "\<not> q < V + 6 / 100"
    then have "(V + 6 / 100) * s \<le> q * s" using s(1) by (intro mult_right_mono) simp_all
    then have "V * s + 6 / 100 * s \<le> N" by (simp only: distrib_right q)
    then show False using N(1) vs(2) sD(2) D by linarith
  qed
  have low: "V - 97 / 100 < q"
  proof (rule ccontr)
    assume "\<not> V - 97 / 100 < q"
    then have "q * s \<le> (V - 97 / 100) * s" using s(1) by (intro mult_right_mono) simp_all
    then have "N \<le> V * s - 97 / 100 * s" by (simp only: left_diff_distrib q)
    then show False using N(2) vs(1) sD(2) D by linarith
  qed
  have c: "c_add n (- bl_min bl) = Inr (n - bl_min bl)"
    using n bl(1) by (simp add: c_add_def in_int_def bl_ok_def)
  show ?thesis
  proof (cases "n = bl_min bl")
    case True
    then have "N = 0" by (simp add: N_def)
    then have "V * D / 100 < 17 / 16" using N(2) by simp
    moreover have "V * 110 \<le> V * D" using V D by (intro mult_left_mono)
    ultimately have "V < 1" by linarith
    then have "v = 0" using v(1) by (simp add: V_def)
    then show ?thesis
      using True c bl_delta_ok(1) [OF bl(1)] by (simp add: bl_to_user_def f_to_int_def)
  next
    case False
    have fN: "f_of_int (n - bl_min bl) = Num N"
      using False n bl(1) unfolding N_def by (intro f_of_int_small) (simp_all add: bl_ok_def)
    have "1 \<le> N" using False n(1) by (simp add: N_def)
    then have q0: "0 < q" using s(1) by (simp add: q_def)
    have q1: "2 powi (- 126) \<le> q"
    proof -
      have "s \<le> 1000" using sD(1) D by linarith
      then have "1 / 1000 \<le> q"
        using \<open>1 \<le> N\<close> s(1) unfolding q_def by (intro frac_le) simp_all
      moreover have "(2::rat) powi (- 126) \<le> 1 / 1000" by (simp add: power_int_minus)
      ultimately show ?thesis by linarith
    qed
    define r where "r = round_abs q"
    have qs: "q < 2 ^ 24" using up V by simp
    have r: "f_div (Num N) (Num s) = Num r" "0 < r"
      using f_round_pos [OF q0 qs q1] by (simp_all add: q_def r_def)
    have e: "\<bar>r - q\<bar> \<le> q / 2 ^ 24" using round_abs_error [OF q1] by (simp add: r_def)
    have "q / 2 ^ 24 \<le> 1 / 100" using up V by simp
    with abs_diffD [OF e] up low have rr: "r < V + 1 / 10" "V - 99 / 100 < r" by linarith+
    have "f_to_int (Num r) = Inr \<lfloor>r\<rfloor>" using r(2) rr V by (intro f_to_int_pos) simp_all
    moreover have "\<lfloor>r\<rfloor> \<le> v" using rr(1) by (simp add: floor_le_iff V_def)
    moreover have "v - 1 \<le> \<lfloor>r\<rfloor>" using rr(2) by (simp add: le_floor_iff V_def)
    moreover have "0 \<le> \<lfloor>r\<rfloor>" using r(2) by simp
    ultimately show ?thesis
      using c fN r(1) bl_delta_ok(1) [OF bl(1)] by (auto simp: bl_to_user_def s_def)
  qed
qed


section \<open>Properties\<close>

lemma backlight_dispatch:
  assumes "has_ops cls d (backlight_device_ops K)" "\<not> mutex d"
  shows "read_device cls d buf len w =
      bind_res (backlight_read K (d\<lparr>mutex := True\<rparr>) buf len w) (\<lambda>(ret, buf, d, w).
      Inr (ret, buf, mutex_unlock d, w))"
    "write_device cls d buf len w =
      bind_res (backlight_write K (d\<lparr>mutex := True\<rparr>) buf len w) (\<lambda>(ret, d, w).
      Inr (ret, mutex_unlock d, w))"
  using assms
  by (simp_all add: read_device_def write_device_def mutex_lock_def has_ops_fetch backlight_device_ops_def
      no_ops_def)

lemma bl_path_mutex [simp]: "bl_path (d\<lparr>mutex := m\<rparr>) s = bl_path d s"
  by (simp add: bl_path_def)

text \<open>A brightness that is in range is computed, and its level is what is written to the file.\<close>

lemma backlight_write_eq:
  assumes d: "has_ops cls d (backlight_device_ops K)" "\<not> mutex d" "user_data d = Some bl"
      "bl_path d ''/brightness'' = Inr path"
    and v: "0 \<le> v" "v \<le> 100" "4 \<le> len" and n: "bl_to_sys bl v = Inr n"
  shows "write_device cls d (Some (int_bytes v)) len w =
    Inr (fst (set_to_file K path n w), d, snd (set_to_file K path n w))"
proof -
  have l: "\<not> len < 4" using v(3) by (simp add: not_less)
  have b: "bytes_int (int_bytes v) = v" using v by (intro bytes_int_bytes) (simp add: in_int_def)
  then have "backlight_write K (d\<lparr>mutex := True\<rparr>) (Some (int_bytes v)) len w =
      Inr (fst (set_to_file K path n w), d\<lparr>mutex := True\<rparr>, snd (set_to_file K path n w))"
    using d(3,4) v(1,2) n unfolding backlight_write_def Let_def
    by (simp add: b l parent_def backlight_limits case_prod_unfold)
  then show ?thesis
    unfolding backlight_dispatch [OF d(1,2)] by (simp add: mutex_unlock_def device_mutex_same [OF d(2)])
qed

text \<open>
  Setting the brightness of a backlight writes a level between the device's minimum and its
  maximum to the file, for every brightness from 0 to 100: the exact linear level, at most one below it
  and a sixteenth above, whatever the rounding of the float arithmetic.
\<close>
theorem backlight_level:
  fixes K :: "'w kernel"
  assumes "has_ops cls d (backlight_device_ops K)" "\<not> mutex d" "user_data d = Some bl"
    and "bl_path d ''/brightness'' = Inr path" "bl_ok bl" "0 \<le> v" "v \<le> 100" "4 \<le> len"
  shows "\<exists>n. write_device cls d (Some (int_bytes v)) len w =
      Inr (fst (set_to_file K path n w), d, snd (set_to_file K path n w)) \<and>
    bl_min bl \<le> n \<and> n \<le> bl_max bl \<and>
    of_int n \<le> of_int (bl_min bl) + of_int v * of_int (bl_max bl - bl_min bl) / 100 + (1 / 16 :: rat) \<and>
    of_int (bl_min bl) + of_int v * of_int (bl_max bl - bl_min bl) / 100 < of_int n + (17 / 16 :: rat)"
  using bl_to_sys_ok [OF assms(5-7)] backlight_write_eq [OF assms(1-4,6-8)] by blast

definition fresh_backlight :: ldal_backlight_device where
  "fresh_backlight = \<lparr>bl_status = 0, bl_min = 20, bl_max = 255\<rparr>"

definition sample_backlight :: "ldal_backlight_device ldal_device" where
  "sample_backlight = fresh_device ''bl'' ''/sys/bl'' fresh_backlight"

lemma sample_backlight_simps [simp]:
  "has_ops (single_class (backlight_device_ops K)) sample_backlight (backlight_device_ops K)"
  "\<not> mutex sample_backlight" "user_data sample_backlight = Some fresh_backlight" "bl_ok fresh_backlight"
  "bl_path sample_backlight ''/brightness'' = Inr ''/sys/bl/brightness''"
proof -
  have "read_cstr (filename sample_backlight) = Inr ''/sys/bl''"
    unfolding sample_backlight_def by (rule fresh_device_path) (simp_all add: NUL_def)
  then show "bl_path sample_backlight ''/brightness'' = Inr ''/sys/bl/brightness''" by (simp add: bl_path_def)
qed (simp_all add: sample_backlight_def fresh_backlight_def bl_ok_def)

lemma backlight_level_witness:
  "\<exists>n. write_device (single_class (backlight_device_ops sample_kernel)) sample_backlight
       (Some (int_bytes 50)) 4 0 =
     Inr (fst (set_to_file sample_kernel ''/sys/bl/brightness'' n 0), sample_backlight,
       snd (set_to_file sample_kernel ''/sys/bl/brightness'' n 0)) \<and> 20 \<le> n \<and> n \<le> 255"
  using backlight_level [OF sample_backlight_simps(1-3,5,4), of 50 4 sample_kernel 0]
  by (auto simp: fresh_backlight_def)

text \<open>A file that is there and whose text is what was last written to it.\<close>

definition keeps_text :: "'w kernel \<Rightarrow> string \<Rightarrow> bool" where
  "keeps_text K path \<longleftrightarrow>
     (\<forall>s w. \<exists>fp w1 n w2 fp' w3.
        k_fopen K path ''w'' w = (Some fp, w1) \<and> k_fputs K fp s w1 = (n, w2) \<and> 0 \<le> n \<and>
        k_fopen K path ''r'' (snd (k_fclose K fp w2)) = (Some fp', w3) \<and> fst (k_ftext K fp' w3) = s)"

lemma file_roundtrip:
  assumes "keeps_text K path" "in_int n"
  obtains w1 w2 where "set_to_file K path n w = (LDAL_EOK, w1)"
    "\<And>x. get_from_file K path x w1 = Inr (LDAL_EOK, n, w2)"
proof -
  obtain fp w1 r w2 fp' w3 where f: "k_fopen K path ''w'' w = (Some fp, w1)"
    "k_fputs K fp (print_d n) w1 = (r, w2)" "0 \<le> r"
    "k_fopen K path ''r'' (snd (k_fclose K fp w2)) = (Some fp', w3)" "fst (k_ftext K fp' w3) = print_d n"
    using assms(1) unfolding keeps_text_def by metis
  have "set_to_file K path n w = (LDAL_EOK, snd (k_fclose K fp w2))"
    using f by (simp add: set_to_file_def case_prod_unfold)
  moreover have "get_from_file K path x (snd (k_fclose K fp w2)) =
      Inr (LDAL_EOK, n, snd (k_fclose K fp' (snd (k_ftext K fp' w3))))" for x
    using f(4,5) assms(2) by (simp add: get_from_file_def case_prod_unfold scan_print_d)
  ultimately show thesis by (rule that)
qed

text \<open>
  Property C21. The brightness read back from a backlight with at least 110 levels is the one that was set or
  one less, never more, provided the file keeps what is written to it.
\<close>
theorem backlight_roundtrip:
  fixes K :: "'w kernel"
  assumes d: "has_ops cls d (backlight_device_ops K)" "\<not> mutex d" "user_data d = Some bl"
      "bl_path d ''/brightness'' = Inr path"
    and bl: "bl_ok bl" "110 \<le> bl_max bl - bl_min bl" and v: "0 \<le> v" "v \<le> 100"
    and K: "keeps_text K path" and b: "length b = 4"
  shows "\<exists>u w1 w2. write_device cls d (Some (int_bytes v)) 4 w = Inr (LDAL_EOK, d, w1) \<and>
    read_device cls d (Some b) 4 w1 = Inr (LDAL_EOK, Some (int_bytes u), d, w2) \<and> u \<in> {v - 1, v} \<and> 0 \<le> u"
proof -
  obtain n where n: "bl_to_sys bl v = Inr n" "bl_min bl \<le> n" "n \<le> bl_max bl"
    and near: "of_int n \<le> of_int (bl_min bl) + of_int v * of_int (bl_max bl - bl_min bl) / 100 + (1 / 16 :: rat)"
      "of_int (bl_min bl) + of_int v * of_int (bl_max bl - bl_min bl) / 100 < of_int n + (17 / 16 :: rat)"
    using bl_to_sys_ok [OF bl(1) v] by blast
  obtain u where u: "bl_to_user bl n = Inr u" "v - 1 \<le> u" "u \<le> v" "0 \<le> u"
    using bl_to_user_ok [OF bl v n(2,3) near] by blast
  have "in_int n" using n(2,3) bl(1) by (simp add: in_int_def bl_ok_def)
  then obtain w1 w2 where f: "set_to_file K path n w = (LDAL_EOK, w1)"
    "\<And>x. get_from_file K path x w1 = Inr (LDAL_EOK, n, w2)"
    using file_roundtrip [OF K] by metis
  have "memcpy b 0 (int_bytes u) 0 4 = Inr (int_bytes u)"
    using memcpy_nat [of 0 4 b 0 "int_bytes u"] b by simp
  then have "read_device cls d (Some b) 4 w1 = Inr (LDAL_EOK, Some (int_bytes u), d, w2)"
    unfolding backlight_dispatch [OF d(1,2)] using d(3,4) f(2) u(1)
    by (simp add: backlight_read_def parent_def mutex_unlock_def device_mutex_same [OF d(2)])
  moreover have "u \<in> {v - 1, v}" using u(2,3) by auto
  ultimately show ?thesis
    using backlight_write_eq [OF d v _ n(1), of 4 w] f(1) u(4) by auto
qed

definition text_kernel :: "string kernel" where
  "text_kernel = quiet_kernel\<lparr>k_ftext := (\<lambda>_ s. (s, s)), k_fputs := (\<lambda>_ s _. (int (length s), s))\<rparr>"

lemma backlight_roundtrip_witness:
  "\<exists>u w1 w2. write_device (single_class (backlight_device_ops text_kernel)) sample_backlight
      (Some (int_bytes 37)) 4 [] = Inr (0, sample_backlight, w1) \<and>
    read_device (single_class (backlight_device_ops text_kernel)) sample_backlight (Some [0, 0, 0, 0]) 4 w1 =
      Inr (0, Some (int_bytes u), sample_backlight, w2) \<and> u \<in> {36, 37}"
proof -
  have "keeps_text text_kernel ''/sys/bl/brightness''"
    by (simp add: keeps_text_def text_kernel_def quiet_kernel_def)
  moreover have "110 \<le> bl_max fresh_backlight - bl_min fresh_backlight" by (simp add: fresh_backlight_def)
  ultimately show ?thesis
    using backlight_roundtrip [OF sample_backlight_simps(1-3,5,4), of 37 text_kernel "[0, 0, 0, 0]" "[]"]
    by fastforce
qed

text \<open>
  Initialising a backlight takes the maximum from the file and a fifth of it, not a twentieth,
  as the minimum, or 1 if the maximum is at most 32; without the file the range is 20 to 255. The range is
  then one the conversions work with, for every maximum from 2 to 65535.
\<close>
theorem backlight_init_range:
  fixes K :: "'w kernel"
  assumes "user_data d = Some bl" "bl_path d ''/max_brightness'' = Inr path" "2 \<le> m" "m < 2 ^ 16"
    and "get_from_file K path (k_stack_int K w) w = Inr (r, m, w')"
  shows "\<exists>bl'. backlight_init K d w = Inr (LDAL_EOK, d\<lparr>user_data := Some bl'\<rparr>, w') \<and> bl_ok bl' \<and>
    (bl_min bl', bl_max bl') =
      (if r = LDAL_EOK then (if 32 < m then m div 5 else 1, m) else (SYS_BACKLIGHT_MIN, SYS_BACKLIGHT_MAX))"
  using assms by (auto simp: backlight_init_def parent_def bl_ok_def backlight_limits Let_def)

lemma backlight_init_range_witness:
  "\<exists>bl'. backlight_init sample_kernel sample_backlight 0 =
      Inr (LDAL_EOK, sample_backlight\<lparr>user_data := Some bl'\<rparr>, 3) \<and> bl_ok bl' \<and> bl_min bl' = 20 \<and> bl_max bl' = 100"
proof -
  have "read_cstr (filename sample_backlight) = Inr ''/sys/bl''"
    unfolding sample_backlight_def by (rule fresh_device_path) (simp_all add: NUL_def)
  then have "bl_path sample_backlight ''/max_brightness'' = Inr ''/sys/bl/max_brightness''"
    by (simp add: bl_path_def)
  moreover have "scan_d ''100'' = Scan_Int 100"
    by (simp add: scan_d_def is_space_def is_digit_def digit_value_def)
  then have "get_from_file sample_kernel p x 0 = Inr (0, 100, 3)" for p x
    by (simp add: get_from_file_def sample_kernel_def in_int_def)
  ultimately show ?thesis
    using backlight_init_range [of sample_backlight fresh_backlight _ 100 sample_kernel 0 0 3] by fastforce
qed

end
