(* ===== verification/Analog_Driver.thy ===== *)
theory Analog_Driver
  imports Ldal_Device Float32
begin

text \<open>
  The analog input class, \<open>src/class/ldal_analog.c\<close>: a sample is a \<open>float\<close> in microampere or millivolt, which
  is calibrated by a linear model, clipped to the range of the mode and scaled to the configured
  range. The calibration is kept in a file and in the input's controller, protected by a checksum. Floats
  are kept as bit patterns where they are stored; no operation is contracted with another.
\<close>

section \<open>Constants and structures\<close>

definition AI_SET_CURR_VOL_VALMAX_VALMIN :: int where "AI_SET_CURR_VOL_VALMAX_VALMIN = 0x101"
definition AI_SET_CORRECT_VOL_CUR :: int where "AI_SET_CORRECT_VOL_CUR = 0x102"
definition AI_GET_CORRECT_VOL_CUR :: int where "AI_GET_CORRECT_VOL_CUR = 0x103"

lemmas analog_commands =
  AI_SET_CURR_VOL_VALMAX_VALMIN_def AI_SET_CORRECT_VOL_CUR_def AI_GET_CORRECT_VOL_CUR_def

definition AI_CONF_VOLT_CURR :: u32 where "AI_CONF_VOLT_CURR = iow (CHR ''k'') 1 4"
definition AI_SET_VOLT_CURR_CAL :: u32 where "AI_SET_VOLT_CURR_CAL = iow (CHR ''k'') 5 4"
definition AI_GET_VOLT_CURR_CAL :: u32 where "AI_GET_VOLT_CURR_CAL = iow (CHR ''k'') 6 4"

definition ADC_CURRENT_VALUE_MIN :: f32 where "ADC_CURRENT_VALUE_MIN = Num 4000"
definition ADC_CURRENT_VALUE_MAX :: f32 where "ADC_CURRENT_VALUE_MAX = Num 20000"
definition ADC_VOLTAGE_VALUE_MIN :: f32 where "ADC_VOLTAGE_VALUE_MIN = Zero False"
definition ADC_VOLTAGE_VALUE_MAX :: f32 where "ADC_VOLTAGE_VALUE_MAX = Num 5000"

lemmas adc_limits =
  ADC_CURRENT_VALUE_MIN_def ADC_CURRENT_VALUE_MAX_def ADC_VOLTAGE_VALUE_MIN_def ADC_VOLTAGE_VALUE_MAX_def

definition ANALOG_CALIB_DIR :: string where "ANALOG_CALIB_DIR = ''/etc/aicfgs/''"
definition AI_AVERAGE_N :: nat where "AI_AVERAGE_N = 10"
definition READ_TRY_COUNT :: nat where "READ_TRY_COUNT = 5"

datatype adc_mode = ADC_MODE_CURRENT | ADC_MODE_VOLTAGE

text \<open>\<open>g_calib_point\<close>, the two points of each mode.\<close>

fun calib_p1 :: "adc_mode \<Rightarrow> f32" where
  "calib_p1 ADC_MODE_CURRENT = Num 6000"
| "calib_p1 ADC_MODE_VOLTAGE = Num 1000"

fun calib_p2 :: "adc_mode \<Rightarrow> f32" where
  "calib_p2 ADC_MODE_CURRENT = Num 16000"
| "calib_p2 ADC_MODE_VOLTAGE = Num 4000"

text \<open>
  \<open>struct aicfgs\<close> is read from and written to a file as it is, so the byte of its \<open>bool\<close> and the
  three bytes of padding after it are kept.
\<close>

record aicfgs =
  is_corrected :: byte
  ac_pad :: "byte list"
  slope :: u32
  intercept :: u32

definition aicfgs_bytes :: "aicfgs \<Rightarrow> byte list" where
  "aicfgs_bytes c = is_corrected c # ac_pad c @ u32_bytes (slope c) @ u32_bytes (intercept c)"

definition bytes_aicfgs :: "byte list \<Rightarrow> aicfgs" where
  "bytes_aicfgs bs =
     \<lparr>is_corrected = bs ! 0, ac_pad = take 3 (drop 1 bs), slope = bytes_u32 (take 4 (drop 4 bs)),
      intercept = bytes_u32 (take 4 (drop 8 bs))\<rparr>"

text \<open>Reading a \<open>bool\<close> whose byte is neither 0 nor 1 is undefined.\<close>

definition load_bool :: "byte \<Rightarrow> bool result" where
  "load_bool b = (if b = 0 then Inr False else if b = 1 then Inr True else Inl Bad_Cast)"

text \<open>The array \<open>aicfgs[ADC_MODE_NUM]\<close> has an element for each mode; \<open>status\<close> is not used.\<close>

record ldal_analog_device =
  pos :: int
  mode :: adc_mode
  cfg_current :: aicfgs
  cfg_voltage :: aicfgs
  ai_conf :: ai_conf
  calib_data0 :: u32
  calib_data1 :: u32

definition cfg :: "ldal_analog_device \<Rightarrow> adc_mode \<Rightarrow> aicfgs" where
  "cfg adev m = (case m of ADC_MODE_CURRENT \<Rightarrow> cfg_current adev | ADC_MODE_VOLTAGE \<Rightarrow> cfg_voltage adev)"

definition set_cfg :: "adc_mode \<Rightarrow> u32 \<Rightarrow> u32 \<Rightarrow> byte \<Rightarrow> ldal_analog_device \<Rightarrow> ldal_analog_device" where
  "set_cfg m s i b adev =
     (case m of
        ADC_MODE_CURRENT \<Rightarrow>
          adev\<lparr>cfg_current := (cfg_current adev)\<lparr>is_corrected := b, slope := s, intercept := i\<rparr>\<rparr>
      | ADC_MODE_VOLTAGE \<Rightarrow>
          adev\<lparr>cfg_voltage := (cfg_voltage adev)\<lparr>is_corrected := b, slope := s, intercept := i\<rparr>\<rparr>)"

definition cfgs_bytes :: "ldal_analog_device \<Rightarrow> byte list" where
  "cfgs_bytes adev = aicfgs_bytes (cfg_current adev) @ aicfgs_bytes (cfg_voltage adev)"

definition load_cfgs :: "byte list \<Rightarrow> ldal_analog_device \<Rightarrow> ldal_analog_device" where
  "load_cfgs bs adev = adev\<lparr>cfg_current := bytes_aicfgs (take 12 bs), cfg_voltage := bytes_aicfgs (drop 12 bs)\<rparr>"

section \<open>The checksum\<close>

fun crc_bits :: "nat \<Rightarrow> u32 \<Rightarrow> u32" where
  "crc_bits 0 r = r"
| "crc_bits (Suc n) r =
     (let flag = r AND 1; r = drop_bit 1 r in crc_bits n (if flag = 1 then r XOR 0xa001 else r))"

definition crc_byte :: "u32 \<Rightarrow> byte \<Rightarrow> u32" where
  "crc_byte r b = (let hi = ucast (drop_bit 8 r) XOR b in crc_bits 8 (ucast hi))"

definition CRC16_212 :: "byte list \<Rightarrow> u32" where
  "CRC16_212 buf = foldl crc_byte 0xffff buf"

section \<open>The calibration file\<close>

text \<open>The mode of a new file is 0644.\<close>

definition calib_path :: "'p ldal_device \<Rightarrow> string result" where
  "calib_path dev = bind_res (read_cstr (name dev)) (\<lambda>s. Inr (ANALOG_CALIB_DIR @ s))"

definition get_calib_data_from_file ::
    "'w kernel \<Rightarrow> 'p ldal_device \<Rightarrow> byte list \<Rightarrow> size_t \<Rightarrow> 'w \<Rightarrow> (int \<times> byte list \<times> 'w) result" where
  "get_calib_data_from_file K dev buf len w =
     bind_res (calib_path dev) (\<lambda>pathname.
     let (h, w) = k_open K pathname O_RDONLY 0 w in
     if h = -1 then Inr (- LDAL_ERROR, buf, w)
     else
       let (ret, data, w) = k_read K h (unat len) w in
       bind_res (store_reply buf ret data) (\<lambda>buf.
       let (_, w) = k_close K h w in
       Inr (if ret = -1 then - LDAL_ERROR else LDAL_EOK, buf, w)))"

definition save_calib_data_to_file ::
    "'w kernel \<Rightarrow> 'p ldal_device \<Rightarrow> byte list \<Rightarrow> size_t \<Rightarrow> 'w \<Rightarrow> (int \<times> 'w) result" where
  "save_calib_data_to_file K dev buf len w =
     bind_res (calib_path dev) (\<lambda>pathname.
     let (h, w) = k_open K pathname (O_WRONLY OR O_CREAT) 420 w in
     if h = -1 then Inr (- LDAL_ERROR, w)
     else if length buf < unat len then Inl Out_Of_Bounds
     else
       let (ret, w) = k_write K h (take (unat len) buf) w; (_, w) = k_close K h w in
       Inr (if ret = -1 then - LDAL_ERROR else LDAL_EOK, w))"

section \<open>The driver\<close>

definition import_cfgs ::
    "'w kernel \<Rightarrow> 'p ldal_device \<Rightarrow> ldal_analog_device \<Rightarrow> 'w \<Rightarrow> (ldal_analog_device \<times> 'w) result" where
  "import_cfgs K dev adev w =
     bind_res (get_calib_data_from_file K dev (cfgs_bytes adev) 24 w) (\<lambda>(_, buf, w).
     Inr (load_cfgs buf adev, w))"

definition analog_init :: "'w kernel \<Rightarrow> (ldal_analog_device, 'w) dev_call" where
  "analog_init K dev w =
     bind_res (parent dev) (\<lambda>adev.
     let adev = adev\<lparr>mode := ADC_MODE_CURRENT\<rparr>;
         adev = set_cfg ADC_MODE_CURRENT (f_encode (Num 1)) (f_encode (Zero False)) 0 adev;
         adev = set_cfg ADC_MODE_VOLTAGE (f_encode (Num 1)) (f_encode (Zero False)) 0 adev
     in
     bind_res (import_cfgs K dev adev w) (\<lambda>(adev, w).
     let adev = adev\<lparr>ai_conf := \<lparr>current_voltage = 0, value_max = f_encode (Num 100),
                    value_min = f_encode (Zero False)\<rparr>\<rparr>
     in Inr (LDAL_EOK, dev\<lparr>user_data := Some adev\<rparr>, w)))"

definition analog_open :: "'w kernel \<Rightarrow> ('p, 'w) dev_call" where
  "analog_open K dev w =
     bind_res (read_cstr (filename dev)) (\<lambda>path.
     let (h, w) = k_open K path (O_RDWR OR O_NONBLOCK) 0 w; dev = dev\<lparr>fd := h\<rparr> in
     Inr (if fd dev < 0 then - LDAL_ERROR else LDAL_EOK, dev, w))"

definition analog_close :: "'w kernel \<Rightarrow> ('p, 'w) dev_call" where
  "analog_close K dev w = (let (_, w) = k_close K (fd dev) w in Inr (LDAL_EOK, dev, w))"

definition fit_linear_model :: "f32 \<Rightarrow> f32 \<Rightarrow> f32 \<Rightarrow> f32" where
  "fit_linear_model x s i = f_add (f_mul x s) i"

text \<open>The range of each mode: a value far below the range of the current is 0.\<close>

definition clip :: "adc_mode \<Rightarrow> f32 \<Rightarrow> f32" where
  "clip m value =
     (case m of
        ADC_MODE_CURRENT \<Rightarrow>
          if f_less value (f_sub ADC_CURRENT_VALUE_MIN (Num 100)) then Zero False
          else if f_less value ADC_CURRENT_VALUE_MIN then ADC_CURRENT_VALUE_MIN
          else if f_less ADC_CURRENT_VALUE_MAX value then ADC_CURRENT_VALUE_MAX
          else value
      | ADC_MODE_VOLTAGE \<Rightarrow>
          if f_less value ADC_VOLTAGE_VALUE_MIN then Zero False
          else if f_less ADC_VOLTAGE_VALUE_MAX value then ADC_VOLTAGE_VALUE_MAX
          else value)"

definition scale :: "ai_conf \<Rightarrow> f32 \<Rightarrow> f32" where
  "scale conf value =
     (let vmax = f_decode (value_max conf); vmin = f_decode (value_min conf) in
      if f_less vmin vmax then
        let delta = f_sub vmax vmin; base = vmin;
            (lo, hi) = (if current_voltage conf = 0 then (ADC_CURRENT_VALUE_MIN, ADC_CURRENT_VALUE_MAX)
                        else (ADC_VOLTAGE_VALUE_MIN, ADC_VOLTAGE_VALUE_MAX))
        in f_add (f_mul (f_div (f_div (f_sub value lo) (f_sub hi lo)) (Num 1000)) delta) base
      else Zero False)"

text \<open>\<open>ret < sizeof(value)\<close> compares as \<open>size_t\<close>, so that \<open>-1\<close> is not below 4.\<close>

definition short_read :: "int \<Rightarrow> bool" where
  "short_read ret \<longleftrightarrow> (word_of_int ret :: size_t) < 4"

definition analog_read :: "'w kernel \<Rightarrow> (ldal_analog_device, 'w) read_call" where
  "analog_read K dev buf len w =
     assert_ptr buf (\<lambda>b.
     if len < 4 then Inr (- LDAL_ERROR, buf, dev, w)
     else
       let (ret, data, w) = k_read K (fd dev) 4 w in
       bind_res (store_reply (u32_bytes (f_encode (Zero False))) ret data) (\<lambda>v.
       if short_read (to_int ret) then Inr (- LDAL_ERROR, buf, dev, w)
       else
         bind_res (parent dev) (\<lambda>adev.
         bind_res (load_bool (is_corrected (cfg adev (mode adev)))) (\<lambda>corrected.
         let value = f_decode (bytes_u32 v);
             value = (if corrected
                      then fit_linear_model value (f_decode (slope (cfg adev (mode adev))))
                             (f_decode (intercept (cfg adev (mode adev))))
                      else value);
             value = clip (mode adev) value;
             value = scale (ai_conf adev) value
         in bind_res (memcpy b 0 (u32_bytes (f_encode value)) 0 4) (\<lambda>b. Inr (LDAL_EOK, Some b, dev, w))))))"

definition analog_write :: "('p, 'w) write_call" where
  "analog_write dev buf len w = Inr (LDAL_EOK, dev, w)"

text \<open>
  The mean of up to ten samples without the least and the greatest. \<open>left\<close> is the number of samples still
  to be read, \<open>v\<close> the bytes of the last sample. The sum is a \<open>double\<close>.
\<close>

fun average_loop ::
    "'w kernel \<Rightarrow> int \<Rightarrow> nat \<Rightarrow> byte list \<Rightarrow> f32 \<Rightarrow> f32 \<Rightarrow> f32 \<Rightarrow> int \<Rightarrow> 'w \<Rightarrow>
     (byte list \<times> f32 \<times> f32 \<times> f32 \<times> int \<times> 'w) result" where
  "average_loop K f 0 v vmin vmax vsum count w = Inr (v, vmin, vmax, vsum, count, w)"
| "average_loop K f (Suc left) v vmin vmax vsum count w =
     (let (ret, data, w) = k_read K f 4 w in
      bind_res (store_reply v ret data) (\<lambda>v.
      if short_read (to_int ret) then average_loop K f left v vmin vmax vsum count w
      else
        let x = f_decode (bytes_u32 v);
            (vmin, vmax) =
              (if Suc left = AI_AVERAGE_N then (x, x)
               else if f_less x vmin then (x, vmax)
               else if f_less vmax x then (vmin, x)
               else (vmin, vmax));
            w = k_usleep K 50000 w
        in average_loop K f left v vmin vmax (d_add vsum x) (count + 1) w))"

definition get_ai_average :: "'w kernel \<Rightarrow> int \<Rightarrow> 'w \<Rightarrow> (int \<times> u32 \<times> 'w) result" where
  "get_ai_average K f w =
     bind_res (average_loop K f AI_AVERAGE_N (u32_bytes (f_encode (Zero False))) (Zero False) (Zero False)
       (Zero False) 0 w) (\<lambda>(v, vmin, vmax, vsum, count, w).
     Inr (0, if 2 < count then f_encode (d_to_f (d_div (d_sub (d_sub vsum vmin) vmax) (d_of_int (count - 2))))
             else bytes_u32 v, w))"

text \<open>What is sent to the controller; the checksum is over the four floats.\<close>

definition cal_floats :: "ai_calibrate \<Rightarrow> byte list" where
  "cal_floats c = u32_bytes (vol_a c) @ u32_bytes (vol_b c) @ u32_bytes (cur_a c) @ u32_bytes (cur_b c)"

definition cal_of :: "ldal_analog_device \<Rightarrow> ai_calibrate" where
  "cal_of adev =
     (let c = \<lparr>cal_dev = word_of_int (pos adev), vol_a = slope (cfg_voltage adev),
               vol_b = intercept (cfg_voltage adev), cur_a = slope (cfg_current adev),
               cur_b = intercept (cfg_current adev), cal_crc = 0\<rparr>
      in c\<lparr>cal_crc := ucast (CRC16_212 (cal_floats c))\<rparr>)"

text \<open>The file is written from the device's structure before that is updated.\<close>

definition calib_adc_value ::
    "'w kernel \<Rightarrow> 'p ldal_device \<Rightarrow> ldal_analog_device \<Rightarrow> u32 \<Rightarrow> 'w \<Rightarrow>
     (int \<times> ldal_analog_device \<times> 'w) result" where
  "calib_adc_value K dev adev type w =
     (let m = (if bit type 1 then ADC_MODE_VOLTAGE else ADC_MODE_CURRENT) in
      if bit type 0 then
        bind_res (get_ai_average K (fd dev) w) (\<lambda>(ret, x, w).
        let adev = adev\<lparr>calib_data1 := x\<rparr> in
        if ret < 0 then Inr (- LDAL_ERROR, adev, w)
        else
          let s = f_encode (f_div (f_sub (calib_p2 m) (calib_p1 m))
                    (f_sub (f_decode (calib_data1 adev)) (f_decode (calib_data0 adev))));
              i = f_encode (f_sub (calib_p2 m) (f_mul (f_decode s) (f_decode (calib_data1 adev))))
          in
          bind_res (save_calib_data_to_file K dev (cfgs_bytes adev) 24 w) (\<lambda>(ret, w).
          if ret < 0 then Inr (- LDAL_ERROR, adev, w)
          else
            let adev = set_cfg m s i 1 adev;
                (_, _, w) = k_ioctl_cal K (fd dev) AI_SET_VOLT_CURR_CAL (cal_of adev) w
            in Inr (LDAL_EOK, adev, w)))
      else
        bind_res (get_ai_average K (fd dev) w) (\<lambda>(ret, x, w). Inr (ret, adev\<lparr>calib_data0 := x\<rparr>, w)))"

text \<open>The calibration of the controller, if one of \<open>n\<close> requests succeeds.\<close>

fun get_cal_tries ::
    "'w kernel \<Rightarrow> int \<Rightarrow> nat \<Rightarrow> ai_calibrate \<Rightarrow> 'w \<Rightarrow> ai_calibrate option \<times> 'w" where
  "get_cal_tries K f 0 c w = (None, w)"
| "get_cal_tries K f (Suc n) c w =
     (let (r, c, w) = k_ioctl_cal K f AI_GET_VOLT_CURR_CAL c w in
      if r = 0 then (Some c, w) else get_cal_tries K f n c (k_usleep K 500000 w))"

definition restore_adc_value ::
    "'w kernel \<Rightarrow> 'p ldal_device \<Rightarrow> ldal_analog_device \<Rightarrow> 'w \<Rightarrow> (int \<times> ldal_analog_device \<times> 'w) result" where
  "restore_adc_value K dev adev w =
     bind_res (import_cfgs K dev adev w) (\<lambda>(adev, w).
     case get_cal_tries K (fd dev) READ_TRY_COUNT (k_stack_cal K w) w of
       (Some c, w) \<Rightarrow>
         if ucast (CRC16_212 (cal_floats c)) \<noteq> cal_crc c then Inr (- LDAL_ERROR, adev, w)
         else
           let adev = set_cfg ADC_MODE_CURRENT (cur_a c) (cur_b c) 1 adev;
               adev = set_cfg ADC_MODE_VOLTAGE (vol_a c) (vol_b c) 1 adev
           in bind_res (save_calib_data_to_file K dev (cfgs_bytes adev) 24 w) (\<lambda>(ret, w). Inr (ret, adev, w))
     | (None, w) \<Rightarrow>
         let (ret, _, w) = k_ioctl_cal K (fd dev) AI_SET_VOLT_CURR_CAL (cal_of adev) w in Inr (ret, adev, w))"

definition analog_control :: "'w kernel \<Rightarrow> (ldal_analog_device, 'w) control_call" where
  "analog_control K dev cmd arg w =
     (if cmd = AI_SET_CURR_VOL_VALMAX_VALMIN then
        (case arg of
           Arg_Null \<Rightarrow> Inr (- LDAL_EINVAL, arg, dev, w)
         | Arg_Ai_Conf conf \<Rightarrow>
             bind_res (parent dev) (\<lambda>adev.
             let t = \<lparr>at_dev = word_of_int (pos adev), at_type = word_of_int (current_voltage conf)\<rparr>;
                 (ret, w) = k_ioctl_aitype K (fd dev) AI_CONF_VOLT_CURR t w
             in Inr (ret, arg, dev\<lparr>user_data := Some (adev\<lparr>ai_conf := conf\<rparr>)\<rparr>, w))
         | _ \<Rightarrow> Inl Bad_Cast)
      else if cmd = AI_SET_CORRECT_VOL_CUR then
        (case arg of
           Arg_Null \<Rightarrow> Inr (- LDAL_EINVAL, arg, dev, w)
         | Arg_Correct c \<Rightarrow>
             bind_res (parent dev) (\<lambda>adev.
             bind_res (calib_adc_value K dev adev (value_type c) w) (\<lambda>(ret, adev, w).
             Inr (ret, arg, dev\<lparr>user_data := Some adev\<rparr>, w)))
         | _ \<Rightarrow> Inl Bad_Cast)
      else if cmd = AI_GET_CORRECT_VOL_CUR then
        bind_res (parent dev) (\<lambda>adev.
        bind_res (restore_adc_value K dev adev w) (\<lambda>(ret, adev, w).
        Inr (ret, arg, dev\<lparr>user_data := Some adev\<rparr>, w)))
      else Inr (- LDAL_EINVAL, arg, dev, w))"

definition analog_device_ops :: "'w kernel \<Rightarrow> (ldal_analog_device, 'w) device_ops" where
  "analog_device_ops K = no_ops
     \<lparr>op_init := Some (analog_init K), op_open := Some (analog_open K), op_close := Some (analog_close K),
      op_read := Some (analog_read K), op_write := Some analog_write,
      op_control := Some (analog_control K)\<rparr>"

lemma analog_init_frame: "analog_init K d w = Inr (r, d', w') \<Longrightarrow> dev_id d' = dev_id d"
  by (auto simp: analog_init_def parent_Inr dev_frame Let_def)

lemma analog_read_frame: "analog_read K d buf len w = Inr (r, buf', d', w') \<Longrightarrow> d' = d"
  by (auto simp: analog_read_def assert_ptr_Inr Let_def case_prod_unfold split: if_split_asm)

lemma analog_control_frame:
  "analog_control K d cmd arg w = Inr (r, arg', d', w') \<Longrightarrow> dev_id d' = dev_id d"
  unfolding analog_control_def
  by (auto simp: parent_Inr dev_frame Let_def case_prod_unfold split: if_split_asm ctrl_arg.splits)

interpretation analog_drv: driver "analog_device_ops K" for K
  by unfold_locales
    (auto simp: analog_device_ops_def no_ops_def analog_open_def analog_close_def analog_write_def Let_def
      dev_frame case_prod_unfold
      dest: analog_init_frame [unfolded dev_id_simps] analog_read_frame analog_control_frame [unfolded dev_id_simps])

section \<open>What the checksum detects\<close>

text \<open>One step of the shift register is linear, and so are eight of them.\<close>

definition crc_step :: "u32 \<Rightarrow> u32" where
  "crc_step r = drop_bit 1 r XOR (if bit r 0 then 0xa001 else 0)"

lemma crc_bits_Suc: "crc_bits (Suc n) r = crc_bits n (crc_step r)"
proof -
  have "r AND 1 = (if bit r 0 then 1 else 0)" by (simp add: and_one_eq bit_0 mod2_eq_if)
  then show ?thesis by (simp add: Let_def crc_step_def)
qed

lemma poly_bits: "bit (0xa001 :: u32) j \<longleftrightarrow> j = 0 \<or> j = 13 \<or> j = 15"
proof -
  have eq: "(0xa001 :: u32) = push_bit 15 1 OR (push_bit 13 1 OR 1)" by simp
  show ?thesis unfolding eq
    by (simp only: bit_or_iff bit_push_bit_iff bit_1_iff possible_bit_word) auto
qed

lemma bit_crc_step: "bit (crc_step r) j \<longleftrightarrow> bit r (Suc j) \<noteq> (bit r 0 \<and> (j = 0 \<or> j = 13 \<or> j = 15))"
  by (cases "bit r 0") (simp_all only: crc_step_def bit_xor_iff bit_drop_bit_eq comp_apply poly_bits if_True if_False
    bit_0_eq bot_apply plus_1_eq_Suc simp_thms, auto)

lemma crc_step_xor: "crc_step (r XOR s) = crc_step r XOR crc_step s"
  by (rule bit_eqI) (auto simp: bit_crc_step bit_simps)

lemma crc_bits_xor: "crc_bits n (r XOR s) = crc_bits n r XOR crc_bits n s"
proof (induction n arbitrary: r s)
  case 0
  show ?case by simp
next
  case (Suc n)
  then show ?case by (simp only: crc_bits_Suc crc_step_xor)
qed

lemma crc_bits_back:
  assumes "\<forall>j \<ge> 16. \<not> bit r j" "n \<le> 16" "\<forall>j \<ge> 16 - n. \<not> bit (crc_bits n r) j"
  shows "bit r j = (n \<le> j \<and> bit (crc_bits n r) (j - n))"
  using assms
proof (induction n arbitrary: r j)
  case 0
  then show ?case by simp
next
  case (Suc n)
  have s: "\<forall>j \<ge> 16. \<not> bit (crc_step r) j" using Suc.prems(1) by (auto simp: bit_crc_step)
  have IH: "bit (crc_step r) i = (n \<le> i \<and> bit (crc_bits (Suc n) r) (i - n))" for i
    unfolding crc_bits_Suc using Suc.prems(2,3) [unfolded crc_bits_Suc] by (intro Suc.IH [OF s]) auto
  have "\<not> bit (crc_step r) 15" using IH [of 15] Suc.prems(2,3) by auto
  then have e: "\<not> bit r 0" using Suc.prems(1) by (auto simp: bit_crc_step)
  show ?case
  proof (cases j)
    case 0
    with e show ?thesis by simp
  next
    case (Suc i)
    have "bit r j = bit (crc_step r) i" using e Suc by (auto simp: bit_crc_step)
    then show ?thesis using IH [of i] Suc by simp
  qed
qed

text \<open>The high byte of the table entry determines the byte; it is all the state that is carried on.\<close>

definition crc_hi :: "u32 \<Rightarrow> byte" where
  "crc_hi r = ucast (drop_bit 8 r)"

lemma bit_crc_hi: "bit (crc_hi r) j \<longleftrightarrow> j < 8 \<and> bit r (8 + j)"
  by (auto simp: crc_hi_def bit_simps)

lemma crc_bits_16: "\<forall>j \<ge> 16. \<not> bit r j \<Longrightarrow> 16 \<le> j \<Longrightarrow> \<not> bit (crc_bits n r) j"
proof (induction n arbitrary: r)
  case (Suc n)
  show ?case unfolding crc_bits_Suc by (rule Suc.IH) (use Suc.prems in \<open>auto simp: bit_crc_step\<close>)
qed simp

lemma crc_hi_inject: "crc_hi (crc_bits 8 (ucast x)) = crc_hi (crc_bits 8 (ucast y)) \<longleftrightarrow> x = y" for x y :: byte
proof
  assume h: "crc_hi (crc_bits 8 (ucast x)) = crc_hi (crc_bits 8 (ucast y))"
  define z where "z = x XOR y"
  have 16: "\<forall>j \<ge> 16. \<not> bit (ucast b :: u32) j" for b :: byte
    by (auto simp: bit_simps dest: bit_imp_le_length)
  have z: "crc_bits 8 (ucast z) = crc_bits 8 (ucast x) XOR crc_bits 8 (ucast y)"
    by (simp add: z_def unsigned_xor_eq crc_bits_xor)
  have "\<not> bit (crc_bits 8 (ucast z)) j" if "8 \<le> j" for j
  proof (cases "16 \<le> j")
    case True
    then show ?thesis using crc_bits_16 [OF 16] by blast
  next
    case False
    then have "j - 8 < 8" "8 + (j - 8) = j" using that by simp_all
    then have "bit (crc_bits 8 (ucast x)) j = bit (crc_bits 8 (ucast y)) j"
      using h bit_crc_hi [of _ "j - 8"] by metis
    then show ?thesis by (simp add: z bit_simps)
  qed
  then have "bit (ucast z :: u32) j = (8 \<le> j \<and> bit (crc_bits 8 (ucast z)) (j - 8))" for j
    by (intro crc_bits_back 16) auto
  moreover have "\<not> (8 \<le> j \<and> bit (ucast z :: u32) j)" for j
    by (auto simp: bit_simps dest: bit_imp_le_length)
  ultimately have "(ucast z :: u32) = 0" by (intro bit_eqI) auto
  then have "z = 0" using ucast_down_up [of z, where 'b = 32] by simp
  moreover have "x = z XOR y" by (simp add: z_def xor.assoc)
  ultimately show "x = y" by simp
qed simp

lemma crc_byte_eq: "crc_byte r b = crc_bits 8 (ucast (crc_hi r XOR b))"
  by (simp add: crc_byte_def crc_hi_def)

text \<open>Different states with equal rest stay different; two bytes can make the difference up.\<close>

lemma crc_rest:
  assumes "crc_hi r \<noteq> crc_hi s"
  shows "crc_hi (foldl crc_byte r bs) \<noteq> crc_hi (foldl crc_byte s bs)"
  using assms
proof (induction bs arbitrary: r s)
  case (Cons b bs)
  have "crc_hi r XOR b \<noteq> crc_hi s XOR b"
    using Cons.prems by (metis xor.assoc xor.right_neutral xor_self_eq)
  then have "crc_hi (crc_byte r b) \<noteq> crc_hi (crc_byte s b)" by (simp only: crc_byte_eq crc_hi_inject) simp
  then show ?case by (simp add: Cons.IH)
qed simp

lemma crc_u16:
  assumes "crc_hi r \<noteq> crc_hi s"
  shows "(ucast r :: u16) \<noteq> ucast s"
proof
  assume u: "(ucast r :: u16) = ucast s"
  have "bit (crc_hi t) j = (j < 8 \<and> bit (ucast t :: u16) (8 + j))" for t :: u32 and j
    by (auto simp: bit_crc_hi bit_ucast_iff)
  with u have "crc_hi r = crc_hi s" by (intro bit_eqI) simp
  with assms show False by simp
qed

lemma crc_single:
  assumes "b \<noteq> c"
  shows "(ucast (CRC16_212 (xs @ b # ys)) :: u16) \<noteq> ucast (CRC16_212 (xs @ c # ys))"
proof -
  define r where "r = foldl crc_byte 0xffff xs"
  have "crc_hi r XOR b \<noteq> crc_hi r XOR c"
    using assms by (metis xor.assoc xor.left_neutral xor_self_eq)
  then have "crc_hi (crc_byte r b) \<noteq> crc_hi (crc_byte r c)" by (simp add: crc_byte_eq crc_hi_inject)
  then show ?thesis
    unfolding CRC16_212_def foldl_append foldl.simps r_def [symmetric] by (intro crc_u16 crc_rest)
qed

text \<open>
  Property C22. The checksum of the analog calibration tells any two byte sequences apart that differ in
  one byte, also after it is cut to 16 bits; but it carries only eight bits from byte to byte, so for every
  change of a byte there is a change of the next byte that makes it up.
\<close>
theorem crc_strength:
  "(\<forall>xs ys b c. (ucast (CRC16_212 (xs @ b # ys)) :: u16) = ucast (CRC16_212 (xs @ c # ys)) \<longleftrightarrow> b = c) \<and>
   (\<exists>f. \<forall>xs ys b c d. CRC16_212 (xs @ c # f xs b c d # ys) = CRC16_212 (xs @ b # d # ys))"
proof
  show "\<forall>xs ys b c. (ucast (CRC16_212 (xs @ b # ys)) :: u16) = ucast (CRC16_212 (xs @ c # ys)) \<longleftrightarrow> b = c"
    using crc_single by blast
  have "CRC16_212 (xs @ c # (crc_hi (crc_byte (foldl crc_byte 0xffff xs) c) XOR
      (crc_hi (crc_byte (foldl crc_byte 0xffff xs) b) XOR d)) # ys) = CRC16_212 (xs @ b # d # ys)"
    for xs ys b c d
    by (simp add: CRC16_212_def crc_byte_eq flip: xor.assoc)
  then show "\<exists>f. \<forall>xs ys b c d. CRC16_212 (xs @ c # f xs b c d # ys) = CRC16_212 (xs @ b # d # ys)"
    by (intro exI [of _ "\<lambda>xs b c d. crc_hi (crc_byte (foldl crc_byte 0xffff xs) c) XOR
      (crc_hi (crc_byte (foldl crc_byte 0xffff xs) b) XOR d)"]) blast
qed

section \<open>Calibration and its storage\<close>

lemma analog_dispatch:
  assumes "has_ops cls d (analog_device_ops K)" "\<not> mutex d"
  shows "read_device cls d buf len w =
      bind_res (analog_read K (d\<lparr>mutex := True\<rparr>) buf len w) (\<lambda>(ret, buf, d, w).
      Inr (ret, buf, mutex_unlock d, w))"
    "control_device cls d cmd arg w =
      bind_res (analog_control K (d\<lparr>mutex := True\<rparr>) cmd arg w) (\<lambda>(ret, arg, d, w).
      Inr (ret, arg, mutex_unlock d, w))"
  using assms
  by (simp_all add: read_device_def control_device_def mutex_lock_def has_ops_fetch analog_device_ops_def no_ops_def)

lemma calib_path_mutex [simp]: "calib_path (d\<lparr>mutex := m\<rparr>) = calib_path d"
  by (simp add: calib_path_def)

lemma calib_calls_mutex [simp]:
  "get_calib_data_from_file K (d\<lparr>mutex := m\<rparr>) = get_calib_data_from_file K d"
  "save_calib_data_to_file K (d\<lparr>mutex := m\<rparr>) = save_calib_data_to_file K d"
  by (simp_all add: fun_eq_iff get_calib_data_from_file_def save_calib_data_to_file_def)

lemma import_cfgs_mutex [simp]: "import_cfgs K (d\<lparr>mutex := m\<rparr>) = import_cfgs K d"
  by (simp add: fun_eq_iff import_cfgs_def)

lemma calib_control_mutex [simp]:
  "restore_adc_value K (d\<lparr>mutex := m\<rparr>) = restore_adc_value K d"
  "calib_adc_value K (d\<lparr>mutex := m\<rparr>) = calib_adc_value K d"
  unfolding fun_eq_iff restore_adc_value_def calib_adc_value_def calib_calls_mutex import_cfgs_mutex fd_mutex
  by (intro allI refl)+

text \<open>Both images have 12 bytes; the image in memory and in the file is the same.\<close>

definition pads_ok :: "ldal_analog_device \<Rightarrow> bool" where
  "pads_ok adev \<longleftrightarrow> length (ac_pad (cfg_current adev)) = 3 \<and> length (ac_pad (cfg_voltage adev)) = 3"

lemma aicfgs_bytes_roundtrip: "length (ac_pad c) = 3 \<Longrightarrow> bytes_aicfgs (aicfgs_bytes c) = c"
proof -
  assume "length (ac_pad c) = 3"
  moreover obtain x y z where "ac_pad c = [x, y, z]"
    using \<open>length (ac_pad c) = 3\<close> by (auto simp: eval_nat_numeral length_Suc_conv)
  ultimately show ?thesis by (cases c) (simp add: bytes_aicfgs_def aicfgs_bytes_def)
qed

lemma length_aicfgs_bytes: "length (ac_pad c) = 3 \<Longrightarrow> length (aicfgs_bytes c) = 12"
  by (simp add: aicfgs_bytes_def)

lemma length_cfgs_bytes: "pads_ok adev \<Longrightarrow> length (cfgs_bytes adev) = 24"
  by (simp add: cfgs_bytes_def pads_ok_def length_aicfgs_bytes)

lemma load_cfgs_bytes:
  assumes "pads_ok adev0"
  shows "load_cfgs (cfgs_bytes adev0) adev =
    adev\<lparr>cfg_current := cfg_current adev0, cfg_voltage := cfg_voltage adev0\<rparr>"
proof -
  have 12: "length (aicfgs_bytes (cfg_current adev0)) = 12"
    using assms by (simp add: pads_ok_def length_aicfgs_bytes)
  have "bytes_aicfgs (aicfgs_bytes (cfg_current adev0)) = cfg_current adev0"
    "bytes_aicfgs (aicfgs_bytes (cfg_voltage adev0)) = cfg_voltage adev0"
    using assms by (simp_all add: pads_ok_def aicfgs_bytes_roundtrip)
  moreover have "take 12 (cfgs_bytes adev0) = aicfgs_bytes (cfg_current adev0)"
    "drop 12 (cfgs_bytes adev0) = aicfgs_bytes (cfg_voltage adev0)"
    using 12 by (simp_all add: cfgs_bytes_def)
  ultimately show ?thesis by (simp only: load_cfgs_def)
qed

text \<open>The image has the same length whatever the file holds.\<close>

lemma pads_ok_set_cfg [simp]: "pads_ok (set_cfg m s i b adev) = pads_ok adev"
  by (cases m) (simp_all add: set_cfg_def pads_ok_def)

text \<open>
  What POSIX says of the calibration file, a regular file on a disk that is not full; \<open>cont w\<close> is what it holds, \<open>None\<close>
  when there is no such file. The file is opened without \<open>O_TRUNC\<close>: a write replaces the bytes at the
  start and leaves those behind them. A read of \<open>n\<close> bytes gives the first \<open>n\<close>, or all there are. Neither
  closing a descriptor nor a request to the controller changes the file.
\<close>

definition calib_store :: "'w kernel \<Rightarrow> string \<Rightarrow> ('w \<Rightarrow> byte list option) \<Rightarrow> bool" where
  "calib_store K path cont \<longleftrightarrow>
     (\<forall>w. let (h, w1) = k_open K path (O_WRONLY OR O_CREAT) 420 w in
        h \<noteq> -1 \<and>
        (\<forall>bs. length bs \<le> 24 \<longrightarrow>
          (let (n, w2) = k_write K h bs w1 in
           n = int (length bs) \<and>
           cont w2 = Some (bs @ drop (length bs) (case cont w of None \<Rightarrow> [] | Some old \<Rightarrow> old))))) \<and>
     (\<forall>w. let (h, w1) = k_open K path O_RDONLY 0 w in
        cont w1 = cont w \<and>
        (case cont w of
           None \<Rightarrow> h = -1
         | Some bs \<Rightarrow> h \<noteq> -1 \<and>
             (\<forall>n. let (r, data, w2) = k_read K h n w1 in
                data = take n bs \<and> r = int (length data) \<and> cont w2 = cont w))) \<and>
     (\<forall>h w. cont (snd (k_close K h w)) = cont w) \<and>
     (\<forall>h r c w. cont (snd (snd (k_ioctl_cal K h r c w))) = cont w)"

text \<open>The file starts with the calibration of \<open>adev\<close>.\<close>

definition saved :: "byte list option \<Rightarrow> ldal_analog_device \<Rightarrow> bool" where
  "saved c adev \<longleftrightarrow> (\<exists>rest. c = Some (cfgs_bytes adev @ rest))"

lemma calib_store_keep:
  assumes "calib_store K path cont"
  shows "cont (snd (k_close K h w)) = cont w" "cont (snd (snd (k_ioctl_cal K h r c w))) = cont w"
  using assms by (simp_all add: calib_store_def)

lemma save_calib:
  assumes "calib_store K path cont" "calib_path d = Inr path" "pads_ok adev"
  obtains w' where "save_calib_data_to_file K d (cfgs_bytes adev) 24 w = Inr (LDAL_EOK, w')" "saved (cont w') adev"
proof -
  obtain h w1 where o: "k_open K path (O_WRONLY OR O_CREAT) 420 w = (h, w1)" by (metis surj_pair)
  obtain n w2 where wr: "k_write K h (cfgs_bytes adev) w1 = (n, w2)" by (metis surj_pair)
  note law = assms(1) [unfolded calib_store_def, THEN conjunct1, rule_format, of w, unfolded o Let_def prod.case]
  have f: "h \<noteq> -1" "n = 24" "saved (cont w2) adev"
    using law [THEN conjunct1] law [THEN conjunct2, rule_format, of "cfgs_bytes adev"] length_cfgs_bytes [OF assms(3)]
    by (auto simp: wr saved_def)
  with o wr assms(2) length_cfgs_bytes [OF assms(3)] show thesis
    by (intro that [of "snd (k_close K h w2)"])
      (simp_all add: save_calib_data_to_file_def case_prod_unfold calib_store_keep [OF assms(1)])
qed

lemma import_calib:
  assumes "calib_store K path cont" "calib_path d = Inr path" "pads_ok adev" "pads_ok adev0"
    and "saved (cont w) adev0"
  obtains w' where "import_cfgs K d adev w =
      Inr (adev\<lparr>cfg_current := cfg_current adev0, cfg_voltage := cfg_voltage adev0\<rparr>, w')" "cont w' = cont w"
proof -
  obtain rest where c: "cont w = Some (cfgs_bytes adev0 @ rest)" using assms(5) by (auto simp: saved_def)
  obtain h w1 where o: "k_open K path O_RDONLY 0 w = (h, w1)" by (metis surj_pair)
  obtain r data w2 where rd: "k_read K h 24 w1 = (r, data, w2)" by (rule prod_cases3)
  note l = length_cfgs_bytes [OF assms(3)] length_cfgs_bytes [OF assms(4)]
  note law = assms(1) [unfolded calib_store_def, THEN conjunct2, THEN conjunct1, rule_format, of w,
      unfolded o c Let_def prod.case option.case, THEN conjunct2]
  have "h \<noteq> -1" "data = cfgs_bytes adev0" "r = 24" "cont w2 = cont w"
    using law [THEN conjunct1] law [THEN conjunct2, rule_format, of 24] l(2) by (simp_all add: rd c)
  then have f: "h \<noteq> -1" "r = 24" "data = cfgs_bytes adev0" "cont (snd (k_close K h w2)) = cont w"
    by (simp_all add: calib_store_keep [OF assms(1)])
  have "store_reply (cfgs_bytes adev) r data = Inr data"
    using f l memcpy_nat [of 0 24 "cfgs_bytes adev" 0 data] by (simp add: store_reply_def)
  with o rd f(1,2) assms(2) show thesis
    by (intro that [of "snd (k_close K h w2)"])
      (simp_all add: import_cfgs_def get_calib_data_from_file_def case_prod_unfold load_cfgs_bytes [OF assms(4)] f)
qed

lemma calib_path_data [simp]: "calib_path (d\<lparr>user_data := x\<rparr>) = calib_path d"
  by (simp add: calib_path_def)

lemma cfg_simps [simp]:
  "cfg (adev\<lparr>ai_conf := x\<rparr>) = cfg adev" "cfg (adev\<lparr>mode := m\<rparr>) = cfg adev"
  "cfg (adev\<lparr>calib_data0 := y\<rparr>) = cfg adev" "cfg (adev\<lparr>calib_data1 := y\<rparr>) = cfg adev"
  "cfg (adev\<lparr>cfg_current := cfg_current adev0, cfg_voltage := cfg_voltage adev0\<rparr>) = cfg adev0"
  "slope (cfg (set_cfg m s i b adev) m') = (if m' = m then s else slope (cfg adev m'))"
  "intercept (cfg (set_cfg m s i b adev) m') = (if m' = m then i else intercept (cfg adev m'))"
  "is_corrected (cfg (set_cfg m s i b adev) m') = (if m' = m then b else is_corrected (cfg adev m'))"
  by (auto simp: cfg_def set_cfg_def fun_eq_iff split: adc_mode.splits)

lemma pads_ok_simps [simp]:
  "pads_ok (adev\<lparr>ai_conf := x\<rparr>) = pads_ok adev" "pads_ok (adev\<lparr>mode := m\<rparr>) = pads_ok adev"
  "pads_ok (adev\<lparr>calib_data0 := y\<rparr>) = pads_ok adev" "pads_ok (adev\<lparr>calib_data1 := y\<rparr>) = pads_ok adev"
  "pads_ok (adev\<lparr>cfg_current := cfg_current adev0, cfg_voltage := cfg_voltage adev0\<rparr>) = pads_ok adev0"
  by (simp_all add: pads_ok_def)

lemma cfgs_bytes_simps [simp]:
  "cfgs_bytes (adev\<lparr>calib_data1 := y\<rparr>) = cfgs_bytes adev"
  by (simp add: cfgs_bytes_def)

text \<open>
  Property C29. A calibration does not survive a restart: measuring the second point of a mode computes the
  slope through the two points and corrects that mode from then on, and the call succeeds; but what it
  writes to the start of the file, whatever that held, is the calibration from before, and this is what the next
  initialisation loads.
\<close>
theorem calibration_lost:
  fixes K :: "'w kernel"
  assumes d: "has_ops cls d (analog_device_ops K)" "\<not> mutex d" "user_data d = Some adev" "pads_ok adev"
    and K: "calib_store K path cont" "calib_path d = Inr path"
    and c: "bit (value_type c) 0" "m = (if bit (value_type c) 1 then ADC_MODE_VOLTAGE else ADC_MODE_CURRENT)"
      "get_ai_average K (fd d) w = Inr (0, x, w1)"
  shows "\<exists>adev' adev'' w2 w3.
    control_device cls d AI_SET_CORRECT_VOL_CUR (Arg_Correct c) w =
      Inr (LDAL_EOK, Arg_Correct c, d\<lparr>user_data := Some adev'\<rparr>, w2) \<and>
    is_corrected (cfg adev' m) = 1 \<and>
    slope (cfg adev' m) = f_encode (f_div (f_sub (calib_p2 m) (calib_p1 m))
      (f_sub (f_decode x) (f_decode (calib_data0 adev)))) \<and>
    saved (cont w2) adev \<and>
    analog_init K (d\<lparr>user_data := Some adev'\<rparr>) w2 = Inr (LDAL_EOK, d\<lparr>user_data := Some adev''\<rparr>, w3) \<and>
    cfg adev'' = cfg adev"
proof -
  define adev1 where "adev1 = adev\<lparr>calib_data1 := x\<rparr>"
  define s where "s = f_encode (f_div (f_sub (calib_p2 m) (calib_p1 m))
      (f_sub (f_decode x) (f_decode (calib_data0 adev))))"
  define i where "i = f_encode (f_sub (calib_p2 m) (f_mul (f_decode s) (f_decode x)))"
  define adev' where "adev' = set_cfg m s i 1 adev1"
  obtain w2 where save: "save_calib_data_to_file K d (cfgs_bytes adev) 24 w1 = Inr (LDAL_EOK, w2)"
    "saved (cont w2) adev"
    using save_calib [OF K d(4)] by blast
  define w3 where "w3 = snd (snd (k_ioctl_cal K (fd d) AI_SET_VOLT_CURR_CAL (cal_of adev') w2))"
  have w3: "saved (cont w3) adev" using save(2) by (simp add: w3_def calib_store_keep [OF K(1)])
  have "calib_adc_value K d adev (value_type c) w = Inr (LDAL_EOK, adev', w3)"
    using c save(1)
    by (simp add: calib_adc_value_def case_prod_unfold w3_def adev'_def adev1_def s_def i_def Let_def)
  then have 1: "control_device cls d AI_SET_CORRECT_VOL_CUR (Arg_Correct c) w =
      Inr (LDAL_EOK, Arg_Correct c, d\<lparr>user_data := Some adev'\<rparr>, w3)"
    using d(3) unfolding analog_dispatch [OF d(1,2)]
    by (simp add: analog_control_def analog_commands parent_def unlock_data [OF d(2)])
  define adev2 where "adev2 =
    set_cfg ADC_MODE_VOLTAGE (f_encode (Num 1)) (f_encode (Zero False)) 0
      (set_cfg ADC_MODE_CURRENT (f_encode (Num 1)) (f_encode (Zero False)) 0 (adev'\<lparr>mode := ADC_MODE_CURRENT\<rparr>))"
  have "calib_path (d\<lparr>user_data := Some adev'\<rparr>) = Inr path" "pads_ok adev2"
    using K(2) d(4) by (simp_all add: adev2_def adev'_def adev1_def)
  then obtain w4 where "import_cfgs K (d\<lparr>user_data := Some adev'\<rparr>) adev2 w3 =
      Inr (adev2\<lparr>cfg_current := cfg_current adev, cfg_voltage := cfg_voltage adev\<rparr>, w4)"
    using import_calib [OF K(1) _ _ d(4) w3] by metis
  then have "analog_init K (d\<lparr>user_data := Some adev'\<rparr>) w3 = Inr (LDAL_EOK, d\<lparr>user_data := Some (adev2
        \<lparr>cfg_current := cfg_current adev, cfg_voltage := cfg_voltage adev,
          ai_conf := \<lparr>current_voltage = 0, value_max = f_encode (Num 100), value_min = f_encode (Zero False)\<rparr>\<rparr>)\<rparr>, w4)"
    by (simp add: analog_init_def parent_def Let_def flip: adev2_def)
  moreover have "cfg (adev2\<lparr>cfg_current := cfg_current adev, cfg_voltage := cfg_voltage adev, ai_conf := x\<rparr>) = cfg adev"
    for x by (simp only: cfg_simps)
  moreover have "is_corrected (cfg adev' m) = 1" "slope (cfg adev' m) = s" by (simp_all add: adev'_def)
  ultimately show ?thesis using 1 w3 unfolding s_def by blast
qed

definition fresh_analog :: ldal_analog_device where
  "fresh_analog =
     \<lparr>pos = 1, mode = ADC_MODE_CURRENT,
      cfg_current = \<lparr>is_corrected = 0, ac_pad = [0, 0, 0], slope = 0x3F800000, intercept = 0\<rparr>,
      cfg_voltage = \<lparr>is_corrected = 0, ac_pad = [0, 0, 0], slope = 0x3F800000, intercept = 0\<rparr>,
      ai_conf = \<lparr>current_voltage = 0, value_max = 0x42C80000, value_min = 0\<rparr>,
      calib_data0 = 0x469C4000, calib_data1 = 0\<rparr>"

text \<open>A file system with that file as its world, under descriptor 3, and an input that delivers 0.\<close>

definition calib_kernel :: "byte list option kernel" where
  "calib_kernel = quiet_kernel
     \<lparr>k_open := (\<lambda>_ fl _ w.
        if fl = O_RDONLY then (if w = None then - 1 else 3, w) else (3, Some (case w of None \<Rightarrow> [] | Some bs \<Rightarrow> bs))),
      k_read := (\<lambda>h n w.
        let data = take n (if h = 3 then case w of None \<Rightarrow> [] | Some bs \<Rightarrow> bs else [0, 0, 0, 0]) in (int (length data), data, w)),
      k_write := (\<lambda>_ bs w.
        (int (length bs), Some (bs @ drop (length bs) (case w of None \<Rightarrow> [] | Some old \<Rightarrow> old))))\<rparr>"

text \<open>Its reads keep to POSIX, as those of \<open>calib_store\<close> have to.\<close>

lemma calib_kernel_reply: "k_read calib_kernel h n w = (r, data, w') \<Longrightarrow> reply_ok n r data"
  by (auto simp: calib_kernel_def quiet_kernel_def reply_ok_def Let_def)

definition sample_analog :: "ldal_analog_device ldal_device" where
  "sample_analog = fresh_device ''ai1'' ''/dev/ai1'' fresh_analog"

lemma sample_analog_simps [simp]:
  "has_ops (single_class (analog_device_ops K)) sample_analog (analog_device_ops K)"
  "\<not> mutex sample_analog" "user_data sample_analog = Some fresh_analog" "fd sample_analog = 0"
  by (simp_all add: sample_analog_def)

lemma sample_analog_path [simp]: "calib_path sample_analog = Inr ''/etc/aicfgs/ai1''"
proof -
  have "read_cstr (name sample_analog) = Inr ''ai1''"
    unfolding sample_analog_def by (rule fresh_device_name) (simp_all add: NUL_def)
  then show ?thesis by (simp add: calib_path_def ANALOG_CALIB_DIR_def)
qed

lemma fresh_analog_pads [simp]: "pads_ok fresh_analog"
  by (simp add: pads_ok_def fresh_analog_def)

lemma calib_kernel_store: "calib_store calib_kernel path id"
  by (simp add: calib_store_def calib_kernel_def quiet_kernel_def O_WRONLY_def O_CREAT_def O_RDONLY_def Let_def
      split: option.splits)

lemma zero_sample: "f_decode (bytes_u32 [0, 0, 0, 0]) = Zero False" "u32_bytes (f_encode (Zero False)) = [0, 0, 0, 0]"
  "bytes_u32 [0, 0, 0, 0] = 0" "f_decode 0 = Zero False"
  by (simp_all add: f_decode_def f_encode_def bytes_u32_def bytes_int_def u32_bytes_def int_bytes_def)

lemma calib_kernel_average: "get_ai_average calib_kernel 0 None = Inr (0, 0, None)"
proof -
  have r: "k_read calib_kernel 0 4 w = (4, [0, 0, 0, 0], w)" "k_usleep calib_kernel u w = w" for w u
    by (simp_all add: calib_kernel_def quiet_kernel_def)
  have "average_loop calib_kernel 0 n [0, 0, 0, 0] (Zero False) (Zero False) (Zero False) k None =
      Inr ([0, 0, 0, 0], Zero False, Zero False, Zero False, k + int n, None)" for n k
    by (induction n arbitrary: k)
      (simp_all add: r store_reply_def memcpy_def short_read_def zero_sample Let_def)
  moreover have "d_of_int 8 = Num 8" by code_simp
  moreover have "f_encode (Zero False) = 0" by (simp add: f_encode_def)
  ultimately show ?thesis
    unfolding get_ai_average_def zero_sample(2) AI_AVERAGE_N_def
    by (simp add: d_sub_def d_to_f_def)
qed

lemma calibration_lost_witness:
  "\<exists>adev' adev'' w2 w3.
    control_device (single_class (analog_device_ops calib_kernel)) sample_analog AI_SET_CORRECT_VOL_CUR
      (Arg_Correct \<lparr>signal_type = 0, value_type = 1\<rparr>) None =
      Inr (0, Arg_Correct \<lparr>signal_type = 0, value_type = 1\<rparr>, sample_analog\<lparr>user_data := Some adev'\<rparr>, w2) \<and>
    is_corrected (cfg adev' ADC_MODE_CURRENT) = 1 \<and>
    analog_init calib_kernel (sample_analog\<lparr>user_data := Some adev'\<rparr>) w2 =
      Inr (0, sample_analog\<lparr>user_data := Some adev''\<rparr>, w3) \<and> cfg adev'' = cfg fresh_analog"
  using calibration_lost [where m = ADC_MODE_CURRENT and c = "\<lparr>signal_type = 0, value_type = 1\<rparr>",
      OF sample_analog_simps(1-3) fresh_analog_pads calib_kernel_store sample_analog_path, of None 0 None]
  by (simp add: calib_kernel_average) blast

lemma length_cal_floats [simp]: "length (cal_floats c) = 16"
  by (simp add: cal_floats_def)

lemma cal_of_crc: "ucast (CRC16_212 (cal_floats (cal_of adev))) = cal_crc (cal_of adev)"
  by (simp add: cal_of_def cal_floats_def Let_def)

lemma cal_of_floats:
  "cur_a (cal_of adev) = slope (cfg adev ADC_MODE_CURRENT)"
  "cur_b (cal_of adev) = intercept (cfg adev ADC_MODE_CURRENT)"
  "vol_a (cal_of adev) = slope (cfg adev ADC_MODE_VOLTAGE)"
  "vol_b (cal_of adev) = intercept (cfg adev ADC_MODE_VOLTAGE)"
  by (simp_all add: cal_of_def cfg_def Let_def)

text \<open>
  Property C23. Restoring the calibration from a controller that holds what a calibrated input has sent to
  it gives the device that input's calibration in both modes, corrected, and the file then starts with the same;
  if one byte of the four floats has changed, the result is an error, and the device has the calibration
  the file starts with, which is left as it is.
\<close>
theorem calibration_restored:
  fixes K :: "'w kernel"
  assumes d: "has_ops cls d (analog_device_ops K)" "\<not> mutex d" "user_data d = Some adev" "pads_ok adev"
    and K: "calib_store K path cont" "calib_path d = Inr path"
    and w: "saved (cont w) adevf" "pads_ok adevf"
    and ioctl: "\<And>w1. k_ioctl_cal K (fd d) AI_GET_VOLT_CURR_CAL (k_stack_cal K w1) w1 = (0, c, g w1)"
      "\<And>w1. cont (g w1) = cont w1"
  shows "(c = cal_of adev0 \<longrightarrow> (\<exists>adev' w'.
      control_device cls d AI_GET_CORRECT_VOL_CUR arg w = Inr (LDAL_EOK, arg, d\<lparr>user_data := Some adev'\<rparr>, w') \<and>
      (\<forall>m. is_corrected (cfg adev' m) = 1 \<and> slope (cfg adev' m) = slope (cfg adev0 m) \<and>
        intercept (cfg adev' m) = intercept (cfg adev0 m)) \<and> saved (cont w') adev')) \<and>
    (cal_crc c = cal_crc (cal_of adev0) \<and> cal_floats (cal_of adev0) = xs @ a # ys \<and>
     cal_floats c = xs @ b # ys \<and> a \<noteq> b \<longrightarrow> (\<exists>adev' w'.
      control_device cls d AI_GET_CORRECT_VOL_CUR arg w = Inr (- LDAL_ERROR, arg, d\<lparr>user_data := Some adev'\<rparr>, w') \<and>
      cfg adev' = cfg adevf \<and> saved (cont w') adevf))"
proof -
  define adev1 where "adev1 = adev\<lparr>cfg_current := cfg_current adevf, cfg_voltage := cfg_voltage adevf\<rparr>"
  define adev2 where
    "adev2 = set_cfg ADC_MODE_VOLTAGE (vol_a c) (vol_b c) 1 (set_cfg ADC_MODE_CURRENT (cur_a c) (cur_b c) 1 adev1)"
  obtain w1 where i: "import_cfgs K d adev w = Inr (adev1, w1)" "cont w1 = cont w"
    using import_calib [OF K d(4) w(2,1)] unfolding adev1_def by blast
  have "pads_ok adev2" using w(2) by (simp add: adev2_def adev1_def)
  then obtain w2 where s: "save_calib_data_to_file K d (cfgs_bytes adev2) 24 (g w1) = Inr (LDAL_EOK, w2)"
    "saved (cont w2) adev2"
    using save_calib [OF K] by metis
  have t: "get_cal_tries K (fd d) READ_TRY_COUNT (k_stack_cal K w1) w1 = (Some c, g w1)"
    by (simp add: READ_TRY_COUNT_def eval_nat_numeral ioctl(1))
  have call: "control_device cls d AI_GET_CORRECT_VOL_CUR arg w =
      (if ucast (CRC16_212 (cal_floats c)) = cal_crc c
       then Inr (LDAL_EOK, arg, d\<lparr>user_data := Some adev2\<rparr>, w2)
       else Inr (- LDAL_ERROR, arg, d\<lparr>user_data := Some adev1\<rparr>, g w1))"
    using d(3) s(1) unfolding analog_dispatch [OF d(1,2)]
    by (simp add: analog_control_def analog_commands parent_def restore_adc_value_def i(1) t unlock_data [OF d(2)]
        Let_def flip: adev2_def)
  have m: "m = ADC_MODE_CURRENT \<or> m = ADC_MODE_VOLTAGE" for m by (cases m) simp_all
  have good: "\<exists>adev' w'.
      control_device cls d AI_GET_CORRECT_VOL_CUR arg w = Inr (LDAL_EOK, arg, d\<lparr>user_data := Some adev'\<rparr>, w') \<and>
      (\<forall>m. is_corrected (cfg adev' m) = 1 \<and> slope (cfg adev' m) = slope (cfg adev0 m) \<and>
        intercept (cfg adev' m) = intercept (cfg adev0 m)) \<and> saved (cont w') adev'" if c: "c = cal_of adev0"
  proof -
    have "is_corrected (cfg adev2 m) = 1 \<and> slope (cfg adev2 m) = slope (cfg adev0 m) \<and>
        intercept (cfg adev2 m) = intercept (cfg adev0 m)" for m
      using m [of m] by (auto simp: adev2_def c cal_of_floats)
    moreover have "ucast (CRC16_212 (cal_floats c)) = cal_crc c" unfolding c by (rule cal_of_crc)
    ultimately show ?thesis using call s(2) by auto
  qed
  have bad: "\<exists>adev' w'.
      control_device cls d AI_GET_CORRECT_VOL_CUR arg w = Inr (- LDAL_ERROR, arg, d\<lparr>user_data := Some adev'\<rparr>, w') \<and>
      cfg adev' = cfg adevf \<and> saved (cont w') adevf"
    if c: "cal_crc c = cal_crc (cal_of adev0)" "cal_floats (cal_of adev0) = xs @ a # ys"
      "cal_floats c = xs @ b # ys" "a \<noteq> b"
  proof -
    have "ucast (CRC16_212 (cal_floats c)) \<noteq> cal_crc c"
      unfolding c(1) cal_of_crc [symmetric] c(2,3) using crc_single [OF c(4)] by metis
    moreover have "cfg adev1 = cfg adevf" unfolding adev1_def by (rule cfg_simps)
    ultimately show ?thesis using call i(2) w(1) ioctl(2) by auto
  qed
  show ?thesis using good bad by blast
qed

definition restore_kernel :: "byte list option kernel" where
  "restore_kernel = calib_kernel\<lparr>k_ioctl_cal := (\<lambda>_ _ _ w. (0, cal_of (set_cfg ADC_MODE_CURRENT 7 8 1 fresh_analog), w))\<rparr>"

lemma calibration_restored_witness:
  "\<exists>adev' w'. control_device (single_class (analog_device_ops restore_kernel)) sample_analog
      AI_GET_CORRECT_VOL_CUR Arg_Null (Some (cfgs_bytes fresh_analog)) =
      Inr (0, Arg_Null, sample_analog\<lparr>user_data := Some adev'\<rparr>, w') \<and> slope (cfg adev' ADC_MODE_CURRENT) = 7"
proof -
  have "calib_store restore_kernel path id" for path
    by (simp add: restore_kernel_def calib_store_def calib_kernel_def quiet_kernel_def O_WRONLY_def O_CREAT_def
        O_RDONLY_def Let_def split: option.splits)
  from calibration_restored [OF sample_analog_simps(1-3) fresh_analog_pads this sample_analog_path,
      of "Some (cfgs_bytes fresh_analog)" fresh_analog "cal_of (set_cfg ADC_MODE_CURRENT 7 8 1 fresh_analog)" id
        "set_cfg ADC_MODE_CURRENT 7 8 1 fresh_analog"]
  show ?thesis by (auto simp: restore_kernel_def saved_def) (metis cfg_simps(6))
qed

section \<open>Reading\<close>

lemma f_sub_consts [simp]:
  "f_sub (Num 4000) (Num 100) = Num 3900" "f_sub (Num 20000) (Num 4000) = Num 16000"
proof -
  have r: "f_round (of_int n) = Num (of_int n)" if "0 < n" "n < 2 ^ 24" for n
    using f_of_int_small [of n] that by (simp add: f_of_int_def)
  show "f_sub (Num 4000) (Num 100) = Num 3900" "f_sub (Num 20000) (Num 4000) = Num 16000"
    using r [of 3900] r [of 16000] by (simp_all add: f_sub_def)
qed

lemma clip_current:
  assumes "x \<noteq> Nan"
  shows "f_finite (clip ADC_MODE_CURRENT x)"
    "f_val (clip ADC_MODE_CURRENT x) = 0 \<or>
      4000 \<le> f_val (clip ADC_MODE_CURRENT x) \<and> f_val (clip ADC_MODE_CURRENT x) \<le> 20000"
    "f_finite x \<Longrightarrow> 4000 \<le> f_val x \<Longrightarrow> f_val x \<le> 20000 \<Longrightarrow> clip ADC_MODE_CURRENT x = x"
  using assms by (cases x; simp add: clip_def adc_limits)+

lemmas abs_leD = abs_le_iff [THEN iffD1, THEN conjunct1] abs_le_iff [THEN iffD1, THEN conjunct2]

lemma near_bound:
  assumes "near x q" "\<bar>q\<bar> \<le> c"
  shows "f_val x \<le> q + (c / 2 ^ 24 + tiny)" "q - (c / 2 ^ 24 + tiny) \<le> f_val x" "f_finite x"
proof -
  have "\<bar>q\<bar> / 2 ^ 24 \<le> c / 2 ^ 24" using assms(2) by (rule divide_right_mono) simp
  then have "\<bar>f_val x - q\<bar> \<le> c / 2 ^ 24 + tiny" using assms(1) unfolding near_def by linarith
  then show "f_val x \<le> q + (c / 2 ^ 24 + tiny)" "q - (c / 2 ^ 24 + tiny) \<le> f_val x" by linarith+
  show "f_finite x" using assms(1) by (simp add: near_def)
qed

text \<open>The fraction of the range of the current, divided by 1000.\<close>

lemma fraction_near:
  assumes "f_finite v" "0 \<le> f_val v" "f_val v \<le> 20000"
  defines "x \<equiv> f_div (f_div (f_sub v (Num 4000)) (Num 16000)) (Num 1000)"
  shows "f_finite x" "\<bar>f_val x - (f_val v - 4000) / 16000 / 1000\<bar> \<le> 31 / 10000 / 2 ^ 24"
proof -
  define q where "q = f_val v - 4000"
  have q: "- 4000 \<le> q" "q \<le> 16000" using assms(2,3) by (simp_all add: q_def)
  have t: "0 < tiny" "tiny < 1 / 2 ^ 100" by (rule tiny_bounds)+
  have pow: "(2::rat) ^ 24 = 16777216" by simp
  have big: "(17000::rat) \<le> 2 ^ 120" by simp
  define x1 where "x1 = f_sub v (Num 4000)"
  have "near x1 q" using f_sub_near [OF assms(1), of "Num 4000"] q big by (simp add: x1_def q_def abs_le_iff)
  note b1 = near_bound [OF this, of 16000]
  have 1: "f_val x1 \<le> q + 1 / 1000" "q - 1 / 1000 \<le> f_val x1" "f_finite x1"
    using b1 q t unfolding pow by (auto simp: abs_le_iff)
  define x2 where "x2 = f_div x1 (Num 16000)"
  have "near x2 (f_val x1 / 16000)"
    unfolding x2_def using 1 q by (intro f_div_near) (simp_all add: abs_le_iff)
  note b2 = near_bound [OF this, of "1001 / 1000"]
  have 2: "f_val x2 \<le> 1001 / 1000" "- 1001 / 1000 \<le> f_val x2" "f_finite x2"
    using b2 1 q t unfolding pow by (auto simp: abs_le_iff)
  have "near x (f_val x2 / 1000)"
    unfolding x_def x1_def [symmetric] x2_def [symmetric] using 2 by (intro f_div_near) (simp_all add: abs_le_iff)
  note b3 = near_bound [OF this, of "1001 / 1000000"]
  show "f_finite x" using b3(3) 2 by (simp add: abs_le_iff)
  have "tiny < 1 / 1000000000000" using t(2) by simp
  moreover have "f_val x \<le> f_val x2 / 1000 + (1001 / 1000000 / 2 ^ 24 + tiny)"
    "f_val x2 / 1000 - (1001 / 1000000 / 2 ^ 24 + tiny) \<le> f_val x"
    using b3(1,2) 2 by (simp_all add: abs_le_iff)
  moreover have "f_val x2 \<le> f_val x1 / 16000 + (1001 / 1000 / 2 ^ 24 + tiny)"
    "f_val x1 / 16000 - (1001 / 1000 / 2 ^ 24 + tiny) \<le> f_val x2"
    using b2(1,2) 1 q by (simp_all add: abs_le_iff)
  moreover have "f_val x1 \<le> q + (16000 / 2 ^ 24 + tiny)" "q - (16000 / 2 ^ 24 + tiny) \<le> f_val x1"
    using b1(1,2) q by (simp_all add: abs_le_iff)
  ultimately show "\<bar>f_val x - (f_val v - 4000) / 16000 / 1000\<bar> \<le> 31 / 10000 / 2 ^ 24"
    unfolding pow q_def [symmetric] by (intro abs_leI) linarith+
qed

text \<open>Scaling to a configured range \<open>m\<close> to \<open>M\<close>, all of whose numbers are at most \<open>B\<close>.\<close>

lemma scale_near:
  assumes "f_finite v" "0 \<le> f_val v" "f_val v \<le> 20000" "current_voltage conf = 0"
    and "f_decode (value_min conf) = m" "f_decode (value_max conf) = M" "f_finite m" "f_finite M"
    and "f_val m < f_val M" "\<bar>f_val m\<bar> \<le> B" "\<bar>f_val M\<bar> \<le> B" "B \<le> 2 ^ 100"
  shows "f_finite (scale conf v)" "\<bar>f_val (scale conf v) -
    (f_val m + (f_val v - 4000) / 16000 / 1000 * (f_val M - f_val m))\<bar> \<le> B / 2 ^ 23 + 1 / 2 ^ 90"
proof -
  define x where "x = f_div (f_div (f_sub v (Num 4000)) (Num 16000)) (Num 1000)"
  define X where "X = (f_val v - 4000) / 16000 / 1000"
  define d where "d = f_sub M m"
  define D where "D = f_val M - f_val m"
  define p where "p = f_mul x d"
  have s: "scale conf v = f_add p m"
    using assms(4-9) by (simp add: scale_def Let_def f_less_val adc_limits x_def d_def p_def)
  have pow: "(2::rat) ^ 24 = 16777216" "(2::rat) ^ 23 = 8388608" by simp_all
  have t: "0 < tiny" "tiny < 1 / 1000000000000" using tiny_bounds by simp_all
  have tiny_small: "8 * tiny \<le> 1 / 2 ^ 90" using tiny_bounds(2) by simp
  have D: "0 < D" "D \<le> 2 * B" "0 < B" using assms(9-11) by (auto simp: D_def abs_le_iff)
  have x: "f_finite x" "\<bar>f_val x - X\<bar> \<le> 31 / 10000 / 2 ^ 24"
    using fraction_near [OF assms(1-3)] by (simp_all add: x_def X_def)
  have X: "\<bar>X\<bar> \<le> 1 / 1000" using assms(2,3) by (simp add: X_def abs_le_iff)
  have xb: "\<bar>f_val x\<bar> \<le> 1001 / 1000000" using abs_leD [OF x(2)] abs_leD [OF X] unfolding pow by (intro abs_leI) linarith+
  have D120: "\<bar>D\<bar> \<le> 2 ^ 120" using D(1,2) assms(12) by (simp add: abs_le_iff)
  have "near d D" unfolding d_def D_def using assms(7,8) D120 by (intro f_sub_near) (simp_all add: D_def)
  note bd = near_bound [OF this, of D]
  have d: "f_val d - D \<le> D / 2 ^ 24 + tiny" "D - f_val d \<le> D / 2 ^ 24 + tiny" "f_finite d"
    using bd D(1) by simp_all
  then have db: "\<bar>f_val d\<bar> \<le> 2 * D + tiny" using D(1) t unfolding pow by (intro abs_leI) linarith+
  have A: "\<bar>f_val x * f_val d\<bar> \<le> 1001 / 1000000 * (2 * D + tiny)"
    unfolding abs_mult using xb db by (intro mult_mono) simp_all
  have "\<bar>f_val x * f_val d\<bar> \<le> 2 ^ 120" using A D t assms(12) by simp
  then have "near p (f_val x * f_val d)" unfolding p_def by (intro f_mul_near x(1) d(3))
  note bp = near_bound [OF this A]
  define P where "P = X * D"
  have eq: "f_val x * f_val d - P = (f_val x - X) * f_val d + X * (f_val d - D)"
    by (simp add: P_def algebra_simps)
  have e1: "\<bar>(f_val x - X) * f_val d\<bar> \<le> 31 / 10000 / 2 ^ 24 * (2 * D + tiny)"
    unfolding abs_mult using x(2) db by (intro mult_mono) simp_all
  have e2: "\<bar>X * (f_val d - D)\<bar> \<le> 1 / 1000 * (D / 2 ^ 24 + tiny)"
    unfolding abs_mult using X d D(1) t(1) by (intro mult_mono) (simp_all add: abs_le_iff)
  have e3: "\<bar>P\<bar> \<le> 1 / 1000 * D" unfolding P_def abs_mult using X D(1) by (intro mult_mono) simp_all
  note e = abs_leD [OF e1] abs_leD [OF e2] abs_leD [OF e3] abs_leD [OF A]
  define U where "U = (f_val x - X) * f_val d"
  define V where "V = X * (f_val d - D)"
  define W where "W = f_val x * f_val d"
  note e = eq [folded U_def V_def W_def] e [folded U_def V_def W_def] bp(1,2) [folded W_def]
  have p: "f_val p - P \<le> 1 / 50 * (B / 2 ^ 24) + 2 * tiny" "P - f_val p \<le> 1 / 50 * (B / 2 ^ 24) + 2 * tiny"
    using e D t unfolding pow distrib_left add_divide_distrib by linarith+
  have pb: "\<bar>f_val p\<bar> \<le> B / 100 + 4 * tiny" using p e D t unfolding pow distrib_left add_divide_distrib by (intro abs_leI) linarith+
  have pm: "\<bar>f_val p + f_val m\<bar> \<le> 102 / 100 * B + 4 * tiny" 
    using abs_leD [OF pb] abs_leD [OF assms(10)] D(3) by (intro abs_leI) linarith+
  have "102 / 100 * B + 4 * tiny \<le> (2::rat) ^ 120" using assms(12) t by simp
  then have "near (f_add p m) (f_val p + f_val m)"
    using pm by (intro f_add_near bp(3) assms(7)) linarith
  note bs = near_bound [OF this pm]
  show "f_finite (scale conf v)" unfolding s by (rule bs(3))
  show "\<bar>f_val (scale conf v) - (f_val m + (f_val v - 4000) / 16000 / 1000 * (f_val M - f_val m))\<bar>
      \<le> B / 2 ^ 23 + 1 / 2 ^ 90"
    unfolding s X_def [symmetric] D_def [symmetric] P_def [symmetric]
    using bs(1,2) p D t(1) tiny_small unfolding pow distrib_left add_divide_distrib by (intro abs_leI) linarith+
qed

text \<open>A full sample, or the 0 that is left when the kernel reports an error.\<close>

lemma analog_read_eq:
  assumes d: "has_ops cls d (analog_device_ops K)" "\<not> mutex d" "user_data d = Some adev"
    and m: "is_corrected (cfg adev (mode adev)) = 0" and b: "4 \<le> len" "4 \<le> length b"
    and rd: "k_read K (fd d) 4 w = (4, u32_bytes s, w') \<or> k_read K (fd d) 4 w = (- 1, data, w') \<and> s = 0"
  shows "read_device cls d (Some b) len w = Inr (LDAL_EOK,
    Some (u32_bytes (f_encode (scale (ai_conf adev) (clip (mode adev) (f_decode s)))) @ drop 4 b), d, w')"
proof -
  have z: "f_encode (Zero False) = 0" by (simp add: f_encode_def)
  obtain ret data' where r: "k_read K (fd d) 4 w = (ret, data', w')" "ret = 4 \<or> ret = - 1"
    "store_reply (u32_bytes 0) ret data' = Inr (u32_bytes s)"
    using rd memcpy_nat [of 0 4 "u32_bytes 0" 0 "u32_bytes s"] by (auto simp: store_reply_def)
  have "\<not> short_read (to_int ret)" using r(2) by (auto simp: short_read_def)
  moreover have "memcpy b 0 (u32_bytes x) 0 4 = Inr (u32_bytes x @ drop 4 b)" for x
    using memcpy_nat [of 0 4 b 0 "u32_bytes x"] b(2) by simp
  ultimately have "analog_read K (d\<lparr>mutex := True\<rparr>) (Some b) len w = Inr (LDAL_EOK,
      Some (u32_bytes (f_encode (scale (ai_conf adev) (clip (mode adev) (f_decode s)))) @ drop 4 b),
      d\<lparr>mutex := True\<rparr>, w')"
    using d(3) m b(1) r by (simp add: analog_read_def z parent_def load_bool_def Let_def not_less)
  then show ?thesis
    unfolding analog_dispatch [OF d(1,2)] by (simp add: mutex_unlock_def device_mutex_same [OF d(2)])
qed

text \<open>
  Property C24. What is read from an uncorrected current input: the sample is taken as 0 below 3.9 milliampere
  and otherwise brought into the range of 4 to 20 milliampere, and the result is the lower end \<open>m\<close> of the
  configured range plus that sample's share of the range divided by 1000, up to the rounding of the
  float arithmetic. So full scale gives \<open>m + (M - m) / 1000\<close>, not \<open>M\<close>.
\<close>
theorem analog_read_value:
  fixes K :: "'w kernel"
  assumes d: "has_ops cls d (analog_device_ops K)" "\<not> mutex d" "user_data d = Some adev"
    and mode: "mode adev = ADC_MODE_CURRENT" "is_corrected (cfg adev ADC_MODE_CURRENT) = 0"
      "current_voltage (ai_conf adev) = 0"
    and range: "f_decode (value_min (ai_conf adev)) = m" "f_decode (value_max (ai_conf adev)) = M"
      "f_finite m" "f_finite M" "f_val m < f_val M" "\<bar>f_val m\<bar> \<le> B" "\<bar>f_val M\<bar> \<le> B" "B \<le> 2 ^ 100"
    and sample: "k_read K (fd d) 4 w = (4, u32_bytes s, w')" "f_decode s \<noteq> Nan"
    and b: "4 \<le> len" "4 \<le> length b"
  shows "\<exists>v x. read_device cls d (Some b) len w =
      Inr (LDAL_EOK, Some (u32_bytes (f_encode x) @ drop 4 b), d, w') \<and>
    f_finite x \<and> \<bar>f_val x - (f_val m + (v - 4000) / 16000 / 1000 * (f_val M - f_val m))\<bar> \<le> B / 2 ^ 23 + 1 / 2 ^ 90 \<and>
    (v = 0 \<or> 4000 \<le> v \<and> v \<le> 20000) \<and>
    (f_finite (f_decode s) \<and> 4000 \<le> f_val (f_decode s) \<and> f_val (f_decode s) \<le> 20000 \<longrightarrow> v = f_val (f_decode s))"
proof -
  define c where "c = clip ADC_MODE_CURRENT (f_decode s)"
  note clip = clip_current [OF sample(2), folded c_def]
  have v: "0 \<le> f_val c" "f_val c \<le> 20000" using clip(2) by auto
  have "read_device cls d (Some b) len w =
      Inr (LDAL_EOK, Some (u32_bytes (f_encode (scale (ai_conf adev) c)) @ drop 4 b), d, w')"
    using analog_read_eq [OF d _ b, of w s w'] mode(1,2) sample(1) by (simp add: c_def)
  with scale_near [OF clip(1) v mode(3) range] clip(2,3) show ?thesis by blast
qed

definition full_scale_kernel :: "nat kernel" where
  "full_scale_kernel = sample_kernel\<lparr>k_read := (\<lambda>_ _ w. (4, u32_bytes 0x469C4000, Suc w))\<rparr>"

lemma full_scale: "f_decode 0x469C4000 = Num 20000" "f_decode 0x42C80000 = Num 100"
  by code_simp+

text \<open>With the default range of 0 to 100, full scale reads as 0.1.\<close>

lemma analog_read_value_witness:
  "\<exists>x. read_device (single_class (analog_device_ops full_scale_kernel)) sample_analog (Some [0, 0, 0, 0]) 4 0 =
     Inr (0, Some (u32_bytes (f_encode x)), sample_analog, 1) \<and>
   f_finite x \<and> \<bar>f_val x - 1 / 10\<bar> \<le> 100 / 2 ^ 23 + 1 / 2 ^ 90"
proof -
  have "current_voltage (ai_conf fresh_analog) = 0" "mode fresh_analog = ADC_MODE_CURRENT"
    "is_corrected (cfg fresh_analog ADC_MODE_CURRENT) = 0"
    "f_decode (value_min (ai_conf fresh_analog)) = Zero False" "f_decode (value_max (ai_conf fresh_analog)) = Num 100"
    "k_read full_scale_kernel (fd sample_analog) 4 0 = (4, u32_bytes 0x469C4000, 1)"
    by (simp_all add: fresh_analog_def cfg_def zero_sample full_scale full_scale_kernel_def)
  then show ?thesis
    using analog_read_value [OF sample_analog_simps(1-3), of "Zero False" "Num 100" 100 full_scale_kernel 0
        "0x469C4000" 1 4 "[0, 0, 0, 0]"] by (auto simp: full_scale)
qed

text \<open>
  When the kernel fails to deliver a sample, reading an uncorrected analog input reports
  success and a value, the one of the sample 0.
\<close>
theorem analog_failed_read:
  fixes K :: "'w kernel"
  assumes "has_ops cls d (analog_device_ops K)" "\<not> mutex d" "user_data d = Some adev"
    and "is_corrected (cfg adev (mode adev)) = 0" "4 \<le> len" "4 \<le> length b"
    and "k_read K (fd d) 4 w = (- 1, data, w')"
  shows "read_device cls d (Some b) len w = Inr (LDAL_EOK,
    Some (u32_bytes (f_encode (scale (ai_conf adev) (clip (mode adev) (Zero False)))) @ drop 4 b), d, w')"
  using analog_read_eq [OF assms(1-6), of w 0 w' data] assms(7) by (simp add: zero_sample)

lemma analog_failed_read_witness:
  "\<exists>bs. read_device (single_class (analog_device_ops (sample_kernel\<lparr>k_read := \<lambda>_ _ w. (- 1, [], w)\<rparr>)))
     sample_analog (Some [9, 9, 9, 9]) 4 0 = Inr (0, Some bs, sample_analog, 0)"
  using analog_failed_read [OF sample_analog_simps(1-3), of 4 "[9, 9, 9, 9]" "sample_kernel\<lparr>k_read := \<lambda>_ _ w. (- 1, [], w)\<rparr>" 0 "[]" 0]
  by (simp add: fresh_analog_def cfg_def)

end
