(* ===== verification/At_Client.thy ===== *)
theory At_Client
  imports Kernel
begin

text \<open>
  The AT command client, \<open>src/at.c\<close>: the response object with its lines, and the execution of a command
  under the client's lock, which waits for the parser to report a response. The parser of the repository is
  compiled out (its thread ends at once), so nothing posts the semaphore the wait is for; of the function that would read
  a line for it, the clearing of the buffer is left.
\<close>

section \<open>The client\<close>

definition AT_CMD_MAX_LEN :: nat where "AT_CMD_MAX_LEN = 128"
definition AT_RECV_BUFF_SIZE :: nat where "AT_RECV_BUFF_SIZE = 2048"

datatype at_status = AT_STATUS_UNINITIALIZED | AT_STATUS_INITIALIZED | AT_STATUS_CLI
datatype at_resp_status = AT_RESP_OK | AT_RESP_ERROR | AT_RESP_TIMEOUT | AT_RESP_BUFF_FULL

record at_response =
  rsp_buf :: "char list"
  buf_size :: size_t
  buf_len :: size_t
  line_num :: size_t
  line_counts :: size_t
  rsp_timeout :: int

text \<open>
  \<open>struct ldal_me_device\<close> of \<open>inc/ldal_me.h\<close> without the device itself and the SIM card information, which
  no code reads. \<open>me_resp\<close> is whether \<open>resp\<close> points at a response, \<open>lock\<close> whether the mutex is held,
  \<open>resp_notice\<close> the value of the semaphore; \<open>None\<close> stands for a null \<open>recv_line_buf\<close>.
\<close>

record ldal_me_device =
  me_status :: at_status
  resp_status :: at_resp_status
  recv_line_buf :: "char list option"
  recv_line_len :: size_t
  lock :: bool
  me_resp :: bool
  resp_notice :: nat

text \<open>The file's own variables.\<close>

record at_static =
  send_buf :: "char list"
  last_cmd_len :: size_t

definition initial_at :: at_static where
  "initial_at = \<lparr>send_buf = replicate AT_CMD_MAX_LEN NUL, last_cmd_len = 0\<rparr>"

section \<open>The response object\<close>

definition at_create_resp ::
    "'w kernel \<Rightarrow> size_t \<Rightarrow> size_t \<Rightarrow> int \<Rightarrow> 'w \<Rightarrow> at_response option \<times> 'w" where
  "at_create_resp K n lines timeout w =
     (let (ok, w) = k_calloc K w in
      if \<not> ok then (None, w)
      else
        let (ok, w) = k_calloc K w in
        if \<not> ok then (None, w)
        else
          (Some \<lparr>rsp_buf = replicate (unat n) NUL, buf_size = n, buf_len = 0, line_num = lines,
             line_counts = 0, rsp_timeout = timeout\<rparr>, w))"

text \<open>What the caller's pointer is afterwards.\<close>

definition at_delete_resp :: "at_response ptr \<Rightarrow> at_response ptr result" where
  "at_delete_resp resp =
     (case resp of Null \<Rightarrow> Inr Null | Freed \<Rightarrow> Inl Use_After_Free | Obj _ \<Rightarrow> Inr Freed)"

text \<open>The size is recorded before the memory has been had.\<close>

definition at_resp_set_info ::
    "'w kernel \<Rightarrow> at_response \<Rightarrow> size_t \<Rightarrow> size_t \<Rightarrow> int \<Rightarrow> 'w \<Rightarrow> bool \<times> at_response \<times> 'w" where
  "at_resp_set_info K resp n lines timeout w =
     (if buf_size resp \<noteq> n then
        let resp = resp\<lparr>buf_size := n\<rparr>; (ok, w) = k_calloc K w in
        if \<not> ok then (False, resp, w)
        else
          let old = take (unat n) (rsp_buf resp);
              resp = resp\<lparr>rsp_buf := old @ k_heap K (unat n - length old) w\<rparr>
          in (True, resp\<lparr>line_num := lines, rsp_timeout := timeout\<rparr>, w)
      else (True, resp\<lparr>line_num := lines, rsp_timeout := timeout\<rparr>, w))"

text \<open>
  The two loops over the lines; \<open>left\<close> is the number of lines from \<open>n\<close> on, \<open>p\<close> the position in the buffer.
  The result is the position of the line, \<open>None\<close> for a null pointer.
\<close>

fun line_loop :: "char list \<Rightarrow> nat \<Rightarrow> nat \<Rightarrow> nat \<Rightarrow> nat \<Rightarrow> nat option result" where
  "line_loop buf target 0 n p = Inr None"
| "line_loop buf target (Suc left) n p =
     (if target = n then Inr (Some p)
      else bind_res (cstr_at buf p) (\<lambda>s. line_loop buf target left (n + 1) (p + length s + 1)))"

definition at_resp_get_line :: "at_response \<Rightarrow> size_t \<Rightarrow> nat option result" where
  "at_resp_get_line resp resp_line =
     (if line_counts resp < resp_line \<or> resp_line = 0 then Inr None
      else line_loop (rsp_buf resp) (unat resp_line) (unat (line_counts resp)) 1 0)"

fun kw_loop :: "char list \<Rightarrow> string \<Rightarrow> nat \<Rightarrow> nat \<Rightarrow> nat option result" where
  "kw_loop buf keyword 0 p = Inr None"
| "kw_loop buf keyword (Suc left) p =
     bind_res (cstr_at buf p) (\<lambda>s.
     if strstr s keyword then Inr (Some p) else kw_loop buf keyword left (p + length s + 1))"

definition at_resp_get_line_by_kw :: "at_response \<Rightarrow> string option \<Rightarrow> nat option result" where
  "at_resp_get_line_by_kw resp keyword =
     (case keyword of
        None \<Rightarrow> Inl Assertion_Failed
      | Some kw \<Rightarrow> kw_loop (rsp_buf resp) kw (unat (line_counts resp)) 0)"

text \<open>
  \<open>vsscanf\<close> is an argument: what it returns and stores for a line, given the format and the
  targets of the caller.
\<close>

definition at_resp_parse_line_args ::
    "at_response \<Rightarrow> size_t \<Rightarrow> (string \<Rightarrow> (int \<times> 'a) result) \<Rightarrow> 'a \<Rightarrow> (int \<times> 'a) result" where
  "at_resp_parse_line_args resp resp_line scanf args =
     bind_res (at_resp_get_line resp resp_line) (\<lambda>pos.
     case pos of
       None \<Rightarrow> Inr (- 1, args)
     | Some p \<Rightarrow> bind_res (cstr_at (rsp_buf resp) p) scanf)"

definition at_resp_parse_line_args_by_kw ::
    "at_response \<Rightarrow> string option \<Rightarrow> (string \<Rightarrow> (int \<times> 'a) result) \<Rightarrow> 'a \<Rightarrow> (int \<times> 'a) result" where
  "at_resp_parse_line_args_by_kw resp keyword scanf args =
     bind_res (at_resp_get_line_by_kw resp keyword) (\<lambda>pos.
     case pos of
       None \<Rightarrow> Inr (- 1, args)
     | Some p \<Rightarrow> bind_res (cstr_at (rsp_buf resp) p) scanf)"

section \<open>Commands\<close>

text \<open>
  \<open>text\<close> is what the format and its arguments print. \<open>vsnprintf\<close> cuts it to the buffer but returns its whole
  length, and that many bytes of the buffer are written.
\<close>

definition at_vprintf ::
    "'w kernel \<Rightarrow> int \<Rightarrow> string \<Rightarrow> at_static \<Rightarrow> 'w \<Rightarrow> (size_t \<times> at_static \<times> 'w) result" where
  "at_vprintf K f text s w =
     (let cut = take (AT_CMD_MAX_LEN - 1) text @ [NUL];
          s = s\<lparr>send_buf := cut @ drop (length cut) (send_buf s), last_cmd_len := word_of_nat (length text)\<rparr>
      in if length (send_buf s) < unat (last_cmd_len s) then Inl Out_Of_Bounds
         else
           let (ret, w) = k_write K f (str_bytes (take (unat (last_cmd_len s)) (send_buf s))) w
           in Inr (word_of_int ret, s, w))"

definition CRLF :: string where
  "CRLF = [CHR 0x0D, CHR 0x0A]"

definition at_vprintfln ::
    "'w kernel \<Rightarrow> int \<Rightarrow> string \<Rightarrow> at_static \<Rightarrow> 'w \<Rightarrow> (size_t \<times> at_static \<times> 'w) result" where
  "at_vprintfln K f text s w =
     bind_res (at_vprintf K f text s w) (\<lambda>(len, s, w).
     let (_, w) = k_write K f (str_bytes CRLF) w in Inr (len + 2, s, w))"

text \<open>
  \<open>sem_timedwait\<close> takes the semaphore at once if it can; otherwise it waits until the time given, as no
  other thread posts it.
\<close>

definition sem_timedwait ::
    "'w kernel \<Rightarrow> int \<Rightarrow> int \<Rightarrow> ldal_me_device \<Rightarrow> 'w \<Rightarrow> int \<times> ldal_me_device \<times> 'w" where
  "sem_timedwait K sec nsec c w =
     (if 0 < resp_notice c then (0, c\<lparr>resp_notice := resp_notice c - 1\<rparr>, w)
      else (- 1, c, k_sem_wait K sec nsec w))"

text \<open>C's \<open>/\<close> and \<open>%\<close> round towards 0.\<close>

definition deadline :: "int \<Rightarrow> int \<Rightarrow> int \<Rightarrow> int \<times> int" where
  "deadline sec nsec timeout =
     (let sec = sec + sgn timeout * (\<bar>timeout\<bar> div 1000);
          nsec = nsec + sgn timeout * (\<bar>timeout\<bar> mod 1000) * 1000000
      in if 1000000000 \<le> nsec then (sec + 1, nsec mod 1000000000) else (sec, nsec))"

text \<open>A failing clock leaves with the lock held; \<open>f\<close> is the descriptor of the client's device.\<close>

definition at_obj_exec_cmd ::
    "'w kernel \<Rightarrow> int \<Rightarrow> ldal_me_device option \<Rightarrow> at_response option \<Rightarrow> string \<Rightarrow> at_static \<Rightarrow> 'w \<Rightarrow>
     (int \<times> ldal_me_device option \<times> at_response option \<times> at_static \<times> 'w) result" where
  "at_obj_exec_cmd K f client resp text s w =
     (case client of
        None \<Rightarrow> Inr (- LDAL_ERROR, None, resp, s, w)
      | Some c \<Rightarrow>
          if me_status c = AT_STATUS_CLI \<and> resp \<noteq> None then Inr (- LDAL_EBUSY, Some c, resp, s, w)
          else if lock c then Inl Diverges
          else
            let c = c\<lparr>lock := True, resp_status := AT_RESP_OK, me_resp := (resp \<noteq> None)\<rparr>;
                resp = map_option (\<lambda>r. r\<lparr>buf_len := 0, line_counts := 0\<rparr>) resp
            in
            bind_res (at_vprintfln K f text s w) (\<lambda>(_, s, w).
            case resp of
              None \<Rightarrow> Inr (LDAL_EOK, Some (c\<lparr>me_resp := False, lock := False\<rparr>), None, s, w)
            | Some r \<Rightarrow>
                let (ret, sec, nsec, w) = k_clock K w in
                if ret = -1 then Inr (- 1, Some c, Some r, s, w)
                else
                  let (sec, nsec) = deadline sec nsec (rsp_timeout r);
                      (ret, c, w) = sem_timedwait K sec nsec c w
                  in
                  if ret \<noteq> LDAL_EOK then
                    Inr (- LDAL_ETIMEOUT,
                      Some (c\<lparr>resp_status := AT_RESP_TIMEOUT, me_resp := False, lock := False\<rparr>), Some r, s, w)
                  else
                    Inr (if resp_status c \<noteq> AT_RESP_OK then - LDAL_ERROR else LDAL_EOK,
                      Some (c\<lparr>me_resp := False, lock := False\<rparr>), Some r, s, w)))"

section \<open>Receiving\<close>

text \<open>
  The loop that would read a line is compiled out: what is left clears the buffer and reports a line of no characters. The last
  command is kept for the parser.
\<close>

definition at_recv_readline :: "ldal_me_device \<Rightarrow> (int \<times> ldal_me_device) result" where
  "at_recv_readline client =
     (case recv_line_buf client of
        None \<Rightarrow> Inl Null_Pointer
      | Some b \<Rightarrow>
          if length b < AT_RECV_BUFF_SIZE then Inl Out_Of_Bounds
          else
            Inr (0, client\<lparr>recv_line_buf := Some (replicate AT_RECV_BUFF_SIZE NUL @ drop AT_RECV_BUFF_SIZE b),
              recv_line_len := 0\<rparr>))"

definition at_get_last_cmd :: "at_static \<Rightarrow> char list \<times> size_t" where
  "at_get_last_cmd s = (send_buf s, last_cmd_len s)"

section \<open>The lines of a response\<close>

text \<open>The loops walk over the lines \<open>ls\<close> that are left, behind the lines \<open>ks\<close>.\<close>

lemma line_loop_at:
  assumes "\<forall>l \<in> set ls. c_string l" "n \<le> target" "target < n + length ls"
  shows "\<exists>p. line_loop (pack_lines ks @ pack_lines ls @ rest) target (length ls) n (length (pack_lines ks)) =
      Inr (Some p) \<and> cstr_at (pack_lines ks @ pack_lines ls @ rest) p = Inr (ls ! (target - n))"
  using assms
proof (induction ls arbitrary: ks n)
  case (Cons l ls)
  note here = cstr_at_line [of l ks "pack_lines ls @ rest"]
  show ?case
  proof (cases "target = n")
    case True
    then show ?thesis using here Cons.prems(1) by simp
  next
    case False
    have "target - n = Suc (target - Suc n)" using False Cons.prems(2) by simp
    then show ?thesis
      using Cons.IH [of "Suc n" "ks @ [l]"] Cons.prems False here by simp
  qed
qed simp

lemma kw_loop_at:
  assumes "\<forall>l \<in> set ls. c_string l"
  shows "case find (\<lambda>l. strstr l kw) ls of
      None \<Rightarrow> kw_loop (pack_lines ks @ pack_lines ls @ rest) kw (length ls) (length (pack_lines ks)) = Inr None
    | Some l \<Rightarrow> \<exists>p. kw_loop (pack_lines ks @ pack_lines ls @ rest) kw (length ls) (length (pack_lines ks)) =
        Inr (Some p) \<and> cstr_at (pack_lines ks @ pack_lines ls @ rest) p = Inr l"
  using assms
proof (induction ls arbitrary: ks)
  case (Cons l ls)
  note here = cstr_at_line [of l ks "pack_lines ls @ rest"]
  show ?case
    using Cons.IH [of "ks @ [l]"] Cons.prems here by (auto split: option.splits)
qed simp

text \<open>
  Property C26. A response whose buffer holds the lines \<open>ls\<close> one after the other answers like the list: line
  \<open>n\<close> is the \<open>n\<close>-th line, counted from 1, and null outside; the line for a keyword is the first that
  contains it, and null if there is none.
\<close>
theorem at_resp_lines:
  assumes "\<forall>l \<in> set ls. c_string l" "rsp_buf r = pack_lines ls @ rest"
    and "line_counts r = word_of_nat (length ls)" "length ls < 2 ^ 64"
  shows "(\<forall>n. if 1 \<le> unat n \<and> unat n \<le> length ls
        then \<exists>p. at_resp_get_line r n = Inr (Some p) \<and> cstr_at (rsp_buf r) p = Inr (ls ! (unat n - 1))
        else at_resp_get_line r n = Inr None) \<and>
    (\<forall>kw. case find (\<lambda>l. strstr l kw) ls of
        None \<Rightarrow> at_resp_get_line_by_kw r (Some kw) = Inr None
      | Some l \<Rightarrow> \<exists>p. at_resp_get_line_by_kw r (Some kw) = Inr (Some p) \<and> cstr_at (rsp_buf r) p = Inr l)"
proof (intro conjI allI)
  have u: "unat (line_counts r) = length ls"
    unfolding assms(3) by (rule word_of_nat_unat_small) (use assms(4) in simp)
  fix n :: size_t
  have "n = 0 \<longleftrightarrow> unat n = 0" by (simp add: unat_eq_zero)
  then show "if 1 \<le> unat n \<and> unat n \<le> length ls
        then \<exists>p. at_resp_get_line r n = Inr (Some p) \<and> cstr_at (rsp_buf r) p = Inr (ls ! (unat n - 1))
        else at_resp_get_line r n = Inr None"
    using line_loop_at [OF assms(1), of 1 "unat n" "[]" rest] u
    by (auto simp: at_resp_get_line_def assms(2) word_less_nat_alt)
next
  have u: "unat (line_counts r) = length ls"
    unfolding assms(3) by (rule word_of_nat_unat_small) (use assms(4) in simp)
  fix kw
  show "case find (\<lambda>l. strstr l kw) ls of
        None \<Rightarrow> at_resp_get_line_by_kw r (Some kw) = Inr None
      | Some l \<Rightarrow> \<exists>p. at_resp_get_line_by_kw r (Some kw) = Inr (Some p) \<and> cstr_at (rsp_buf r) p = Inr l"
    using kw_loop_at [OF assms(1), where kw = kw and ks = "[]" and rest = rest] u
    by (cases "find (\<lambda>l. strstr l kw) ls") (simp_all add: at_resp_get_line_by_kw_def assms(2))
qed

definition sample_response :: at_response where
  "sample_response =
     \<lparr>rsp_buf = pack_lines [''+CSQ: 20,99'', ''OK''] @ replicate 50 NUL, buf_size = 64, buf_len = 15,
      line_num = 0, line_counts = 2, rsp_timeout = 300\<rparr>"

lemma at_resp_lines_witness:
  "(\<exists>p. at_resp_get_line sample_response 2 = Inr (Some p) \<and> cstr_at (rsp_buf sample_response) p = Inr ''OK'') \<and>
   at_resp_get_line sample_response 3 = Inr None"
proof -
  define ls where "ls = [''+CSQ: 20,99'', ''OK'']"
  have "\<forall>l \<in> set ls. c_string l" "length ls = 2" "ls ! 1 = ''OK''" by (simp_all add: ls_def NUL_def)
  moreover have "rsp_buf sample_response = pack_lines ls @ replicate 50 NUL" "line_counts sample_response = 2"
    by (simp_all only: sample_response_def ls_def at_response.select_convs)
  ultimately have "\<forall>n. if 1 \<le> unat n \<and> unat n \<le> 2
      then \<exists>p. at_resp_get_line sample_response n = Inr (Some p) \<and>
        cstr_at (rsp_buf sample_response) p = Inr (ls ! (unat n - 1))
      else at_resp_get_line sample_response n = Inr None"
    using at_resp_lines [of ls sample_response "replicate 50 NUL", THEN conjunct1] by simp
  from spec [OF this, of 2] spec [OF this, of 3] show ?thesis using \<open>ls ! 1 = ''OK''\<close> by simp
qed

section \<open>Executing a command\<close>

text \<open>
  The deadline of a command is exactly the timeout after the present and has less than a
  second of nanoseconds, for every timeout that is not negative.
\<close>
theorem at_deadline:
  assumes "0 \<le> nsec" "nsec < 1000000000" "0 \<le> timeout" "deadline sec nsec timeout = (s, n)"
  shows "0 \<le> n \<and> n < 1000000000 \<and>
    s * 1000000000 + n = sec * 1000000000 + nsec + timeout * 1000000"
proof -
  define q m where "q = timeout div 1000" and "m = timeout mod 1000"
  have t: "timeout = 1000 * q + m" "0 \<le> m" "m < 1000" by (simp_all add: q_def m_def)
  have "deadline sec nsec timeout = (if 1000000000 \<le> nsec + m * 1000000
      then (sec + q + 1, (nsec + m * 1000000) mod 1000000000) else (sec + q, nsec + m * 1000000))"
    using assms(3) by (cases "timeout = 0") (simp_all add: deadline_def q_def m_def Let_def)
  moreover have "(nsec + m * 1000000) mod 1000000000 = nsec + m * 1000000 - 1000000000"
    if "1000000000 \<le> nsec + m * 1000000"
  proof -
    have "(nsec + m * 1000000 - 1000000000) mod 1000000000 = nsec + m * 1000000 - 1000000000"
      using that t assms(2) by (intro mod_pos_pos_trivial) simp_all
    then show ?thesis by (simp add: mod_diff_right_eq)
  qed
  ultimately show ?thesis using assms(1,2,4) t by (auto split: if_splits)
qed

lemma at_deadline_witness: "deadline 10 999000000 1500 = (12, 499000000) \<and> (499000000::int) < 1000000000"
proof -
  have "deadline 10 999000000 1500 = (12, 499000000)" by (simp add: deadline_def)
  with at_deadline [of 999000000 1500 10 12 499000000] show ?thesis by simp
qed

lemma at_vprintf_fits:
  assumes "length text < AT_CMD_MAX_LEN" "length (send_buf s) = AT_CMD_MAX_LEN"
  shows "at_vprintf K f text s w =
    (let (ret, w) = k_write K f (str_bytes text) w in
     Inr (word_of_int ret, s\<lparr>send_buf := text @ NUL # drop (Suc (length text)) (send_buf s),
       last_cmd_len := word_of_nat (length text)\<rparr>, w))"
proof -
  have "unat (word_of_nat (length text) :: size_t) = length text"
    using assms(1) by (intro word_of_nat_unat_small) (simp add: AT_CMD_MAX_LEN_def)
  with assms show ?thesis by (simp add: at_vprintf_def AT_CMD_MAX_LEN_def Let_def case_prod_unfold)
qed

text \<open>
  Property C27. Executing a command of up to 127 characters on a client whose lock is free writes the command
  and a line end; without a response object that is all. With one it waits to the deadline and always
  ends in \<open>-LDAL_ETIMEOUT\<close> with the lock released, as nothing posts the semaphore; if the clock fails, the
  lock stays held and the next command never returns. A command of more than 128 characters is written
  from beyond its buffer.
\<close>
theorem at_exec:
  fixes K :: "'w kernel"
  assumes c: "\<not> lock c" "me_status c \<noteq> AT_STATUS_CLI" "resp_notice c = 0"
    and s: "length (send_buf s) = AT_CMD_MAX_LEN" "length text < AT_CMD_MAX_LEN"
    and long: "AT_CMD_MAX_LEN < length long" "length long < 2 ^ 64"
    and K: "k_write K f (str_bytes text) w = (n, w1)" "k_write K f (str_bytes CRLF) w1 = (m, w2)"
      "k_clock K w2 = (ret, sec, nsec, w3)"
  shows "(\<exists>c' s'. at_obj_exec_cmd K f (Some c) None text s w = Inr (LDAL_EOK, Some c', None, s', w2) \<and> \<not> lock c') \<and>
    (ret \<noteq> - 1 \<longrightarrow> (\<exists>c' r' s'. at_obj_exec_cmd K f (Some c) (Some r) text s w =
      Inr (- LDAL_ETIMEOUT, Some c', Some r', s', case_prod (k_sem_wait K) (deadline sec nsec (rsp_timeout r)) w3) \<and>
      \<not> lock c' \<and> resp_status c' = AT_RESP_TIMEOUT)) \<and>
    (ret = - 1 \<longrightarrow> (\<exists>c' r' s'. at_obj_exec_cmd K f (Some c) (Some r) text s w = Inr (- 1, Some c', Some r', s', w3) \<and>
      (\<forall>w'. at_obj_exec_cmd K f (Some c') None text s' w' = Inl Diverges))) \<and>
    at_obj_exec_cmd K f (Some c) (Some r) long s w = Inl Out_Of_Bounds"
proof -
  obtain s' where p: "at_vprintfln K f text s w = Inr (word_of_int n + 2, s', w2)"
    using K by (auto simp: at_vprintfln_def at_vprintf_fits [OF s(2,1)])
  have "unat (word_of_nat (length long) :: size_t) = length long"
    using long(2) by (intro word_of_nat_unat_small) simp
  with long s have l: "at_vprintfln K f long s w = Inl Out_Of_Bounds"
    by (simp add: at_vprintfln_def at_vprintf_def AT_CMD_MAX_LEN_def Let_def)
  show ?thesis
    using c K p l
    by (simp add: at_obj_exec_cmd_def Let_def case_prod_unfold sem_timedwait_def)
qed

definition fresh_me :: ldal_me_device where
  "fresh_me = \<lparr>me_status = AT_STATUS_UNINITIALIZED, resp_status = AT_RESP_OK,
     recv_line_buf = Some (replicate AT_RECV_BUFF_SIZE NUL), recv_line_len = 0, lock = False, me_resp = False,
     resp_notice = 0\<rparr>"

lemma at_exec_witness:
  "\<exists>c' r' s'. at_obj_exec_cmd sample_kernel 3 (Some fresh_me) (Some sample_response) ''AT+CSQ'' initial_at 0 =
     Inr (- 2, Some c', Some r', s', 4) \<and> \<not> lock c'"
  using at_exec [of fresh_me initial_at "''AT+CSQ''" "replicate 200 (CHR ''x'')" sample_kernel 3 0 6 1 2 2 0 2 0 3
      sample_response, THEN conjunct2, THEN conjunct1]
  by (auto simp: fresh_me_def initial_at_def AT_CMD_MAX_LEN_def sample_kernel_def CRLF_def case_prod_unfold)

end
