(* ===== verification/Me_Driver.thy ===== *)
theory Me_Driver
  imports At_Client Serial_Driver
begin

text \<open>
  The mobile equipment class, \<open>src/class/ldal_me.c\<close>: a modem behind a serial port, whose write operation sends
  a short message by a dialogue of AT commands. \<open>check_send_cmd\<close>, which no code calls, runs one command of
  the AT client and looks for a keyword in its response.
\<close>

section \<open>The driver\<close>

definition ME_SET_PDU_MODE :: string where
  "ME_SET_PDU_MODE = ''AT+CMGF=0'' @ [CHR 0x0D, CHR 0x0A]"

definition ME_SEND_PDU_MSGS :: string where
  "ME_SEND_PDU_MSGS = ''AT+CMGS=''"

definition AT_CLIENT_RECV_BUFF_LEN :: size_t where
  "AT_CLIENT_RECV_BUFF_LEN = 256"

text \<open>
  \<open>sscanf(line, "%s", arg)\<close> into an array of 128 bytes: the first word of the line, if there is one.
\<close>

definition scan_word :: "string \<Rightarrow> (int \<times> string) result" where
  "scan_word line =
     (let s = takeWhile (\<lambda>c. \<not> is_space c) (dropWhile is_space line) in
      if s = [] then Inr (- 1, [])
      else if AT_CMD_MAX_LEN \<le> length s then Inl Out_Of_Bounds
      else Inr (1, s))"

text \<open>The command is the format of \<open>at_obj_exec_cmd\<close>; \<open>text\<close> is what it prints.\<close>

definition check_send_cmd ::
    "'w kernel \<Rightarrow> int \<Rightarrow> ldal_me_device option \<Rightarrow> string \<Rightarrow> string option \<Rightarrow> size_t \<Rightarrow> int \<Rightarrow> at_static \<Rightarrow> 'w \<Rightarrow>
     (int \<times> ldal_me_device option \<times> at_static \<times> 'w) result" where
  "check_send_cmd K f client text resp_expr lines timeout s w =
     (let (resp, w) = at_create_resp K AT_CLIENT_RECV_BUFF_LEN lines timeout w in
      case resp of
        None \<Rightarrow> Inr (- LDAL_ENOMEM, client, s, w)
      | Some r \<Rightarrow>
          bind_res (at_obj_exec_cmd K f client (Some r) text s w) (\<lambda>(result, client, r, s, w).
          bind_res
            (if result < 0 then Inr result
             else
               case (resp_expr, r) of
                 (Some kw, Some r) \<Rightarrow>
                   bind_res (at_resp_parse_line_args_by_kw r (Some kw) scan_word []) (\<lambda>(n, _).
                   Inr (if n \<le> 0 then - LDAL_ERROR else LDAL_EOK))
               | _ \<Rightarrow> Inr LDAL_EOK) (\<lambda>result.
          bind_res (at_delete_resp (Obj (the r))) (\<lambda>_. Inr (result, client, s, w)))))"

text \<open>\<open>read(fd, buffer, 300)\<close> into the cleared buffer, and the string that is then in it.\<close>

definition read_reply :: "'w kernel \<Rightarrow> int \<Rightarrow> 'w \<Rightarrow> (char list \<times> 'w) result" where
  "read_reply K f w =
     (let (ret, data, w) = k_read K f 300 w in
      bind_res (store_reply (replicate 300 0) ret data) (\<lambda>buffer. Inr (bytes_str buffer, w)))"

definition write_str :: "'w kernel \<Rightarrow> int \<Rightarrow> string \<Rightarrow> 'w \<Rightarrow> 'w" where
  "write_str K f s w = snd (k_write K f (str_bytes s) w)"

definition me_ec25_send_messages ::
    "'w kernel \<Rightarrow> 'p ldal_device \<Rightarrow> byte list \<Rightarrow> int \<Rightarrow> 'w \<Rightarrow> (int \<times> 'w) result" where
  "me_ec25_send_messages K dev message_pdu len_udp w =
     (let w = k_sleep K 2 (write_str K (fd dev) ME_SET_PDU_MODE w) in
      bind_res (read_reply K (fd dev) w) (\<lambda>(buffer, w).
      bind_res (read_cstr buffer) (\<lambda>s.
      if strstr s ''OK'' then
        bind_res (copy_string (replicate 300 NUL) (ME_SEND_PDU_MSGS @ print_d len_udp @ CRLF)) (\<lambda>buffer.
        bind_res (read_cstr buffer) (\<lambda>s.
        let w = k_sleep K 1 (write_str K (fd dev) s w) in
        bind_res (read_reply K (fd dev) w) (\<lambda>(_, w).
        bind_res (read_cstr (bytes_str message_pdu)) (\<lambda>pdu.
        let w = k_sleep K 4 (write_str K (fd dev) pdu w) in
        bind_res (read_reply K (fd dev) w) (\<lambda>(_, w). Inr (LDAL_EOK, w))))))
      else Inr (- LDAL_ERROR, w))))"

text \<open>These two are word for word those of the serial class.\<close>

definition me_default_config :: "'w kernel \<Rightarrow> int \<Rightarrow> 'w \<Rightarrow> int \<times> 'w" where
  "me_default_config = serial_default_config"

definition me_open :: "'w kernel \<Rightarrow> ('p, 'w) dev_call" where
  "me_open K dev w =
     bind_res (read_cstr (filename dev)) (\<lambda>path.
     let (h, w) = k_open K path (O_RDWR OR O_NOCTTY OR O_NDELAY) 0 w; dev = dev\<lparr>fd := h\<rparr> in
     if fd dev = -1 then Inr (- LDAL_ERROR, dev, w)
     else
       let (r, w) = k_fcntl K (fd dev) F_SETFL 0 w in
       if r < 0 then Inr (- LDAL_ERROR, dev, w)
       else
         let (_, w) = k_fcntl K (fd dev) F_SETFL 0 w in
         if k_isatty K 0 w = 0 then Inr (- LDAL_ERROR, dev, w)
         else let (_, w) = me_default_config K (fd dev) w in Inr (LDAL_EOK, dev, w))"

text \<open>The thread that is started ends at once, so that it does not appear here.\<close>

definition me_init :: "'w kernel \<Rightarrow> (ldal_me_device, 'w) dev_call" where
  "me_init K dev w =
     bind_res (parent dev) (\<lambda>client.
     let client = client\<lparr>me_status := AT_STATUS_UNINITIALIZED, recv_line_len := 0\<rparr>; (ok, w) = k_calloc K w in
     if \<not> ok then Inr (- LDAL_ENOMEM, dev\<lparr>user_data := Some (client\<lparr>recv_line_buf := None\<rparr>)\<rparr>, w)
     else
       let client = client\<lparr>recv_line_buf := Some (replicate AT_RECV_BUFF_SIZE NUL), lock := False, resp_notice := 0\<rparr>
       in Inr (LDAL_EOK, dev\<lparr>user_data := Some client\<rparr>, w))"

definition me_close :: "'w kernel \<Rightarrow> ('p, 'w) dev_call" where
  "me_close K dev w = (let (_, w) = k_close K (fd dev) w in Inr (LDAL_EOK, dev, w))"

definition me_read :: "'w kernel \<Rightarrow> ('p, 'w) read_call" where
  "me_read K dev buf len w =
     assert_ptr buf (\<lambda>b.
     bind_res (sys_read K (fd dev) b len w) (\<lambda>(ret, b, w).
     Inr (if ret = -1 then - LDAL_ERROR else LDAL_EOK, Some b, dev, w)))"

definition me_write :: "'w kernel \<Rightarrow> ('p, 'w) write_call" where
  "me_write K dev buf len w =
     assert_ptr buf (\<lambda>b.
     bind_res (me_ec25_send_messages K dev b (to_int (uint len)) w) (\<lambda>(ret, w).
     Inr (if ret = -1 then - LDAL_ERROR else LDAL_EOK, dev, w)))"

definition me_device_ops :: "'w kernel \<Rightarrow> (ldal_me_device, 'w) device_ops" where
  "me_device_ops K = no_ops
     \<lparr>op_init := Some (me_init K), op_open := Some (me_open K), op_close := Some (me_close K),
      op_read := Some (me_read K), op_write := Some (me_write K)\<rparr>"

lemma me_init_frame: "me_init K d w = Inr (r, d', w') \<Longrightarrow> dev_id d' = dev_id d"
  by (auto simp: me_init_def parent_Inr dev_frame Let_def case_prod_unfold split: if_split_asm)

lemma me_open_frame: "me_open K d w = Inr (r, d', w') \<Longrightarrow> dev_id d' = dev_id d"
  by (auto simp: me_open_def dev_frame Let_def case_prod_unfold split: if_split_asm)

lemma me_read_frame: "me_read K d buf len w = Inr (r, buf', d', w') \<Longrightarrow> d' = d"
  by (auto simp: me_read_def assert_ptr_Inr)

lemma me_write_frame: "me_write K d buf len w = Inr (r, d', w') \<Longrightarrow> d' = d"
  by (auto simp: me_write_def assert_ptr_Inr)

interpretation me_drv: driver "me_device_ops K" for K
  by unfold_locales
    (auto simp: me_device_ops_def no_ops_def me_close_def case_prod_unfold
      dest: me_init_frame me_open_frame me_read_frame me_write_frame)

section \<open>Sending a message\<close>

text \<open>
  A kernel that keeps account of what has been written to a descriptor: \<open>sent\<close> grows by every write to it
  and by nothing else.
\<close>

definition logs_writes :: "'w kernel \<Rightarrow> int \<Rightarrow> ('w \<Rightarrow> byte list list) \<Rightarrow> bool" where
  "logs_writes K f sent \<longleftrightarrow>
     (\<forall>bs w. sent (snd (k_write K f bs w)) = sent w @ [bs]) \<and>
     (\<forall>n w. sent (k_sleep K n w) = sent w) \<and>
     (\<forall>n w. sent (snd (snd (k_read K f n w))) = sent w)"

lemma print_d_length: "in_int v \<Longrightarrow> length (print_d v) \<le> 11"
proof -
  assume v: "in_int v"
  have len: "n < 10 ^ Suc k \<Longrightarrow> length (decimal n) \<le> Suc k" for n k
  proof (induction k arbitrary: n)
    case 0
    then show ?case by (simp add: decimal.simps [of n])
  next
    case (Suc k)
    then have "n div 10 < 10 ^ Suc k" by (simp add: less_mult_imp_div_less)
    with Suc.IH [of "n div 10"] show ?case by (cases "n < 10") (simp_all add: decimal.simps [of n])
  qed
  have v: "nat v < 10 ^ Suc 9" "nat (- v) < 10 ^ Suc 9" using v by (simp_all add: in_int_def, arith+)
  have "length (decimal (nat v)) \<le> Suc 9" "length (decimal (nat (- v))) \<le> Suc 9" by (rule len [OF v(1)], rule len [OF v(2)])
  then show ?thesis by (simp add: print_d_def)
qed

lemma print_d_c_string [simp]: "c_string (print_d v)"
  by (simp add: print_d_def NUL_def)

text \<open>What the modem answers to the next read.\<close>

definition reply :: "'w kernel \<Rightarrow> int \<Rightarrow> 'w \<Rightarrow> string" where
  "reply K f w = (let (ret, data, _) = k_read K f 300 w in if ret = -1 then [] else bytes_str data)"

lemma bytes_str_simps [simp]: "bytes_str (xs @ ys) = bytes_str xs @ bytes_str ys"
  "bytes_str (replicate n 0) = replicate n NUL"
proof -
  have "char_of (0 :: nat) = NUL" by (simp add: char_of_def NUL_def)
  then show "bytes_str (replicate n 0) = replicate n NUL" by (simp add: bytes_str_def)
qed (simp add: bytes_str_def)

lemma read_reply_ok:
  assumes "reads_ok K f"
  shows "read_reply K f w =
    Inr (reply K f w @ replicate (300 - length (reply K f w)) NUL, snd (snd (k_read K f 300 w)))"
proof -
  obtain ret data w' where k: "k_read K f 300 w = (ret, data, w')" by (rule prod_cases3)
  with assms have ok: "reply_ok 300 ret data" by (metis reads_ok_def fst_conv snd_conv)
  show ?thesis
    using store_reply_ok [OF ok, of "replicate 300 0"] by (simp add: read_reply_def reply_def k)
qed

lemma send_mutex: "me_ec25_send_messages K (d\<lparr>mutex := m\<rparr>) = me_ec25_send_messages K d"
  unfolding fun_eq_iff me_ec25_send_messages_def fd_mutex by (intro allI refl)

lemma cstr_padded_reply: "cstr (r @ replicate n NUL) = cstr r"
  by (induction r) (auto simp: cstr_def takeWhile_replicate)

lemma nul_padded: "length r < 300 \<Longrightarrow> NUL \<in> set (r @ replicate (300 - length r) NUL)"
  by simp

text \<open>
  Property C28. Writing to a mobile equipment device sends a short message in three writes: the command for the
  message mode, the command that announces a message of \<open>len\<close> characters, and the message up to its
  terminator. They are made only if the modem answers the first with text that contains \<open>OK\<close>; otherwise
  nothing more is written and the result is an error. The answers to the other two do not matter.
\<close>
theorem me_send:
  fixes K :: "'w kernel"
  assumes d: "has_ops cls d (me_device_ops K)" "\<not> mutex d"
    and K: "reads_ok K (fd d)" "logs_writes K (fd d) sent"
    and b: "bytes_str b = pdu @ NUL # junk" "c_string pdu"
    and r: "r = reply K (fd d) (k_sleep K 2 (write_str K (fd d) ME_SET_PDU_MODE w))" "length r < 300"
  shows "\<exists>ret w'. write_device cls d (Some b) len w = Inr (ret, d, w') \<and>
    (if strstr (cstr r) ''OK''
     then ret = LDAL_EOK \<and> sent w' = sent w @ [str_bytes ME_SET_PDU_MODE,
         str_bytes (ME_SEND_PDU_MSGS @ print_d (to_int (uint len)) @ CRLF), str_bytes pdu]
     else ret = - LDAL_ERROR \<and> sent w' = sent w @ [str_bytes ME_SET_PDU_MODE])"
proof -
  define cmd where "cmd = ME_SEND_PDU_MSGS @ print_d (to_int (uint len)) @ CRLF"
  have "in_int (to_int (uint len))"
    using signed_take_bit_int_greater_eq_minus_exp [of 31 "uint len"] signed_take_bit_int_less_exp [of 31 "uint len"]
    by (simp add: to_int_def in_int_def)
  then have "length cmd < 300"
    using print_d_length [of "to_int (uint len)"] by (simp add: cmd_def ME_SEND_PDU_MSGS_def CRLF_def)
  moreover have "c_string cmd" by (simp add: cmd_def ME_SEND_PDU_MSGS_def CRLF_def NUL_def)
  ultimately have c: "copy_string (replicate 300 NUL) cmd = Inr (cmd @ NUL # drop (Suc (length cmd)) (replicate 300 NUL))"
    "read_cstr (cmd @ NUL # junk) = Inr cmd" for junk
    using copy_string_ok [of cmd "replicate 300 NUL"] by simp_all
  have pdu: "read_cstr (bytes_str b) = Inr pdu" using b by simp
  have rs: "read_cstr (r @ replicate (300 - length r) NUL) = Inr (cstr r)"
    using nul_padded [OF r(2)] by (simp add: read_cstr_def cstr_padded_reply)
  have log: "sent (write_str K (fd d) s w) = sent w @ [str_bytes s]" "sent (k_sleep K n w) = sent w"
    "sent (snd (snd (k_read K (fd d) 300 w))) = sent w" for s n w
    using K(2) by (simp_all add: logs_writes_def write_str_def)
  have call: "write_device cls d (Some b) len w =
      bind_res (me_ec25_send_messages K d b (to_int (uint len)) w) (\<lambda>(ret, w).
      Inr (if ret = -1 then - LDAL_ERROR else LDAL_EOK, d, w))"
    using d by (simp add: write_device_def mutex_lock_def has_ops_fetch me_device_ops_def no_ops_def me_write_def
        send_mutex mutex_unlock_def device_mutex_same bind_res_assoc case_prod_unfold)
  have "me_ec25_send_messages K d b (to_int (uint len)) w =
    (let w1 = snd (snd (k_read K (fd d) 300 (k_sleep K 2 (write_str K (fd d) ME_SET_PDU_MODE w))));
         w2 = snd (snd (k_read K (fd d) 300 (k_sleep K 1 (write_str K (fd d) cmd w1))));
         w3 = snd (snd (k_read K (fd d) 300 (k_sleep K 4 (write_str K (fd d) pdu w2))))
     in if strstr (cstr r) ''OK'' then Inr (LDAL_EOK, w3) else Inr (- LDAL_ERROR, w1))"
    by (simp add: me_ec25_send_messages_def Let_def read_reply_ok [OF K(1)] rs c pdu r(1) [symmetric] flip: cmd_def)
  then show ?thesis unfolding call by (simp add: Let_def log flip: cmd_def)
qed

text \<open>A modem that answers everything with \<open>OK\<close> and the bytes written to it.\<close>

definition modem_kernel :: "byte list list kernel" where
  "modem_kernel = quiet_kernel
     \<lparr>k_read := (\<lambda>_ n w. if n < 2 then (0, [], w) else (2, str_bytes ''OK'', w)),
      k_write := (\<lambda>_ bs w. (int (length bs), w @ [bs]))\<rparr>"

lemma me_send_witness:
  "\<exists>w'. write_device (single_class (me_device_ops modem_kernel)) (fresh_device ''me'' ''/dev/ttyUSB2'' fresh_me)
      (Some (str_bytes (''07911326'' @ [NUL]))) 8 [] =
     Inr (0, fresh_device ''me'' ''/dev/ttyUSB2'' fresh_me, w') \<and> length w' = 3 \<and> last w' = str_bytes ''07911326''"
proof -
  have k: "reads_ok modem_kernel f" "logs_writes modem_kernel f id" for f
    by (simp_all add: reads_ok_def logs_writes_def reply_ok_def modem_kernel_def quiet_kernel_def)
  have r: "reply modem_kernel f w = ''OK''" for f w by (simp add: reply_def modem_kernel_def)
  have "strstr (cstr ''OK'') ''OK''" by (simp add: strstr_def NUL_def)
  with me_send [of "single_class (me_device_ops modem_kernel)" "fresh_device ''me'' ''/dev/ttyUSB2'' fresh_me"
      modem_kernel id "str_bytes (''07911326'' @ [NUL])" "''07911326''" "[]" "''OK''" "[]" 8] k r
  show ?thesis by (simp add: NUL_def)
qed

end
