(* ===== verification/Ldal_Registry.thy ===== *)
theory Ldal_Registry
  imports Ldal_Device
begin

text \<open>
  The registry of \<open>src/ldal.c\<close>: the global lists of device classes and of devices, the registration and
  removal of both, the lookups, and the creation of devices from a table. The lists live on the
  explicit store of nodes of \<open>List_Head\<close>; a device's or class's node is at the address of its structure.
\<close>

section \<open>State\<close>

datatype ldal_class =
    LDAL_CLASS_MEMORY | LDAL_CLASS_FILE | LDAL_CLASS_SERIAL | LDAL_CLASS_GPIO | LDAL_CLASS_DIGITAL
  | LDAL_CLASS_ANALOG | LDAL_CLASS_RTC | LDAL_CLASS_UDP | LDAL_CLASS_TCP | LDAL_CLASS_ME
  | LDAL_CLASS_MISC | LDAL_CLASS_BACKLIGHT | LDAL_CLASS_MAX

fun class_code :: "ldal_class \<Rightarrow> u16" where
  "class_code LDAL_CLASS_MEMORY = 0"
| "class_code LDAL_CLASS_FILE = 1"
| "class_code LDAL_CLASS_SERIAL = 2"
| "class_code LDAL_CLASS_GPIO = 3"
| "class_code LDAL_CLASS_DIGITAL = 4"
| "class_code LDAL_CLASS_ANALOG = 5"
| "class_code LDAL_CLASS_RTC = 6"
| "class_code LDAL_CLASS_UDP = 7"
| "class_code LDAL_CLASS_TCP = 8"
| "class_code LDAL_CLASS_ME = 9"
| "class_code LDAL_CLASS_MISC = 10"
| "class_code LDAL_CLASS_BACKLIGHT = 11"
| "class_code LDAL_CLASS_MAX = 12"

text \<open>A \<open>pthread_rwlock_t\<close>, with the number of readers; a lock that cannot be had is waited for forever.\<close>

datatype rwlock = Unlocked | Read_Locked nat | Write_Locked

fun rdlock :: "rwlock \<Rightarrow> rwlock result" where
  "rdlock Unlocked = Inr (Read_Locked 1)"
| "rdlock (Read_Locked n) = Inr (Read_Locked (n + 1))"
| "rdlock Write_Locked = Inl Diverges"

fun wrlock :: "rwlock \<Rightarrow> rwlock result" where
  "wrlock Unlocked = Inr Write_Locked"
| "wrlock _ = Inl Diverges"

fun rwunlock :: "rwlock \<Rightarrow> rwlock" where
  "rwunlock (Read_Locked n) = (if n \<le> 1 then Unlocked else Read_Locked (n - 1))"
| "rwunlock _ = Unlocked"

text \<open>\<open>brk\<close> is the lowest address never allocated.\<close>

record ('p, 'w) ldal =
  nodes :: nodes
  classes :: "('p, 'w) class_store"
  devices :: "addr \<rightharpoonup> 'p ldal_device"
  g_device_num :: u16
  rwlock_cls :: rwlock
  rwlock_dev :: rwlock
  brk :: addr
  world :: 'w

definition ldal_device_class_list :: addr where "ldal_device_class_list = 0"
definition ldal_device_list :: addr where "ldal_device_list = 1"

text \<open>
  What the class files supply: the constant table of operations of each class, the zeroed private
  part of its device structure, and the member \<open>pos\<close> that creation sets for an analog device.
\<close>

record ('p, 'w) class_env =
  kern :: "'w kernel"
  ops_table :: "ldal_class \<Rightarrow> ('p, 'w) device_ops"
  zeroed :: "ldal_class \<Rightarrow> 'p"
  set_pos :: "int \<Rightarrow> 'p \<Rightarrow> 'p"

text \<open>The state when \<open>main\<close> starts, but for the classes: both lists are empty.\<close>

definition initial_ldal :: "'w \<Rightarrow> ('p, 'w) ldal" where
  "initial_ldal w =
     \<lparr>nodes = [ldal_device_class_list \<mapsto> \<lparr>nxt = Some ldal_device_class_list, prv = Some ldal_device_class_list\<rparr>,
               ldal_device_list \<mapsto> \<lparr>nxt = Some ldal_device_list, prv = Some ldal_device_list\<rparr>],
      classes = Map.empty, devices = Map.empty, g_device_num = 0,
      rwlock_cls = Unlocked, rwlock_dev = Unlocked, brk = 2, world = w\<rparr>"

definition load_device :: "('p, 'w) ldal \<Rightarrow> addr \<Rightarrow> 'p ldal_device result" where
  "load_device s a = (case devices s a of None \<Rightarrow> Inl Use_After_Free | Some d \<Rightarrow> Inr d)"

definition store_device :: "('p, 'w) ldal \<Rightarrow> addr \<Rightarrow> 'p ldal_device \<Rightarrow> ('p, 'w) ldal" where
  "store_device s a d = s\<lparr>devices := (devices s)(a \<mapsto> d)\<rparr>"

definition load_class :: "('p, 'w) ldal \<Rightarrow> addr option \<Rightarrow> ('p, 'w) ldal_device_class result" where
  "load_class s p =
     (case p of
        None \<Rightarrow> Inl Null_Pointer
      | Some a \<Rightarrow> (case classes s a of None \<Rightarrow> Inl Use_After_Free | Some c \<Rightarrow> Inr c))"

section \<open>Lookups\<close>

text \<open>\<open>strncmp(device->name, name, strlen(name)) == 0\<close>.\<close>

definition name_matches :: "('p, 'w) ldal \<Rightarrow> string \<Rightarrow> addr \<Rightarrow> bool result" where
  "name_matches s nm a =
     bind_res (load_device s a) (\<lambda>d. strncmp_eq (name d) (nm @ [NUL]) (length nm))"

definition ldal_device_get_by_name ::
    "('p, 'w) ldal \<Rightarrow> string option \<Rightarrow> (addr option \<times> ('p, 'w) ldal) result" where
  "ldal_device_get_by_name s nm =
     assert_ptr nm (\<lambda>nm.
     bind_res (rdlock (rwlock_dev s)) (\<lambda>l.
     let s = s\<lparr>rwlock_dev := l\<rparr> in
     bind_res (list_find (nodes s) ldal_device_list (name_matches s nm)) (\<lambda>r.
     Inr (r, s\<lparr>rwlock_dev := rwunlock (rwlock_dev s)\<rparr>))))"

definition ldal_device_get_by_type ::
    "('p, 'w) ldal \<Rightarrow> int \<Rightarrow> string option \<Rightarrow> addr option result" where
  "ldal_device_get_by_type s type nm =
     assert_ptr nm (\<lambda>nm.
     list_find (nodes s) ldal_device_list (\<lambda>a.
       bind_res (load_device s a) (\<lambda>d.
       bind_res (load_class s (dclass d)) (\<lambda>c.
       if uint (class_id c) = type then bind_res (name_matches s nm a) (\<lambda>_. Inr True)
       else Inr False))))"

definition ldal_device_get_object_by_name ::
    "('p, 'w) ldal \<Rightarrow> string option \<Rightarrow> ('p option \<times> ('p, 'w) ldal) result" where
  "ldal_device_get_object_by_name s nm =
     assert_ptr nm (\<lambda>nm.
     bind_res (ldal_device_get_by_name s (Some nm)) (\<lambda>(device, s).
     case device of
       None \<Rightarrow> Inr (None, s)
     | Some a \<Rightarrow> bind_res (load_device s a) (\<lambda>d. Inr (user_data d, s))))"

section \<open>The printed list\<close>

text \<open>The labels of the classes, by their identifiers, and \<open>class_label[device->class->class_id]\<close>.\<close>

definition class_label :: "string list" where
  "class_label = [''Memory Device'', ''File Device'', ''Serial Device'', ''GPIO Device'', ''Digital I/O'', ''Analog Input'',
     ''RTC Device'', ''UDP Socket'', ''TCP Socket'', ''Mobile Equipment'', ''Misc Device'', ''Backlight Device'']"

definition label_of :: "('p, 'w) ldal \<Rightarrow> 'p ldal_device \<Rightarrow> string result" where
  "label_of s d =
     bind_res (load_class s (dclass d)) (\<lambda>c.
     if length class_label \<le> unat (class_id c) then Inl Out_Of_Bounds else Inr (class_label ! unat (class_id c)))"

text \<open>The line of a device is added to what has been printed.\<close>

definition show_line :: "('p, 'w) ldal \<Rightarrow> string \<Rightarrow> addr \<Rightarrow> string result" where
  "show_line s out a =
     bind_res (load_device s a) (\<lambda>d.
     bind_res (label_of s d) (\<lambda>label.
     bind_res (read_cstr (name d)) (\<lambda>nm.
     bind_res (read_cstr (filename d)) (\<lambda>fnm.
     Inr (out @ ''!_ '' @ label @ '': '' @ nm @ '' -> '' @ fnm @ [CHR 0x0A])))))"

definition ldal_show_device_list :: "('p, 'w) ldal \<Rightarrow> (string \<times> ('p, 'w) ldal) result" where
  "ldal_show_device_list s =
     bind_res (rdlock (rwlock_dev s)) (\<lambda>l.
     let s = s\<lparr>rwlock_dev := l\<rparr> in
     bind_res (list_for_each (nodes s) ldal_device_list (show_line s) []) (\<lambda>out.
     Inr (out, s\<lparr>rwlock_dev := rwunlock (rwlock_dev s)\<rparr>)))"

lemma show_line_lock: "show_line (s\<lparr>rwlock_dev := l\<rparr>) = show_line s"
proof -
  have "load_device (s\<lparr>rwlock_dev := l\<rparr>) = load_device s" "load_class (s\<lparr>rwlock_dev := l\<rparr>) = load_class s"
    by (simp_all add: fun_eq_iff load_device_def load_class_def split: option.split)
  then show ?thesis by (simp add: fun_eq_iff show_line_def label_of_def)
qed

section \<open>Classes\<close>

definition ldal_device_class_register ::
    "('p, 'w) ldal \<Rightarrow> addr option \<Rightarrow> ldal_class \<Rightarrow> (int \<times> ('p, 'w) ldal) result" where
  "ldal_device_class_register s cp cid =
     assert_ptr cp (\<lambda>a.
     bind_res (load_class s (Some a)) (\<lambda>c.
     let s = s\<lparr>classes := (classes s)(a \<mapsto> c\<lparr>class_id := class_code cid\<rparr>)\<rparr> in
     bind_res (init_list_head (nodes s) a) (\<lambda>h.
     bind_res (wrlock (rwlock_cls s)) (\<lambda>l.
     let s = s\<lparr>nodes := h, rwlock_cls := l\<rparr> in
     bind_res (list_add_tail (nodes s) a ldal_device_class_list) (\<lambda>h.
     Inr (LDAL_EOK, s\<lparr>nodes := h, rwlock_cls := rwunlock (rwlock_cls s)\<rparr>))))))"

definition ldal_device_class_get ::
    "('p, 'w) ldal \<Rightarrow> ldal_class \<Rightarrow> (addr option \<times> ('p, 'w) ldal) result" where
  "ldal_device_class_get s cid =
     bind_res (rdlock (rwlock_cls s)) (\<lambda>l.
     let s = s\<lparr>rwlock_cls := l\<rparr> in
     bind_res (list_find (nodes s) ldal_device_class_list (\<lambda>a.
       bind_res (load_class s (Some a)) (\<lambda>c. Inr (class_id c = class_code cid)))) (\<lambda>r.
     Inr (r, s\<lparr>rwlock_cls := rwunlock (rwlock_cls s)\<rparr>)))"

text \<open>A zeroed structure with an embedded node, at a new address.\<close>

definition new_node :: "('p, 'w) ldal \<Rightarrow> addr \<times> ('p, 'w) ldal" where
  "new_node s =
     (brk s, s\<lparr>nodes := (nodes s)(brk s \<mapsto> \<lparr>nxt = None, prv = None\<rparr>), brk := brk s + 1\<rparr>)"

text \<open>The body the twelve registration functions of the class files share.\<close>

definition create_class ::
    "('p, 'w) class_env \<Rightarrow> ldal_class \<Rightarrow> ('p, 'w) ldal \<Rightarrow> (int \<times> ('p, 'w) ldal) result" where
  "create_class E cid s =
     (let (ok, w) = k_calloc (kern E) (world s); s = s\<lparr>world := w\<rparr> in
      if \<not> ok then Inr (- LDAL_ENOMEM, s)
      else
        let (a, s) = new_node s;
            c = \<lparr>class_id = class_code cid, dev_count = 0, device_ops = Some (ops_table E cid)\<rparr>;
            s = s\<lparr>classes := (classes s)(a \<mapsto> c)\<rparr>
        in ldal_device_class_register s (Some a) cid)"

definition memory_device_class_register where
  "memory_device_class_register E s = create_class E LDAL_CLASS_MEMORY s"
definition file_device_class_register where
  "file_device_class_register E s = create_class E LDAL_CLASS_FILE s"
definition serial_device_class_register where
  "serial_device_class_register E s = create_class E LDAL_CLASS_SERIAL s"
definition gpio_device_class_register where
  "gpio_device_class_register E s = create_class E LDAL_CLASS_GPIO s"
definition digital_device_class_register where
  "digital_device_class_register E s = create_class E LDAL_CLASS_DIGITAL s"
definition analog_device_class_register where
  "analog_device_class_register E s = create_class E LDAL_CLASS_ANALOG s"
definition rtc_device_class_register where
  "rtc_device_class_register E s = create_class E LDAL_CLASS_RTC s"
definition udp_device_class_register where
  "udp_device_class_register E s = create_class E LDAL_CLASS_UDP s"
definition tcp_device_class_register where
  "tcp_device_class_register E s = create_class E LDAL_CLASS_TCP s"
definition me_device_class_register where
  "me_device_class_register E s = create_class E LDAL_CLASS_ME s"
definition misc_device_class_register where
  "misc_device_class_register E s = create_class E LDAL_CLASS_MISC s"
definition backlight_device_class_register where
  "backlight_device_class_register E s = create_class E LDAL_CLASS_BACKLIGHT s"

lemmas class_registers =
  memory_device_class_register_def file_device_class_register_def serial_device_class_register_def
  gpio_device_class_register_def digital_device_class_register_def analog_device_class_register_def
  rtc_device_class_register_def udp_device_class_register_def tcp_device_class_register_def
  me_device_class_register_def misc_device_class_register_def backlight_device_class_register_def

text \<open>The switch has no case for the backlight class.\<close>

definition ldal_device_class_set ::
    "('p, 'w) class_env \<Rightarrow> ldal_class \<Rightarrow> ('p, 'w) ldal \<Rightarrow> ('p, 'w) ldal result" where
  "ldal_device_class_set E cid s =
     bind_res
       (case cid of
          LDAL_CLASS_MEMORY \<Rightarrow> memory_device_class_register E s
        | LDAL_CLASS_FILE \<Rightarrow> file_device_class_register E s
        | LDAL_CLASS_SERIAL \<Rightarrow> serial_device_class_register E s
        | LDAL_CLASS_GPIO \<Rightarrow> gpio_device_class_register E s
        | LDAL_CLASS_DIGITAL \<Rightarrow> digital_device_class_register E s
        | LDAL_CLASS_ANALOG \<Rightarrow> analog_device_class_register E s
        | LDAL_CLASS_RTC \<Rightarrow> rtc_device_class_register E s
        | LDAL_CLASS_UDP \<Rightarrow> udp_device_class_register E s
        | LDAL_CLASS_TCP \<Rightarrow> tcp_device_class_register E s
        | LDAL_CLASS_ME \<Rightarrow> me_device_class_register E s
        | LDAL_CLASS_MISC \<Rightarrow> misc_device_class_register E s
        | _ \<Rightarrow> Inr (0, s))
       (\<lambda>(_, s). Inr s)"

section \<open>Devices\<close>

text \<open>
  Finding the class, creating it when it is missing; without it the error message looks the class up
  in \<open>class_label\<close>, an array of \<open>LDAL_CLASS_MAX\<close>.
\<close>

definition find_class ::
    "('p, 'w) class_env \<Rightarrow> ldal_class \<Rightarrow> ('p, 'w) ldal \<Rightarrow> (addr option \<times> ('p, 'w) ldal) result" where
  "find_class E cid s =
     bind_res (ldal_device_class_get s cid) (\<lambda>(c, s).
     case c of
       Some c \<Rightarrow> Inr (Some c, s)
     | None \<Rightarrow>
         bind_res (ldal_device_class_set E cid s) (\<lambda>s.
         bind_res (ldal_device_class_get s cid) (\<lambda>(c, s).
         case c of
           Some c \<Rightarrow> Inr (Some c, s)
         | None \<Rightarrow> if cid = LDAL_CLASS_MAX then Inl Out_Of_Bounds else Inr (None, s))))"

text \<open>The device's \<open>init\<close> operation, if its class has one; its result is ignored.\<close>

definition run_init :: "('p, 'w) ldal \<Rightarrow> addr \<Rightarrow> ('p, 'w) ldal result" where
  "run_init s a =
     bind_res (load_device s a) (\<lambda>d.
     bind_res (ops_of (classes s) d) (\<lambda>ops.
     case op_init ops of
       None \<Rightarrow> Inr s
     | Some init \<Rightarrow>
         bind_res (init d (world s)) (\<lambda>(_, d, w). Inr ((store_device s a d)\<lparr>world := w\<rparr>))))"

definition set_is_init :: "('p, 'w) ldal \<Rightarrow> addr \<Rightarrow> bool \<Rightarrow> ('p, 'w) ldal result" where
  "set_is_init s a b = bind_res (load_device s a) (\<lambda>d. Inr (store_device s a (d\<lparr>is_init := b\<rparr>)))"

definition ldal_device_register ::
    "('p, 'w) class_env \<Rightarrow> ('p, 'w) ldal \<Rightarrow> addr option \<Rightarrow> string option \<Rightarrow> string option \<Rightarrow>
     ldal_class \<Rightarrow> 'p option \<Rightarrow> (int \<times> ('p, 'w) ldal) result" where
  "ldal_device_register E s device device_name file_name cid data =
     assert_ptr device (\<lambda>a. assert_ptr device_name (\<lambda>dn. assert_ptr file_name (\<lambda>fn.
     bind_res (ldal_device_get_by_name s (Some dn)) (\<lambda>(found, s).
     if found \<noteq> None then bind_res (set_is_init s a False) (\<lambda>s. Inr (LDAL_EOK, s))
     else
       bind_res (find_class E cid s) (\<lambda>(cp, s).
       case cp of
         None \<Rightarrow> bind_res (set_is_init s a False) (\<lambda>s. Inr (LDAL_EOK, s))
       | Some c \<Rightarrow>
           bind_res (load_device s a) (\<lambda>d.
           bind_res (copy_chars (name d) dn) (\<lambda>nbuf.
           bind_res (copy_chars (filename d) fn) (\<lambda>fbuf.
           let d = d\<lparr>name := nbuf, filename := fbuf, dclass := Some c, user_data := data,
                     mutex := False, ref := 0\<rparr>;
               s = store_device s a d
           in
           bind_res (init_list_head (nodes s) a) (\<lambda>h.
           bind_res (wrlock (rwlock_dev s)) (\<lambda>l.
           let s = s\<lparr>nodes := h, rwlock_dev := l\<rparr> in
           bind_res (list_add_tail (nodes s) a ldal_device_list) (\<lambda>h.
           let s = s\<lparr>nodes := h, g_device_num := g_device_num s + 1,
                     rwlock_dev := rwunlock (rwlock_dev s)\<rparr>
           in
           bind_res (run_init s a) (\<lambda>s.
           bind_res (set_is_init s a True) (\<lambda>s. Inr (LDAL_EOK, s))))))))))))))"

definition ldal_device_unregister ::
    "('p, 'w) ldal \<Rightarrow> addr option \<Rightarrow> (int \<times> ('p, 'w) ldal) result" where
  "ldal_device_unregister s device =
     (case device of
        None \<Rightarrow> Inr (- LDAL_EINVAL, s)
      | Some a \<Rightarrow>
          bind_res (load_device s a) (\<lambda>d.
          if 0 < ref d then Inr (- LDAL_ERROR, s)
          else
            bind_res (wrlock (rwlock_dev s)) (\<lambda>l.
            let s = s\<lparr>rwlock_dev := l\<rparr> in
            bind_res (list_del (nodes s) a) (\<lambda>h.
            Inr (LDAL_EOK, s\<lparr>nodes := h, g_device_num := g_device_num s - 1,
                             rwlock_dev := rwunlock (rwlock_dev s)\<rparr>)))))"

section \<open>Creating devices from a table\<close>

record ldal_device_table =
  device_name :: string
  file_name :: string
  entry_class :: ldal_class
  private_data :: "64 word"

text \<open>What \<open>calloc\<close> makes of a device structure.\<close>

definition zero_device :: "'p ldal_device" where
  "zero_device =
     \<lparr>fd = 0, name = replicate LDAL_NAME_MAX NUL, filename = replicate LDAL_FILENAME_MAX NUL,
      is_init = False, ref = 0, mutex = False, dclass = None, user_data = None\<rparr>"

definition device_create ::
    "('p, 'w) class_env \<Rightarrow> ldal_device_table \<Rightarrow> ('p, 'w) ldal \<Rightarrow> (addr option \<times> ('p, 'w) ldal) result" where
  "device_create E t s =
     (let cid = entry_class t in
      if cid = LDAL_CLASS_MAX then Inr (None, s)
      else
        let (ok, w) = k_calloc (kern E) (world s); s = s\<lparr>world := w\<rparr> in
        if \<not> ok then Inr (None, s)
        else
          let (a, s) = new_node s; s = store_device s a zero_device in
          bind_res (ldal_device_register E s (Some a) (Some (device_name t)) (Some (file_name t)) cid
              (Some (zeroed E cid))) (\<lambda>(_, s).
          if cid = LDAL_CLASS_ANALOG then
            bind_res (load_device s a) (\<lambda>d.
            Inr (Some a, store_device s a
              (d\<lparr>user_data := map_option (set_pos E (sint (ucast (private_data t) :: 32 word))) (user_data d)\<rparr>)))
          else Inr (Some a, s)))"

fun create_loop ::
    "('p, 'w) class_env \<Rightarrow> ldal_device_table list \<Rightarrow> nat \<Rightarrow> ('p, 'w) ldal \<Rightarrow> (int \<times> ('p, 'w) ldal) result" where
  "create_loop E ts 0 s = Inr (LDAL_EOK, s)"
| "create_loop E [] (Suc n) s = Inl Out_Of_Bounds"
| "create_loop E (t # ts) (Suc n) s =
     bind_res (device_create E t s) (\<lambda>(dev, s).
     if dev = None then Inr (- LDAL_ENOMEM, s) else create_loop E ts n s)"

definition ldal_device_create ::
    "('p, 'w) class_env \<Rightarrow> ldal_device_table list option \<Rightarrow> size_t \<Rightarrow> ('p, 'w) ldal \<Rightarrow>
     (int \<times> ('p, 'w) ldal) result" where
  "ldal_device_create E table sz s =
     assert_ptr table (\<lambda>ts.
     if sz = 0 then Inr (- LDAL_EINVAL, s) else create_loop E ts (unat sz) s)"

section \<open>Well-formed registries\<close>

text \<open>
  \<open>registry E s ds cs\<close>: the device list is \<open>ds\<close> and the class list \<open>cs\<close>, in order; every listed
  device has a terminated name and a listed class, every listed class the table of operations of its
  identifier; the count is that of the devices, both locks are free, and what is listed has been allocated.
\<close>

definition registry :: "('p, 'w) class_env \<Rightarrow> ('p, 'w) ldal \<Rightarrow> addr list \<Rightarrow> addr list \<Rightarrow> bool" where
  "registry E s ds cs \<longleftrightarrow>
     dlist (nodes s) ldal_device_list ds \<and> dlist (nodes s) ldal_device_class_list cs \<and>
     distinct (ldal_device_list # ldal_device_class_list # ds @ cs) \<and>
     (\<forall>a \<in> set ds. \<exists>d. devices s a = Some d \<and> NUL \<in> set (name d) \<and> (\<exists>c \<in> set cs. dclass d = Some c)) \<and>
     (\<forall>c \<in> set cs. \<exists>k cid. classes s c = Some k \<and> class_id k = class_code cid \<and>
        device_ops k = Some (ops_table E cid)) \<and>
     g_device_num s = word_of_nat (length ds) \<and>
     rwlock_cls s = Unlocked \<and> rwlock_dev s = Unlocked \<and>
     (\<forall>a. nodes s a \<noteq> None \<longrightarrow> a < brk s)"

definition device_name_of :: "('p, 'w) ldal \<Rightarrow> addr \<Rightarrow> string" where
  "device_name_of s a = cstr (name (the (devices s a)))"

definition starts_with :: "string \<Rightarrow> string \<Rightarrow> bool" where
  "starts_with s nm \<longleftrightarrow> take (length nm) s = nm"

lemma initial_registry: "registry E (initial_ldal w) [] []"
  by (simp add: registry_def initial_ldal_def dlist_single next_of_def prev_of_def
      ldal_device_list_def ldal_device_class_list_def)

lemma unlock_dev_same [simp]: "rwlock_dev s = Unlocked \<Longrightarrow> s\<lparr>rwlock_dev := Unlocked\<rparr> = s"
  by (cases s) simp

lemma unlock_cls_same [simp]: "rwlock_cls s = Unlocked \<Longrightarrow> s\<lparr>rwlock_cls := Unlocked\<rparr> = s"
  by (cases s) simp

lemma name_matches_ok:
  assumes "devices s a = Some d" "NUL \<in> set (name d)" "c_string nm"
  shows "name_matches s nm a = Inr (starts_with (device_name_of s a) nm)"
  using assms strncmp_cstr [OF assms(3,2)]
  by (simp add: name_matches_def load_device_def device_name_of_def starts_with_def)

lemma find_ext: "(\<And>x. x \<in> set xs \<Longrightarrow> P x = Q x) \<Longrightarrow> List.find P xs = List.find Q xs"
  by (induction xs) auto

lemma get_by_name_eq:
  assumes "registry E s ds cs" "c_string nm"
  shows "ldal_device_get_by_name s (Some nm) =
    Inr (List.find (\<lambda>a. starts_with (device_name_of s a) nm) ds, s)"
proof -
  have same: "name_matches (s\<lparr>rwlock_dev := l\<rparr>) nm = name_matches s nm" for l
    by (simp add: fun_eq_iff name_matches_def load_device_def)
  have m: "\<forall>a \<in> set ds. name_matches s nm a = Inr (starts_with (device_name_of s a) nm)"
    using assms name_matches_ok by (fastforce simp: registry_def)
  have "dlist (nodes s) ldal_device_list ds" "rwlock_dev s = Unlocked" using assms(1) by (auto simp: registry_def)
  then show ?thesis
    using list_find_ok [of "nodes s" ldal_device_list ds "name_matches s nm"] m
    by (auto simp: ldal_device_get_by_name_def same intro!: find_ext)
qed

lemma class_get_eq:
  assumes "registry E s ds cs"
  shows "ldal_device_class_get s cid =
    Inr (List.find (\<lambda>c. class_id (the (classes s c)) = class_code cid) cs, s)"
proof -
  define P where "P = (\<lambda>a. bind_res (load_class s (Some a)) (\<lambda>c. Inr (class_id c = class_code cid)))"
  have m: "\<forall>c \<in> set cs. P c = Inr (class_id (the (classes s c)) = class_code cid)"
    using assms by (fastforce simp: registry_def load_class_def P_def)
  have "rwlock_cls s = Unlocked" "dlist (nodes s) ldal_device_class_list cs"
    using assms by (auto simp: registry_def)
  moreover have "List.find (\<lambda>b. P b = Inr True) cs =
      List.find (\<lambda>c. class_id (the (classes s c)) = class_code cid) cs"
    by (rule find_ext) (use m in simp)
  moreover have "load_class (s\<lparr>rwlock_cls := l\<rparr>) = load_class s" for l
    by (auto simp: fun_eq_iff load_class_def split: option.splits)
  ultimately show ?thesis
    using list_find_ok [of "nodes s" ldal_device_class_list cs P] m
    by (simp add: ldal_device_class_get_def flip: P_def)
qed

lemma find_Some_member: "List.find P xs = Some x \<Longrightarrow> x \<in> set xs \<and> P x"
  by (induction xs) (auto split: if_splits)

lemma find_None_iff: "List.find P xs = None \<longleftrightarrow> (\<forall>x \<in> set xs. \<not> P x)"
  by (induction xs) auto

lemma find_append: "List.find P (xs @ ys) = (case List.find P xs of None \<Rightarrow> List.find P ys | r \<Rightarrow> r)"
  by (induction xs) auto

section \<open>Adding a class\<close>

text \<open>A node at an address never allocated joins the end of one list; the other list is not affected.\<close>

lemma append_node:
  assumes l: "dlist h head xs" "dlist h other ys" and d: "distinct (head # other # xs @ ys)"
    and new: "a \<notin> set (head # other # xs @ ys)" and h: "h a = Some n"
  obtains h1 h2 where "init_list_head h a = Inr h1" "list_add_tail h1 a head = Inr h2"
    "dlist h2 head (xs @ [a])" "dlist h2 other ys"
    "\<forall>b. b \<notin> set (a # head # xs) \<longrightarrow> h2 b = h b" "dom h2 = dom h"
proof -
  define h1 where "h1 = h(a \<mapsto> \<lparr>nxt = Some a, prv = Some a\<rparr>)"
  have i: "init_list_head h a = Inr h1" using init_list_head_ok [of h a n] h by (simp add: h1_def)
  have l1: "dlist h1 head xs" "dlist h1 other ys"
    by (rule dlist_frame [OF l(1)]; use new in \<open>auto simp: h1_def\<close>)
      (rule dlist_frame [OF l(2)]; use new in \<open>auto simp: h1_def\<close>)
  obtain h2 where h2: "list_add_tail h1 a head = Inr h2" "dlist h2 head (xs @ [a])"
    "\<forall>b. b \<notin> set (a # head # xs) \<longrightarrow> h2 b = h1 b" "dom h2 = dom h1"
    by (rule list_add_tail_ok [OF l1(1)]) (use new in \<open>auto simp: h1_def\<close>)
  have "dlist h2 other ys"
    by (rule dlist_frame [OF l1(2)]) (use h2(3) new d in auto)
  moreover have "\<forall>b. b \<notin> set (a # head # xs) \<longrightarrow> h2 b = h b" using h2(3) by (auto simp: h1_def)
  moreover have "dom h2 = dom h" using h2(4) h by (auto simp: h1_def)
  ultimately show thesis using that [OF i h2(1,2)] by blast
qed

lemma registry_fresh:
  assumes "registry E s ds cs"
  shows "brk s \<notin> set (ldal_device_list # ldal_device_class_list # ds @ cs)"
proof -
  have "\<forall>a \<in> set (ldal_device_list # ldal_device_class_list # ds @ cs). nodes s a \<noteq> None"
    using assms dlist_nodes [of "nodes s" ldal_device_list ds]
      dlist_nodes [of "nodes s" ldal_device_class_list cs] by (auto simp: registry_def)
  moreover have "nodes s (brk s) = None" using assms by (auto simp: registry_def)
  ultimately show ?thesis by blast
qed

lemma create_class_ok:
  assumes r: "registry E s ds cs" and k: "k_calloc (kern E) (world s) = (True, w)"
  obtains s' where "create_class E cid s = Inr (LDAL_EOK, s')" "registry E s' ds (cs @ [brk s])"
    "devices s' = devices s" "world s' = w" "brk s' = brk s + 1" "nodes s (brk s) = None"
    "dom (nodes s') = insert (brk s) (dom (nodes s))"
    "classes s' = (classes s)(brk s \<mapsto>
       \<lparr>class_id = class_code cid, dev_count = 0, device_ops = Some (ops_table E cid)\<rparr>)"
proof -
  define a where "a = brk s"
  define h where "h = (nodes s)(a \<mapsto> \<lparr>nxt = None, prv = None\<rparr>)"
  have a: "nodes s a = None" using r by (auto simp: registry_def a_def)
  have fresh: "a \<notin> set (ldal_device_list # ldal_device_class_list # ds @ cs)"
    unfolding a_def by (rule registry_fresh [OF r])
  have l: "dlist h ldal_device_class_list cs" "dlist h ldal_device_list ds"
    using r fresh by (auto simp: registry_def h_def intro: dlist_frame)
  have d: "distinct (ldal_device_list # ldal_device_class_list # ds @ cs)" using r by (simp add: registry_def)
  obtain h1 h2 where h: "init_list_head h a = Inr h1" "list_add_tail h1 a ldal_device_class_list = Inr h2"
    "dlist h2 ldal_device_class_list (cs @ [a])" "dlist h2 ldal_device_list ds"
    "\<forall>b. b \<notin> set (a # ldal_device_class_list # cs) \<longrightarrow> h2 b = h b" "dom h2 = dom h"
    by (rule append_node [OF l, of a "\<lparr>nxt = None, prv = None\<rparr>"]) (use d fresh in \<open>auto simp: h_def\<close>)
  define s' where "s' = s\<lparr>nodes := h2, world := w, brk := a + 1, classes := (classes s)(a \<mapsto>
       \<lparr>class_id = class_code cid, dev_count = 0, device_ops = Some (ops_table E cid)\<rparr>)\<rparr>"
  have unl: "rwlock_cls s = Unlocked" using r by (simp add: registry_def)
  then have "create_class E cid s = Inr (LDAL_EOK, s')"
    using k h(1,2) by (cases s)
      (simp add: create_class_def new_node_def ldal_device_class_register_def load_class_def s'_def
        h_def a_def)
  moreover have dm: "dom h2 = insert a (dom (nodes s))" using h(6) by (auto simp: h_def)
  then have "registry E s' ds (cs @ [a])"
    using r h(3,4) fresh unfolding registry_def
    by (auto simp: s'_def a_def less_Suc_eq)
  ultimately show thesis
    using that [of s'] a dm by (simp add: s'_def a_def)
qed

lemma class_code_inject [simp]: "class_code c = class_code c' \<longleftrightarrow> c = c'"
  by (cases c; cases c') simp_all

lemma class_set_create:
  "cid \<notin> {LDAL_CLASS_BACKLIGHT, LDAL_CLASS_MAX} \<Longrightarrow>
     ldal_device_class_set E cid s = bind_res (create_class E cid s) (\<lambda>(_, s). Inr s)"
  by (cases cid) (simp_all add: ldal_device_class_set_def class_registers)

text \<open>
  Finding a class never disturbs the registry: the class is listed afterwards, or there is none, its
  structure could not be allocated or it is one of those the switch omits.
\<close>

lemma find_class_ok:
  assumes r: "registry E s ds cs" and cid: "cid \<noteq> LDAL_CLASS_MAX"
  obtains cp s' cs' where "find_class E cid s = Inr (cp, s')" "registry E s' ds cs'"
    "devices s' = devices s" "dom (nodes s) \<subseteq> dom (nodes s')" "brk s \<le> brk s'"
    "\<forall>a. a < brk s \<longrightarrow> nodes s a = None \<longrightarrow> nodes s' a = None"
    "set cs' \<subseteq> set cs \<union> {a. nodes s a = None}"
    "case cp of
       Some c \<Rightarrow> c \<in> set cs' \<and> (\<exists>k. classes s' c = Some k \<and> device_ops k = Some (ops_table E cid))
     | None \<Rightarrow> cs' = cs \<and> nodes s' = nodes s \<and>
         (cid = LDAL_CLASS_BACKLIGHT \<or> \<not> fst (k_calloc (kern E) (world s)))"
proof (cases "List.find (\<lambda>c. class_id (the (classes s c)) = class_code cid) cs")
  case (Some c)
  then have c: "c \<in> set cs" "class_id (the (classes s c)) = class_code cid"
    using find_Some_member by fastforce+
  then have "\<exists>k. classes s c = Some k \<and> device_ops k = Some (ops_table E cid)"
    using r by (fastforce simp: registry_def)
  moreover have "find_class E cid s = Inr (Some c, s)"
    using Some by (simp add: find_class_def class_get_eq [OF r])
  ultimately show thesis using that [of "Some c" s cs] r c(1) by simp
next
  case None
  have get: "ldal_device_class_get s cid = Inr (None, s)" using None by (simp add: class_get_eq [OF r])
  show thesis
  proof (cases "cid = LDAL_CLASS_BACKLIGHT")
    case True
    then have "find_class E cid s = Inr (None, s)"
      using get by (simp add: find_class_def ldal_device_class_set_def)
    then show thesis using that [of None s cs] r True by simp
  next
    case False
    then have set: "ldal_device_class_set E cid s = bind_res (create_class E cid s) (\<lambda>(_, s). Inr s)"
      using cid by (intro class_set_create) auto
    obtain ok w where k: "k_calloc (kern E) (world s) = (ok, w)" by (rule prod.exhaust)
    show thesis
    proof (cases ok)
      case True
      obtain s' where s': "create_class E cid s = Inr (LDAL_EOK, s')" "registry E s' ds (cs @ [brk s])"
        "devices s' = devices s" "brk s' = brk s + 1" "nodes s (brk s) = None"
        "dom (nodes s') = insert (brk s) (dom (nodes s))"
        "classes s' = (classes s)(brk s \<mapsto>
           \<lparr>class_id = class_code cid, dev_count = 0, device_ops = Some (ops_table E cid)\<rparr>)"
        by (rule create_class_ok [OF r, of w cid]) (use k True in auto)
      have "\<forall>c \<in> set cs. c \<noteq> brk s" using registry_fresh [OF r] by auto
      then have "List.find (\<lambda>c. class_id (the (classes s' c)) = class_code cid) cs = None"
        using None s'(7) by (auto simp: find_None_iff)
      then have "ldal_device_class_get s' cid = Inr (Some (brk s), s')"
        using s'(7) by (simp add: class_get_eq [OF s'(2)] find_append)
      then have "find_class E cid s = Inr (Some (brk s), s')"
        using get set s'(1) by (simp add: find_class_def)
      moreover have "\<forall>a. a < brk s \<longrightarrow> nodes s a = None \<longrightarrow> nodes s' a = None"
        using s'(6) by (metis domIff insertE less_irrefl)
      ultimately show thesis
        using that [of "Some (brk s)" s' "cs @ [brk s]"] s' by auto
    next
      case False
      define s' where "s' = s\<lparr>world := w\<rparr>"
      have r': "registry E s' ds cs" using r by (simp add: registry_def s'_def)
      have "create_class E cid s = Inr (- LDAL_ENOMEM, s')"
        using k False by (simp add: create_class_def s'_def)
      moreover have "ldal_device_class_get s' cid = Inr (None, s')"
        using None unfolding class_get_eq [OF r'] by (simp add: s'_def)
      ultimately have "find_class E cid s = Inr (None, s')"
        using get set cid by (simp add: find_class_def)
      then show thesis using that [of None s' cs] r' k False by (simp add: s'_def)
    qed
  qed
qed

section \<open>Registering and unregistering devices\<close>

lemma load_device_Inr [simp]: "load_device s a = Inr d \<longleftrightarrow> devices s a = Some d"
  by (auto simp: load_device_def split: option.splits)

lemma store_device_simps [simp]:
  "devices (store_device s a d) = (devices s)(a \<mapsto> d)" "nodes (store_device s a d) = nodes s"
  "classes (store_device s a d) = classes s" "rwlock_dev (store_device s a d) = rwlock_dev s"
  "world (store_device s a d) = world s" "g_device_num (store_device s a d) = g_device_num s"
  by (simp_all add: store_device_def)

text \<open>Storing a device that keeps its name and class keeps the registry.\<close>

lemma registry_store:
  assumes "registry E s ds cs" "devices s a = Some d" "name d' = name d" "dclass d' = dclass d"
  shows "registry E (store_device s a d') ds cs"
  using assms unfolding registry_def by (auto simp: store_device_def)

lemma registry_world: "registry E (s\<lparr>world := w\<rparr>) ds cs = registry E s ds cs"
  by (simp add: registry_def)

lemma registry_unlisted:
  "registry E s ds cs \<Longrightarrow> a \<notin> set ds \<Longrightarrow> registry E (store_device s a d) ds cs"
  unfolding registry_def by (auto simp: store_device_def)

text \<open>
  What registration did: the device is listed last, under its name, initialised, unused and unlocked, with
  the class and the data it was given, and no other device has changed.
\<close>

definition registered ::
    "('p, 'w) class_env \<Rightarrow> ('p, 'w) ldal \<Rightarrow> ('p, 'w) ldal \<Rightarrow> addr \<Rightarrow> string \<Rightarrow> ldal_class \<Rightarrow> 'p option \<Rightarrow> bool" where
  "registered E s s' a nm cid data \<longleftrightarrow>
     (\<exists>d. devices s' a = Some d \<and> cstr (name d) = nm \<and> is_init d \<and> ref d = 0 \<and> \<not> mutex d \<and>
        (user_data d = None \<longleftrightarrow> data = None) \<and> has_ops (classes s') d (ops_table E cid)) \<and>
     (\<forall>b. b \<noteq> a \<longrightarrow> devices s' b = devices s b)"

locale registry_env =
  fixes E :: "('p, 'w) class_env"
  assumes init_law: "op_init (ops_table E cid) = Some f \<Longrightarrow> f d w = Inr (r, d', w') \<Longrightarrow>
    dev_id d' = dev_id d"
begin

lemma init_registered:
  assumes r: "registry E s ds cs" and a: "devices s a = Some d" "ref d = 0" "\<not> mutex d"
      "cstr (name d) = nm" "has_ops (classes s) d (ops_table E cid)"
  shows "(\<exists>init f. op_init (ops_table E cid) = Some init \<and> init d (world s) = Inl f \<and> run_init s a = Inl f) \<or>
    (\<exists>s1 s'. run_init s a = Inr s1 \<and> set_is_init s1 a True = Inr s' \<and> registry E s' ds cs \<and>
       registered E s s' a nm cid (user_data d))"
proof -
  have ops: "ops_of (classes s) d = Inr (ops_table E cid)" using a(5) by (simp add: has_ops_def)
  have fin: "\<exists>s'. set_is_init ((store_device s a d')\<lparr>world := w'\<rparr>) a True = Inr s' \<and> registry E s' ds cs \<and>
      registered E s s' a nm cid (user_data d)" if id: "dev_id d' = dev_id d" for d' w'
  proof -
    define d1 where "d1 = d'\<lparr>is_init := True\<rparr>"
    define s' where "s' = store_device ((store_device s a d')\<lparr>world := w'\<rparr>) a d1"
    have d': "name d' = name d" "dclass d' = dclass d" "ref d' = ref d" "mutex d' = mutex d"
      "(user_data d' = None) = (user_data d = None)" using id by (auto simp: dev_frame)
    have "registry E ((store_device s a d')\<lparr>world := w'\<rparr>) ds cs"
      unfolding registry_world by (rule registry_store [OF r a(1) d'(1,2)])
    then have "registry E s' ds cs" unfolding s'_def by (rule registry_store) (simp_all add: d1_def)
    moreover have "has_ops (classes s') d1 (ops_table E cid)"
      using a(5) has_ops_class [of d1 d "classes s" "ops_table E cid"] d' by (simp add: s'_def d1_def)
    then have "registered E s s' a nm cid (user_data d)"
      using a d' by (simp add: registered_def s'_def d1_def)
    moreover have "set_is_init ((store_device s a d')\<lparr>world := w'\<rparr>) a True = Inr s'"
      by (simp add: set_is_init_def load_device_def s'_def d1_def)
    ultimately show ?thesis by blast
  qed
  show ?thesis
  proof (cases "op_init (ops_table E cid)")
    case None
    have "run_init s a = Inr s" using a(1) ops None by (simp add: run_init_def load_device_def)
    moreover have "(store_device s a d)\<lparr>world := world s\<rparr> = s"
      using a(1) by (cases s) (auto simp: store_device_def fun_upd_idem)
    ultimately show ?thesis using fin [of d "world s"] by auto
  next
    case (Some init)
    show ?thesis
    proof (cases "init d (world s)")
      case (Inl f)
      then have "run_init s a = Inl f" using a(1) ops Some by (simp add: run_init_def load_device_def)
      with Some Inl show ?thesis by blast
    next
      case (Inr x)
      obtain r d' w' where x: "x = (r, d', w')" by (cases x)
      then have "dev_id d' = dev_id d" using init_law [OF Some] Inr by blast
      moreover have "run_init s a = Inr ((store_device s a d')\<lparr>world := w'\<rparr>)"
        using a(1) ops Some Inr x by (simp add: run_init_def load_device_def)
      ultimately show ?thesis using fin by blast
    qed
  qed
qed

lemma register_new:
  fixes data :: "'p option"
  assumes r: "registry E s ds cs" and a: "a \<notin> set (ldal_device_list # ldal_device_class_list # ds @ cs)"
      "nodes s a = Some n" "devices s a = Some d" "name d = replicate LDAL_NAME_MAX NUL"
      "length (filename d) = LDAL_FILENAME_MAX"
    and nm: "c_string nm" "length nm < LDAL_NAME_MAX" "length fn \<le> LDAL_FILENAME_MAX"
      "\<forall>b \<in> set ds. \<not> starts_with (device_name_of s b) nm"
    and cid: "cid \<noteq> LDAL_CLASS_MAX"
  defines "reg \<equiv> ldal_device_register E s (Some a) (Some nm) (Some fn) cid data"
  shows "(\<exists>init d1 w1 f. op_init (ops_table E cid) = Some init \<and> user_data d1 = data \<and>
        init d1 w1 = Inl f \<and> reg = Inl f) \<or>
    (\<exists>s' cs'. reg = Inr (LDAL_EOK, s') \<and> registry E s' (ds @ [a]) cs' \<and> registered E s s' a nm cid data) \<or>
    (\<exists>s'. reg = Inr (LDAL_EOK, s') \<and> registry E s' ds cs \<and> devices s' a = Some (d\<lparr>is_init := False\<rparr>) \<and>
        (\<forall>b. b \<noteq> a \<longrightarrow> devices s' b = devices s b) \<and>
        (cid = LDAL_CLASS_BACKLIGHT \<or> \<not> fst (k_calloc (kern E) (world s))))"
proof -
  have get: "ldal_device_get_by_name s (Some nm) = Inr (None, s)"
    using nm(4) by (simp add: get_by_name_eq [OF r nm(1)] find_None_iff)
  obtain cp s1 cs' where s1: "find_class E cid s = Inr (cp, s1)" "registry E s1 ds cs'"
    "devices s1 = devices s" "dom (nodes s) \<subseteq> dom (nodes s1)" "set cs' \<subseteq> set cs \<union> {a. nodes s a = None}"
    "case cp of
       Some c \<Rightarrow> c \<in> set cs' \<and> (\<exists>k. classes s1 c = Some k \<and> device_ops k = Some (ops_table E cid))
     | None \<Rightarrow> cs' = cs \<and> nodes s1 = nodes s \<and>
         (cid = LDAL_CLASS_BACKLIGHT \<or> \<not> fst (k_calloc (kern E) (world s)))"
    by (rule find_class_ok [OF r cid])
  show ?thesis
  proof (cases cp)
    case None
    define s' where "s' = store_device s1 a (d\<lparr>is_init := False\<rparr>)"
    have "reg = Inr (LDAL_EOK, s')"
      using get s1 None a(3) by (simp add: reg_def ldal_device_register_def set_is_init_def load_device_def s'_def)
    moreover have "registry E s' ds cs"
      using registry_unlisted [OF s1(2), of a] a(1) s1(6) None by (simp add: s'_def)
    ultimately show ?thesis using s1(3,6) None by (auto simp: s'_def)
  next
    case (Some c)
    then obtain k where c: "c \<in> set cs'" "classes s1 c = Some k" "device_ops k = Some (ops_table E cid)"
      using s1(6) by auto
    define d1 where "d1 = d\<lparr>name := nm @ drop (length nm) (name d), filename := fn @ drop (length fn) (filename d),
        dclass := Some c, user_data := data, mutex := False, ref := 0\<rparr>"
    have name: "NUL \<in> set (name d1)" "cstr (name d1) = nm"
    proof -
      obtain j where "LDAL_NAME_MAX - length nm = Suc j"
        using nm(2) by (metis diff_is_0_eq not_less old.nat.exhaust)
      then show "NUL \<in> set (name d1)" "cstr (name d1) = nm"
        using a(4) nm(1) by (simp_all add: d1_def)
    qed
    have new: "a \<notin> set (ldal_device_list # ldal_device_class_list # ds @ cs')" using a(1,2) s1(5) by auto
    obtain n1 where n1: "nodes s1 a = Some n1" using s1(4) a(2) by (auto simp: dom_def)
    have dist: "distinct (ldal_device_list # ldal_device_class_list # ds @ cs')"
      and l: "dlist (nodes s1) ldal_device_list ds" "dlist (nodes s1) ldal_device_class_list cs'"
      and unl: "rwlock_dev s1 = Unlocked"
      using s1(2) by (simp_all add: registry_def)
    obtain h1 h2 where h: "init_list_head (nodes s1) a = Inr h1" "list_add_tail h1 a ldal_device_list = Inr h2"
      "dlist h2 ldal_device_list (ds @ [a])" "dlist h2 ldal_device_class_list cs'" "dom h2 = dom (nodes s1)"
      by (rule append_node [OF l dist new n1], rule that)
    define s2 where "s2 = (store_device s1 a d1)\<lparr>nodes := h2, g_device_num := g_device_num s1 + 1\<rparr>"
    have "registry E s2 (ds @ [a]) cs'"
      unfolding registry_def
    proof (intro conjI)
      show "distinct (ldal_device_list # ldal_device_class_list # (ds @ [a]) @ cs')" using dist new by auto
      show "\<forall>b \<in> set (ds @ [a]). \<exists>d. devices s2 b = Some d \<and> NUL \<in> set (name d) \<and> (\<exists>c \<in> set cs'. dclass d = Some c)"
        using s1(2) new name(1) c(1) by (auto simp: registry_def s2_def d1_def)
      show "\<forall>b. nodes s2 b \<noteq> None \<longrightarrow> b < brk s2"
      proof -
        have "h2 b \<noteq> None \<longleftrightarrow> nodes s1 b \<noteq> None" for b using h(5) by (metis domIff)
        then show ?thesis using s1(2) by (simp add: registry_def s2_def store_device_def)
      qed
    qed (use s1(2) h in \<open>auto simp: registry_def s2_def store_device_def\<close>)
    moreover have "devices s2 a = Some d1" by (simp add: s2_def)
    moreover have "has_ops (classes s2) d1 (ops_table E cid)"
      using c by (simp add: has_ops_def ops_of_def s2_def d1_def)
    ultimately have i: "(\<exists>init f. op_init (ops_table E cid) = Some init \<and> init d1 (world s2) = Inl f \<and> run_init s2 a = Inl f) \<or>
      (\<exists>s3 s'. run_init s2 a = Inr s3 \<and> set_is_init s3 a True = Inr s' \<and> registry E s' (ds @ [a]) cs' \<and>
         registered E s2 s' a nm cid data)"
      using init_registered [of s2 "ds @ [a]" cs' a d1 nm cid] name(2) by (simp add: d1_def)
    have "reg = bind_res (run_init s2 a) (\<lambda>s. bind_res (set_is_init s a True) (\<lambda>s. Inr (LDAL_EOK, s)))"
      using get s1(1,3) Some a(3,4,5) nm(2,3) h(1,2) unl
      by (simp add: reg_def ldal_device_register_def load_device_def copy_chars_ok d1_def s2_def store_device_def)
    then show ?thesis
      using i s1(3) by (auto simp: registered_def s2_def d1_def)
  qed
qed

end

section \<open>Properties\<close>

lemma initial_nodes [simp]: "rwlock_dev (initial_ldal w) = Unlocked" "rwlock_cls (initial_ldal w) = Unlocked"
  by (simp_all add: initial_ldal_def)

lemma unregister_eq:
  assumes r: "registry E s (xs @ a # ys) cs" and d: "devices s a = Some d" "ref d = 0"
  obtains s' where "ldal_device_unregister s (Some a) = Inr (LDAL_EOK, s')" "registry E s' (xs @ ys) cs"
    "devices s' = devices s" "nodes s' a = Some \<lparr>nxt = None, prv = None\<rparr>" "a \<notin> set (xs @ ys)"
    "rwlock_dev s' = Unlocked"
proof -
  have l: "dlist (nodes s) ldal_device_list (xs @ a # ys)" "dlist (nodes s) ldal_device_class_list cs"
    and dist: "distinct (ldal_device_list # ldal_device_class_list # (xs @ a # ys) @ cs)"
    and unl: "rwlock_dev s = Unlocked" and num: "g_device_num s = word_of_nat (length (xs @ a # ys))"
    using r by (simp_all add: registry_def)
  obtain h where h: "list_del (nodes s) a = Inr h" "dlist h ldal_device_list (xs @ ys)"
    "h a = Some \<lparr>nxt = None, prv = None\<rparr>"
    "\<forall>b. b \<notin> set (ldal_device_list # xs @ a # ys) \<longrightarrow> h b = nodes s b" "dom h = dom (nodes s)"
    by (rule list_del_ok [OF l(1)])
  have disj: "\<forall>b \<in> set (ldal_device_class_list # cs). b \<notin> set (ldal_device_list # xs @ a # ys)"
    using dist by (simp add: disjoint_iff) blast
  have lc: "dlist h ldal_device_class_list cs" by (rule dlist_frame [OF l(2)]) (use h(4) disj in blast)
  define s' where "s' = s\<lparr>nodes := h, g_device_num := g_device_num s - 1\<rparr>"
  have "ldal_device_unregister s (Some a) = Inr (LDAL_EOK, s')"
    using d h(1) unl by (cases s) (simp add: ldal_device_unregister_def load_device_def s'_def)
  moreover have "registry E s' (xs @ ys) cs"
    unfolding registry_def
  proof (intro conjI)
    show "\<forall>b. nodes s' b \<noteq> None \<longrightarrow> b < brk s'"
    proof -
      have "h b \<noteq> None \<longleftrightarrow> nodes s b \<noteq> None" for b using h(5) by (metis domIff)
      then show ?thesis using r by (simp add: registry_def s'_def)
    qed
  qed (use r h(2) lc dist in \<open>auto simp: registry_def s'_def\<close>)
  ultimately show thesis using that [of s'] h(3) dist unl by (simp add: s'_def)
qed

text \<open>
  Property C38. Looking a device up by name returns the first registered device whose name starts with the
  string asked for, not only one of that name, and releases the list's lock; the registry is unchanged.
\<close>
theorem get_by_name_prefix:
  assumes "registry E s ds cs" "c_string nm"
  shows "ldal_device_get_by_name s (Some nm) =
    Inr (List.find (\<lambda>a. take (length nm) (cstr (name (the (devices s a)))) = nm) ds, s)"
  using get_by_name_eq [OF assms] unfolding starts_with_def device_name_of_def .

text \<open>Two registered devices, \<open>AI10\<close> before \<open>AI1\<close>, of a class with no operation.\<close>

definition listed_device :: "string \<Rightarrow> unit ldal_device" where
  "listed_device s = (fresh_device s ''/dev/x'' ())\<lparr>dclass := Some 4\<rparr>"

definition two_devices :: "(unit, nat) ldal" where
  "two_devices =
     \<lparr>nodes = [0 \<mapsto> \<lparr>nxt = Some 4, prv = Some 4\<rparr>, 4 \<mapsto> \<lparr>nxt = Some 0, prv = Some 0\<rparr>,
               1 \<mapsto> \<lparr>nxt = Some 2, prv = Some 3\<rparr>, 2 \<mapsto> \<lparr>nxt = Some 3, prv = Some 1\<rparr>,
               3 \<mapsto> \<lparr>nxt = Some 1, prv = Some 2\<rparr>],
      classes = [4 \<mapsto> \<lparr>class_id = 3, dev_count = 0, device_ops = Some no_ops\<rparr>],
      devices = [2 \<mapsto> listed_device ''AI10'', 3 \<mapsto> listed_device ''AI1''],
      g_device_num = 2, rwlock_cls = Unlocked, rwlock_dev = Unlocked, brk = 5, world = 0\<rparr>"

definition plain_env :: "(unit, nat) class_env" where
  "plain_env =
     \<lparr>kern = sample_kernel, ops_table = (\<lambda>_. no_ops), zeroed = (\<lambda>_. ()), set_pos = (\<lambda>_ p. p)\<rparr>"

lemma cstr_padded: "c_string s \<Longrightarrow> length s < n \<Longrightarrow> cstr (s @ replicate (n - length s) NUL) = s \<and>
    NUL \<in> set (replicate (n - length s) NUL)"
  by (cases "n - length s") auto

lemma two_devices_registry: "registry plain_env two_devices [2, 3] [4]"
proof -
  have "NUL \<in> set (replicate (LDAL_NAME_MAX - 4) NUL)" "NUL \<in> set (replicate (LDAL_NAME_MAX - 3) NUL)"
    by simp_all
  moreover have "\<exists>cid. (3 :: u16) = class_code cid" by (rule exI [of _ LDAL_CLASS_GPIO]) simp
  ultimately show ?thesis
    by (auto simp: registry_def two_devices_def dlist_def linked_def next_of_def prev_of_def
        ldal_device_list_def ldal_device_class_list_def listed_device_def fresh_device_def plain_env_def)
qed

lemma two_devices_names:
  "device_name_of two_devices 2 = ''AI10''" "device_name_of two_devices 3 = ''AI1''"
  by (simp_all add: device_name_of_def two_devices_def listed_device_def fresh_device_def cstr_def NUL_def)

lemma get_by_name_prefix_witness:
  "ldal_device_get_by_name two_devices (Some ''AI1'') = Inr (Some 2, two_devices)"
  using get_by_name_prefix [OF two_devices_registry, of "''AI1''"] two_devices_names
  by (simp add: NUL_def device_name_of_def)

text \<open>
  Looking a device up by type returns the first registered device of the class, whatever its
  name: the name only has to be there.
\<close>
theorem get_by_type_first:
  assumes r: "registry E s ds cs" and "c_string nm"
  shows "ldal_device_get_by_type s ty (Some nm) =
    Inr (List.find (\<lambda>a. uint (class_id (the (classes s (the (dclass (the (devices s a))))))) = ty) ds)"
proof -
  define P where "P = (\<lambda>a. bind_res (load_device s a) (\<lambda>d.
       bind_res (load_class s (dclass d)) (\<lambda>c.
       if uint (class_id c) = ty then bind_res (name_matches s nm a) (\<lambda>_. Inr True) else Inr False)))"
  define Q where "Q = (\<lambda>a. uint (class_id (the (classes s (the (dclass (the (devices s a))))))) = ty)"
  have P: "P a = Inr (Q a)" if a: "a \<in> set ds" for a
  proof -
    obtain d c where d: "devices s a = Some d" "NUL \<in> set (name d)" "dclass d = Some c" "c \<in> set cs"
      using r a by (fastforce simp: registry_def)
    then obtain k where "classes s c = Some k" using r by (fastforce simp: registry_def)
    then show ?thesis
      using d name_matches_ok [OF d(1,2) assms(2)]
      by (simp add: P_def Q_def load_device_def load_class_def)
  qed
  have "dlist (nodes s) ldal_device_list ds" using r by (simp add: registry_def)
  moreover have "List.find (\<lambda>a. P a = Inr True) ds = List.find Q ds" by (rule find_ext) (simp add: P)
  ultimately show ?thesis
    using list_find_ok [of "nodes s" ldal_device_list ds P] P
    by (simp add: ldal_device_get_by_type_def flip: P_def Q_def)
qed

lemma get_by_type_first_witness:
  "ldal_device_get_by_type two_devices 3 (Some ''AI1'') = Inr (Some 2)"
  using get_by_type_first [OF two_devices_registry, of "''AI1''" 3]
  by (simp add: NUL_def two_devices_def listed_device_def fresh_device_def)

text \<open>
  Property C32. Unregistering a registered, unused device takes exactly that device out of the list, keeps
  the others in order and the count right, and leaves the device itself, which a second
  \<open>ldal_device_unregister\<close> then dereferences a null link of.
\<close>
theorem unregister_device:
  assumes "registry E s (xs @ a # ys) cs" "devices s a = Some d" "ref d = 0"
  shows "\<exists>s'. ldal_device_unregister s (Some a) = Inr (LDAL_EOK, s') \<and> registry E s' (xs @ ys) cs \<and>
    devices s' = devices s \<and> ldal_device_unregister s' (Some a) = Inl Null_Pointer"
proof -
  obtain s' where s': "ldal_device_unregister s (Some a) = Inr (LDAL_EOK, s')" "registry E s' (xs @ ys) cs"
    "devices s' = devices s" "nodes s' a = Some \<lparr>nxt = None, prv = None\<rparr>" "rwlock_dev s' = Unlocked"
    by (rule unregister_eq [OF assms])
  then have "ldal_device_unregister s' (Some a) = Inl Null_Pointer"
    using assms(2,3) list_del_unlinked [of "nodes s'" a, OF s'(4)] by (simp add: ldal_device_unregister_def load_device_def)
  with s' show ?thesis by blast
qed

lemma unregister_device_witness:
  "\<exists>s'. ldal_device_unregister two_devices (Some 2) = Inr (0, s') \<and> registry plain_env s' [3] [4] \<and>
    ldal_device_unregister s' (Some 2) = Inl Null_Pointer"
proof -
  have "registry plain_env two_devices ([] @ 2 # [3]) [4]" using two_devices_registry by simp
  moreover have "devices two_devices 2 = Some (listed_device ''AI10'')" "ref (listed_device ''AI10'') = 0"
    by (simp_all add: two_devices_def listed_device_def fresh_device_def)
  ultimately show ?thesis using unregister_device by fastforce
qed

text \<open>
  A device in use cannot be unregistered: the call fails and changes nothing.
\<close>
theorem unregister_busy:
  assumes "devices s a = Some d" "0 < ref d"
  shows "ldal_device_unregister s (Some a) = Inr (- LDAL_ERROR, s)"
  using assms by (simp add: ldal_device_unregister_def load_device_def)

lemma unregister_busy_witness:
  "ldal_device_unregister (store_device two_devices 2 ((listed_device ''AI10'')\<lparr>ref := 1\<rparr>)) (Some 2) =
     Inr (- LDAL_ERROR, store_device two_devices 2 ((listed_device ''AI10'')\<lparr>ref := 1\<rparr>))"
  using unregister_busy [of "store_device two_devices 2 ((listed_device ''AI10'')\<lparr>ref := 1\<rparr>)" 2
      "(listed_device ''AI10'')\<lparr>ref := 1\<rparr>"] by simp

text \<open>
  Registering a device under a name that a registered device's name starts with is refused,
  but reported as done: the device is marked uninitialised and nothing else changes.
\<close>
theorem register_refused:
  assumes r: "registry E s ds cs" and "c_string nm" and "devices s a = Some d"
    and "\<exists>b \<in> set ds. take (length nm) (cstr (name (the (devices s b)))) = nm"
  shows "ldal_device_register E s (Some a) (Some nm) (Some fn) cid data =
    Inr (LDAL_EOK, store_device s a (d\<lparr>is_init := False\<rparr>))"
proof -
  have "\<exists>b \<in> set ds. starts_with (device_name_of s b) nm"
    using assms(4) by (simp add: starts_with_def device_name_of_def)
  then have "List.find (\<lambda>a. starts_with (device_name_of s a) nm) ds \<noteq> None" by (simp add: find_None_iff)
  then show ?thesis
    using assms(3) by (auto simp: ldal_device_register_def get_by_name_eq [OF r assms(2)]
        set_is_init_def load_device_def)
qed

lemma register_refused_witness:
  "ldal_device_register plain_env two_devices (Some 3) (Some ''AI'') (Some ''f'') LDAL_CLASS_GPIO None =
     Inr (0, store_device two_devices 3 ((listed_device ''AI1'')\<lparr>is_init := False\<rparr>))"
proof -
  have "devices two_devices 3 = Some (listed_device ''AI1'')" by (simp add: two_devices_def)
  moreover have "\<exists>b \<in> set [2, 3]. take (length ''AI'') (cstr (name (the (devices two_devices b)))) = ''AI''"
    using two_devices_names by (simp add: device_name_of_def)
  moreover have "c_string ''AI''" by (simp add: NUL_def)
  ultimately show ?thesis using register_refused [OF two_devices_registry] by simp
qed

end
