(* ===== verification/Ldal_Classes.thy ===== *)
theory Ldal_Classes
  imports Ldal_Registry Fd_Drivers Memory_Driver Rtc_Driver Tcp_Driver Udp_Driver Serial_Driver
    Backlight_Driver Analog_Driver Me_Driver
begin

text \<open>
  The twelve device classes together: the structures \<open>_device_create\<close> of \<open>src/ldal.c\<close> allocates, one for each
  class, and the operations of each class on devices whose structure may be of any class. With these the
  registry's environment is the library's own, and devices are created from a table.
\<close>

section \<open>The structures of all classes\<close>

text \<open>The classes without a case for a payload have nothing in their structure that is used.\<close>

datatype ldal_object =
    Memory_Object ldal_memory_device
  | File_Object
  | Serial_Object ldal_serial_device
  | Gpio_Object
  | Digital_Object
  | Analog_Object ldal_analog_device
  | Rtc_Object
  | Udp_Object ldal_udp_device
  | Tcp_Object ldal_tcp_device
  | Me_Object ldal_me_device
  | Misc_Object
  | Backlight_Object ldal_backlight_device

text \<open>What \<open>calloc\<close> makes of them.\<close>

definition zero_addr :: sockaddr_in where
  "zero_addr = \<lparr>sin_family = 0, sin_port = 0, sin_addr = 0\<rparr>"

definition zero_cfg :: aicfgs where
  "zero_cfg = \<lparr>is_corrected = 0, ac_pad = [0, 0, 0], slope = 0, intercept = 0\<rparr>"

fun zeroed_object :: "ldal_class \<Rightarrow> ldal_object" where
  "zeroed_object LDAL_CLASS_MEMORY = Memory_Object \<lparr>mem_status = 0, mem_data = Null\<rparr>"
| "zeroed_object LDAL_CLASS_FILE = File_Object"
| "zeroed_object LDAL_CLASS_SERIAL = Serial_Object \<lparr>ser_status = 0, ser_timeout = 0,
     ser_opt = \<lparr>baudrate = 0, data_bits = 0, parity = 0, stop_bits = 0, flowctrl = 0, fcopt = [0, 0, 0],
       po_mn = replicate 25 NUL, po_addr = 0\<rparr>\<rparr>"
| "zeroed_object LDAL_CLASS_GPIO = Gpio_Object"
| "zeroed_object LDAL_CLASS_DIGITAL = Digital_Object"
| "zeroed_object LDAL_CLASS_ANALOG = Analog_Object \<lparr>pos = 0, mode = ADC_MODE_CURRENT, cfg_current = zero_cfg,
     cfg_voltage = zero_cfg, ai_conf = \<lparr>current_voltage = 0, value_max = 0, value_min = 0\<rparr>,
     calib_data0 = 0, calib_data1 = 0\<rparr>"
| "zeroed_object LDAL_CLASS_RTC = Rtc_Object"
| "zeroed_object LDAL_CLASS_UDP = Udp_Object \<lparr>saddr = zero_addr, raddr = zero_addr, echo_flag = False\<rparr>"
| "zeroed_object LDAL_CLASS_TCP = Tcp_Object \<lparr>status = INIT_STATE, server = zero_addr, recv_timeout = 0,
     send_timeout = 0, keepalive = 0, keepidle = 0, keepinterval = 0, keepcount = 0\<rparr>"
| "zeroed_object LDAL_CLASS_ME = Me_Object \<lparr>me_status = AT_STATUS_UNINITIALIZED, resp_status = AT_RESP_OK,
     recv_line_buf = None, recv_line_len = 0, lock = False, me_resp = False, resp_notice = 0\<rparr>"
| "zeroed_object LDAL_CLASS_BACKLIGHT = Backlight_Object \<lparr>bl_status = 0, bl_min = 0, bl_max = 0\<rparr>"
| "zeroed_object _ = Misc_Object"

definition set_object_pos :: "int \<Rightarrow> ldal_object \<Rightarrow> ldal_object" where
  "set_object_pos n p = (case p of Analog_Object a \<Rightarrow> Analog_Object (a\<lparr>pos := n\<rparr>) | p \<Rightarrow> p)"

section \<open>Operations of a class on all devices\<close>

text \<open>
  \<open>user_data\<close> is cast to the class's own structure: \<open>u\<close> is that structure, if it is one, and \<open>i\<close> the
  way back.
\<close>

definition with_data :: "'p ldal_device \<Rightarrow> 'q option \<Rightarrow> 'q ldal_device" where
  "with_data d p =
     \<lparr>fd = fd d, name = name d, filename = filename d, is_init = is_init d, ref = ref d, mutex = mutex d,
      dclass = dclass d, user_data = p\<rparr>"

definition narrow :: "('p \<Rightarrow> 'q option) \<Rightarrow> 'p ldal_device \<Rightarrow> 'q ldal_device result" where
  "narrow u d =
     (case user_data d of
        None \<Rightarrow> Inr (with_data d None)
      | Some p \<Rightarrow> (case u p of None \<Rightarrow> Inl Bad_Cast | Some q \<Rightarrow> Inr (with_data d (Some q))))"

definition widen :: "('q \<Rightarrow> 'p) \<Rightarrow> 'q ldal_device \<Rightarrow> 'p ldal_device" where
  "widen i d = with_data d (map_option i (user_data d))"

definition lift_call :: "('q \<Rightarrow> 'p) \<Rightarrow> ('p \<Rightarrow> 'q option) \<Rightarrow> ('q, 'w) dev_call \<Rightarrow> ('p, 'w) dev_call" where
  "lift_call i u f d w =
     bind_res (narrow u d) (\<lambda>d. bind_res (f d w) (\<lambda>(r, d, w). Inr (r, widen i d, w)))"

definition lift_read :: "('q \<Rightarrow> 'p) \<Rightarrow> ('p \<Rightarrow> 'q option) \<Rightarrow> ('q, 'w) read_call \<Rightarrow> ('p, 'w) read_call" where
  "lift_read i u f d buf len w =
     bind_res (narrow u d) (\<lambda>d. bind_res (f d buf len w) (\<lambda>(r, buf, d, w). Inr (r, buf, widen i d, w)))"

definition lift_write :: "('q \<Rightarrow> 'p) \<Rightarrow> ('p \<Rightarrow> 'q option) \<Rightarrow> ('q, 'w) write_call \<Rightarrow> ('p, 'w) write_call" where
  "lift_write i u f d buf len w =
     bind_res (narrow u d) (\<lambda>d. bind_res (f d buf len w) (\<lambda>(r, d, w). Inr (r, widen i d, w)))"

definition lift_control :: "('q \<Rightarrow> 'p) \<Rightarrow> ('p \<Rightarrow> 'q option) \<Rightarrow> ('q, 'w) control_call \<Rightarrow> ('p, 'w) control_call" where
  "lift_control i u f d cmd arg w =
     bind_res (narrow u d) (\<lambda>d. bind_res (f d cmd arg w) (\<lambda>(r, arg, d, w). Inr (r, arg, widen i d, w)))"

definition lift_addr ::
    "('q \<Rightarrow> 'p) \<Rightarrow> ('p \<Rightarrow> 'q option) \<Rightarrow>
     ('q ldal_device \<Rightarrow> string option \<Rightarrow> u16 \<Rightarrow> 'w \<Rightarrow> (int \<times> 'q ldal_device \<times> 'w) result) \<Rightarrow>
     'p ldal_device \<Rightarrow> string option \<Rightarrow> u16 \<Rightarrow> 'w \<Rightarrow> (int \<times> 'p ldal_device \<times> 'w) result" where
  "lift_addr i u f d ip port w =
     bind_res (narrow u d) (\<lambda>d. bind_res (f d ip port w) (\<lambda>(r, d, w). Inr (r, widen i d, w)))"

definition lift_ops :: "('q \<Rightarrow> 'p) \<Rightarrow> ('p \<Rightarrow> 'q option) \<Rightarrow> ('q, 'w) device_ops \<Rightarrow> ('p, 'w) device_ops" where
  "lift_ops i u ops =
     \<lparr>op_init = map_option (lift_call i u) (op_init ops), op_deinit = map_option (lift_call i u) (op_deinit ops),
      op_open = map_option (lift_call i u) (op_open ops), op_close = map_option (lift_call i u) (op_close ops),
      op_read = map_option (lift_read i u) (op_read ops), op_write = map_option (lift_write i u) (op_write ops),
      op_control = map_option (lift_control i u) (op_control ops),
      op_check = map_option (lift_call i u) (op_check ops), op_bind = map_option (lift_addr i u) (op_bind ops),
      op_connect = map_option (lift_addr i u) (op_connect ops)\<rparr>"

fun class_table :: "'w kernel \<Rightarrow> ldal_class \<Rightarrow> (ldal_object, 'w) device_ops" where
  "class_table K LDAL_CLASS_MEMORY =
     lift_ops Memory_Object (\<lambda>p. case p of Memory_Object q \<Rightarrow> Some q | _ \<Rightarrow> None) (memory_device_ops K)"
| "class_table K LDAL_CLASS_FILE = file_device_ops K"
| "class_table K LDAL_CLASS_SERIAL =
     lift_ops Serial_Object (\<lambda>p. case p of Serial_Object q \<Rightarrow> Some q | _ \<Rightarrow> None) (serial_device_ops K)"
| "class_table K LDAL_CLASS_GPIO = gpio_device_ops K"
| "class_table K LDAL_CLASS_DIGITAL = digital_device_ops K"
| "class_table K LDAL_CLASS_ANALOG =
     lift_ops Analog_Object (\<lambda>p. case p of Analog_Object q \<Rightarrow> Some q | _ \<Rightarrow> None) (analog_device_ops K)"
| "class_table K LDAL_CLASS_RTC = rtc_device_ops K"
| "class_table K LDAL_CLASS_UDP =
     lift_ops Udp_Object (\<lambda>p. case p of Udp_Object q \<Rightarrow> Some q | _ \<Rightarrow> None) (udp_device_ops K)"
| "class_table K LDAL_CLASS_TCP =
     lift_ops Tcp_Object (\<lambda>p. case p of Tcp_Object q \<Rightarrow> Some q | _ \<Rightarrow> None) (tcp_device_ops K)"
| "class_table K LDAL_CLASS_ME =
     lift_ops Me_Object (\<lambda>p. case p of Me_Object q \<Rightarrow> Some q | _ \<Rightarrow> None) (me_device_ops K)"
| "class_table K LDAL_CLASS_MISC = misc_device_ops K"
| "class_table K LDAL_CLASS_BACKLIGHT =
     lift_ops Backlight_Object (\<lambda>p. case p of Backlight_Object q \<Rightarrow> Some q | _ \<Rightarrow> None) (backlight_device_ops K)"
| "class_table K LDAL_CLASS_MAX = no_ops"

definition ldal_env :: "'w kernel \<Rightarrow> (ldal_object, 'w) class_env" where
  "ldal_env K =
     \<lparr>kern = K, ops_table = class_table K, zeroed = zeroed_object, set_pos = set_object_pos\<rparr>"

section \<open>Every class keeps the driver contract\<close>

lemma with_data_id: "dev_id (with_data d p) = dev_id d \<longleftrightarrow> (p = None) = (user_data d = None)"
  by (simp add: dev_id_simps with_data_def)

lemma narrow_id: "narrow u d = Inr d' \<Longrightarrow> dev_id d' = dev_id d"
  by (auto simp: narrow_def with_data_id split: option.splits)

lemma widen_id [simp]: "dev_id (widen i d) = dev_id d"
  by (simp add: widen_def with_data_id)

context driver begin

lemma lifted: "driver (lift_ops i u ops)"
proof
  fix f d w r d' w'
  assume "op_init (lift_ops i u ops) = Some f" "f d w = Inr (r, d', w')"
  then show "dev_id d' = dev_id d"
    by (auto simp: lift_ops_def lift_call_def) (metis narrow_id init_frame)
next
  fix f d w r d' w'
  assume "op_open (lift_ops i u ops) = Some f" "f d w = Inr (r, d', w')"
  then show "dev_id d' = dev_id d"
    by (auto simp: lift_ops_def lift_call_def) (metis narrow_id open_frame)
next
  fix f d w r d' w'
  assume "op_close (lift_ops i u ops) = Some f" "f d w = Inr (r, d', w')"
  then show "dev_id d' = dev_id d"
    by (auto simp: lift_ops_def lift_call_def) (metis narrow_id close_frame)
next
  fix g d buf len w r buf' d' w'
  assume "op_read (lift_ops i u ops) = Some g" "g d buf len w = Inr (r, buf', d', w')"
  then show "dev_id d' = dev_id d"
    by (auto simp: lift_ops_def lift_read_def) (metis narrow_id read_frame)
next
  fix h d buf len w r d' w'
  assume "op_write (lift_ops i u ops) = Some h" "h d buf len w = Inr (r, d', w')"
  then show "dev_id d' = dev_id d"
    by (auto simp: lift_ops_def lift_write_def) (metis narrow_id write_frame)
next
  fix k d cmd arg w r arg' d' w'
  assume "op_control (lift_ops i u ops) = Some k" "k d cmd arg w = Inr (r, arg', d', w')"
  then show "dev_id d' = dev_id d"
    by (auto simp: lift_ops_def lift_control_def) (metis narrow_id control_frame)
next
  fix f d w r d' w'
  assume "op_check (lift_ops i u ops) = Some f" "f d w = Inr (r, d', w')"
  then show "dev_id d' = dev_id d"
    by (auto simp: lift_ops_def lift_call_def) (metis narrow_id check_frame)
next
  fix b d ip port w r d' w'
  assume "op_bind (lift_ops i u ops) = Some b" "b d ip port w = Inr (r, d', w')"
  then show "dev_id d' = dev_id d"
    by (auto simp: lift_ops_def lift_addr_def) (metis narrow_id bind_frame)
next
  fix b d ip port w r d' w'
  assume "op_connect (lift_ops i u ops) = Some b" "b d ip port w = Inr (r, d', w')"
  then show "dev_id d' = dev_id d"
    by (auto simp: lift_ops_def lift_addr_def) (metis narrow_id connect_frame)
qed

end

interpretation class_drv: driver "class_table K cid" for K cid
proof -
  have "driver no_ops" by unfold_locales (simp_all add: no_ops_def)
  then show "driver (class_table K cid)"
    using memory_drv.lifted file_drv.driver_axioms serial_drv.lifted gpio_drv.driver_axioms
      digital_drv.driver_axioms analog_drv.lifted rtc_drv.driver_axioms udp_drv.lifted tcp_drv.lifted
      me_drv.lifted misc_drv.driver_axioms backlight_drv.lifted
    by (cases cid) simp_all
qed

interpretation ldal_reg: registry_env "ldal_env K" for K
  by unfold_locales (simp add: ldal_env_def class_drv.init_frame)

section \<open>Creating devices\<close>

text \<open>A new node, with its device, belongs to no list.\<close>

lemma registry_new_node:
  fixes d :: "'p ldal_device" and w :: 'w
  assumes r: "registry E s ds cs"
  defines "s1 \<equiv> store_device (s\<lparr>world := w, nodes := (nodes s)(brk s \<mapsto> \<lparr>nxt = None, prv = None\<rparr>),
    brk := brk s + 1\<rparr>) (brk s) d"
  shows "registry E s1 ds cs" "device_name_of s1 b = (if b = brk s then cstr (name d) else device_name_of s b)"
proof -
  have fresh: "brk s \<notin> set (ldal_device_list # ldal_device_class_list # ds @ cs)" by (rule registry_fresh [OF r])
  have "dlist (nodes s1) ldal_device_list ds" "dlist (nodes s1) ldal_device_class_list cs"
    using r fresh by (auto simp: registry_def s1_def store_device_def intro: dlist_frame)
  moreover have "\<forall>b \<in> set ds. b \<noteq> brk s" using fresh by auto
  ultimately show "registry E s1 ds cs"
    using r unfolding registry_def by (auto simp: s1_def store_device_def less_Suc_eq)
  show "device_name_of s1 b = (if b = brk s then cstr (name d) else device_name_of s b)"
    by (simp add: device_name_of_def s1_def store_device_def)
qed

text \<open>An entry that can be registered: its class can be had and its initialisation does not fault.\<close>

definition good_entry :: "('p, 'w) class_env \<Rightarrow> ldal_device_table \<Rightarrow> bool" where
  "good_entry E t \<longleftrightarrow>
     c_string (device_name t) \<and> length (device_name t) < LDAL_NAME_MAX \<and>
     length (file_name t) \<le> LDAL_FILENAME_MAX \<and> entry_class t \<notin> {LDAL_CLASS_BACKLIGHT, LDAL_CLASS_MAX} \<and>
     (\<forall>f d w e. op_init (ops_table E (entry_class t)) = Some f \<longrightarrow>
        user_data d = Some (zeroed E (entry_class t)) \<longrightarrow> f d w \<noteq> Inl e)"

text \<open>The device that an entry made: its name, class and state.\<close>

definition made_of :: "('p, 'w) class_env \<Rightarrow> ('p, 'w) ldal \<Rightarrow> ldal_device_table \<Rightarrow> addr \<Rightarrow> bool" where
  "made_of E s t a \<longleftrightarrow>
     (\<exists>d. devices s a = Some d \<and> cstr (name d) = device_name t \<and> is_init d \<and> ref d = 0 \<and> \<not> mutex d \<and>
        user_data d \<noteq> None \<and> has_ops (classes s) d (ops_table E (entry_class t)))"

context registry_env begin

lemma device_create_ok:
  assumes r: "registry E s ds cs" and t: "good_entry E t"
    and calloc: "\<forall>w. fst (k_calloc (kern E) w)"
    and nm: "\<forall>b \<in> set ds. \<not> starts_with (device_name_of s b) (device_name t)"
  obtains s' cs' where "device_create E t s = Inr (Some (brk s), s')" "registry E s' (ds @ [brk s]) cs'"
    "made_of E s' t (brk s)" "\<forall>b. b \<noteq> brk s \<longrightarrow> devices s' b = devices s b"
proof -
  define cid where "cid = entry_class t"
  have c: "c_string (device_name t)" "length (device_name t) < LDAL_NAME_MAX"
    "length (file_name t) \<le> LDAL_FILENAME_MAX" "cid \<noteq> LDAL_CLASS_BACKLIGHT" "cid \<noteq> LDAL_CLASS_MAX"
    using t by (auto simp: good_entry_def cid_def)
  obtain w where k: "k_calloc (kern E) (world s) = (True, w)" using calloc by (metis prod.collapse)
  define s1 where "s1 = store_device (s\<lparr>world := w, nodes := (nodes s)(brk s \<mapsto> \<lparr>nxt = None, prv = None\<rparr>),
    brk := brk s + 1\<rparr>) (brk s) zero_device"
  have r1: "registry E s1 ds cs" unfolding s1_def by (rule registry_new_node [OF r])
  have fresh: "brk s \<notin> set (ldal_device_list # ldal_device_class_list # ds @ cs)" by (rule registry_fresh [OF r])
  then have "\<forall>b \<in> set ds. device_name_of s1 b = device_name_of s b"
    unfolding s1_def registry_new_node(2) [OF r] by auto
  then have nm1: "\<forall>b \<in> set ds. \<not> starts_with (device_name_of s1 b) (device_name t)" using nm by simp
  have s1: "nodes s1 (brk s) = Some \<lparr>nxt = None, prv = None\<rparr>" "devices s1 (brk s) = Some zero_device"
    "\<forall>b. b \<noteq> brk s \<longrightarrow> devices s1 b = devices s b" by (simp_all add: s1_def store_device_def)
  define reg where "reg = ldal_device_register E s1 (Some (brk s)) (Some (device_name t)) (Some (file_name t)) cid
      (Some (zeroed E cid))"
  have "\<not> (\<exists>init d1 w1 f. op_init (ops_table E cid) = Some init \<and> user_data d1 = Some (zeroed E cid) \<and>
        init d1 w1 = Inl f \<and> reg = Inl f)"
    using t by (fastforce simp: good_entry_def cid_def)
  then obtain s' cs' where s': "reg = Inr (LDAL_EOK, s')" "registry E s' (ds @ [brk s]) cs'"
    "registered E s1 s' (brk s) (device_name t) cid (Some (zeroed E cid))"
    using register_new [OF r1 fresh s1(1,2) _ _ c(1-3) nm1 c(5), of "Some (zeroed E cid)"] c(4) calloc
    by (auto simp: reg_def zero_device_def)
  then obtain d where d: "devices s' (brk s) = Some d" "cstr (name d) = device_name t" "is_init d" "ref d = 0"
    "\<not> mutex d" "user_data d \<noteq> None" "has_ops (classes s') d (ops_table E cid)"
    "\<forall>b. b \<noteq> brk s \<longrightarrow> devices s' b = devices s b"
    using s1(3) by (auto simp: registered_def)
  define d' where "d' = (if cid = LDAL_CLASS_ANALOG
    then d\<lparr>user_data := map_option (set_pos E (sint (ucast (private_data t) :: 32 word))) (user_data d)\<rparr> else d)"
  have same: "name d' = name d" "dclass d' = dclass d" by (simp_all add: d'_def)
  define s2 where "s2 = (if cid = LDAL_CLASS_ANALOG then store_device s' (brk s) d' else s')"
  have "device_create E t s = Inr (Some (brk s), s2)"
    using k c(5) s'(1) d(1) by (simp add: device_create_def new_node_def Let_def s1_def reg_def s2_def d'_def flip: cid_def)
  moreover have "registry E s2 (ds @ [brk s]) cs'"
    using s'(2) registry_store [OF s'(2) d(1) same] by (simp add: s2_def)
  moreover have "has_ops (classes s') d' (ops_table E cid)"
    using d(7) has_ops_class [of d' d "classes s'" "ops_table E cid"] by (simp add: d'_def)
  then have "made_of E s2 t (brk s)"
    using d by (auto simp: made_of_def s2_def d'_def simp flip: cid_def)
  moreover have "\<forall>b. b \<noteq> brk s \<longrightarrow> devices s2 b = devices s b" using d(8) by (simp add: s2_def)
  ultimately show thesis using that by blast
qed

end

text \<open>Classes that are there stay as they are.\<close>

lemma class_get_frame:
  "ldal_device_class_get s cid = Inr (c, s') \<Longrightarrow> classes s' = classes s \<and> brk s' = brk s"
  by (auto simp: ldal_device_class_get_def Let_def)

lemma create_class_frame:
  "create_class E cid s = Inr (r, s') \<Longrightarrow> a < brk s \<Longrightarrow> classes s' a = classes s a"
  by (auto simp: create_class_def ldal_device_class_register_def new_node_def load_class_def Let_def case_prod_unfold
      split: if_split_asm)

lemma class_set_frame:
  "ldal_device_class_set E cid s = Inr s' \<Longrightarrow> a < brk s \<Longrightarrow> classes s' a = classes s a"
  by (cases cid) (auto simp: ldal_device_class_set_def class_registers dest: create_class_frame)

lemma find_class_frame:
  assumes "find_class E cid s = Inr (c, s')" "a < brk s"
  shows "classes s' a = classes s a"
proof -
  obtain c1 s1 where 1: "ldal_device_class_get s cid = Inr (c1, s1)"
    using assms(1) by (auto simp: find_class_def)
  note f1 = class_get_frame [OF 1]
  show ?thesis
  proof (cases c1)
    case None
    then obtain s2 c2 s3 where 2: "ldal_device_class_set E cid s1 = Inr s2" "ldal_device_class_get s2 cid = Inr (c2, s3)"
      using assms(1) 1 by (auto simp: find_class_def)
    then have "s' = s3" using assms(1) 1 None by (auto simp: find_class_def split: option.splits if_splits)
    then show ?thesis
      using class_set_frame [OF 2(1), of a] class_get_frame [OF 2(2)] f1 assms(2) by simp
  next
    case (Some x)
    then show ?thesis using assms(1) 1 f1 by (simp add: find_class_def)
  qed
qed

lemma get_by_name_frame:
  "ldal_device_get_by_name s nm = Inr (c, s') \<Longrightarrow> classes s' = classes s \<and> brk s' = brk s"
  by (auto simp: ldal_device_get_by_name_def assert_ptr_Inr Let_def)

lemma run_init_frame: "run_init s a = Inr s' \<Longrightarrow> classes s' = classes s"
  by (auto simp: run_init_def store_device_def split: option.splits)

lemma set_is_init_frame: "set_is_init s a b = Inr s' \<Longrightarrow> classes s' = classes s"
  by (auto simp: set_is_init_def store_device_def)

lemma register_frame:
  assumes "ldal_device_register E s dev dn fn cid data = Inr (r, s')" "a < brk s"
  shows "classes s' a = classes s a"
proof -
  obtain x dn' fn' where p: "dev = Some x" "dn = Some dn'" "fn = Some fn'"
    using assms(1) by (auto simp: ldal_device_register_def assert_ptr_Inr)
  obtain found s1 where 1: "ldal_device_get_by_name s (Some dn') = Inr (found, s1)"
    using assms(1) p by (auto simp: ldal_device_register_def)
  note f1 = get_by_name_frame [OF 1]
  show ?thesis
  proof (cases found)
    case (Some y)
    then show ?thesis using assms(1) p 1 f1 by (auto simp: ldal_device_register_def dest: set_is_init_frame)
  next
    case None
    then obtain cp s2 where 2: "find_class E cid s1 = Inr (cp, s2)"
      using assms(1) p 1 by (auto simp: ldal_device_register_def)
    have f2: "classes s2 a = classes s a" using find_class_frame [OF 2] f1 assms(2) by simp
    have "classes s' = classes s2"
      using assms(1) p 1 2 None
      by (cases cp) (auto simp: ldal_device_register_def store_device_def Let_def
          dest!: set_is_init_frame run_init_frame)
    then show ?thesis using f2 by simp
  qed
qed

lemma device_create_frame:
  assumes "device_create E t s = Inr (p, s')" "a < brk s"
  shows "classes s' a = classes s a"
proof -
  have "classes s' a = classes s a" if "ldal_device_register E s1 dev dn fn cid data = Inr (r, s2)"
    "classes s1 = classes s" "brk s1 = brk s + 1" "classes s' = classes s2" for s1 dev dn fn cid data r s2
    using register_frame [OF that(1), of a] that assms(2) by simp
  then show ?thesis
    using assms(1) by (fastforce simp: device_create_def new_node_def Let_def case_prod_unfold store_device_def
        split: if_split_asm)
qed

context registry_env begin

text \<open>The entries become devices in order, behind those that were registered before.\<close>

lemma create_loop_ok:
  assumes "registry E s ds cs" "\<forall>t \<in> set ts. good_entry E t" "\<forall>w. fst (k_calloc (kern E) w)"
    and "\<forall>t \<in> set ts. \<forall>b \<in> set ds. \<not> starts_with (device_name_of s b) (device_name t)"
    and "sorted_wrt (\<lambda>t u. \<not> starts_with (device_name t) (device_name u)) ts"
  shows "\<exists>s' as cs'. create_loop E ts (length ts) s = Inr (LDAL_EOK, s') \<and> registry E s' (ds @ as) cs' \<and>
    list_all2 (made_of E s') ts as \<and> (\<forall>b \<in> set ds. devices s' b = devices s b) \<and>
    (\<forall>c < brk s. classes s' c = classes s c)"
  using assms
proof (induction ts arbitrary: s ds cs)
  case Nil
  then show ?case by auto
next
  case (Cons t ts)
  define a where "a = brk s"
  have t: "good_entry E t" and nm: "\<forall>b \<in> set ds. \<not> starts_with (device_name_of s b) (device_name t)"
    using Cons.prems(2,4) by simp_all
  obtain s1 cs1 where s1: "device_create E t s = Inr (Some a, s1)" "registry E s1 (ds @ [a]) cs1"
    "made_of E s1 t a" "\<forall>b. b \<noteq> a \<longrightarrow> devices s1 b = devices s b"
    unfolding a_def by (rule device_create_ok [OF Cons.prems(1) t Cons.prems(3) nm])
  have a: "a \<notin> set ds" using registry_fresh [OF Cons.prems(1)] by (auto simp: a_def)
  have names: "\<forall>b \<in> set ds. device_name_of s1 b = device_name_of s b" "device_name_of s1 a = device_name t"
    using s1(3,4) a by (auto simp: device_name_of_def made_of_def)
  have "\<forall>u \<in> set ts. \<forall>b \<in> set (ds @ [a]). \<not> starts_with (device_name_of s1 b) (device_name u)"
    using Cons.prems(4,5) names by auto
  then obtain s' as cs' where s': "create_loop E ts (length ts) s1 = Inr (LDAL_EOK, s')"
    "registry E s' ((ds @ [a]) @ as) cs'" "list_all2 (made_of E s') ts as"
    "\<forall>b \<in> set (ds @ [a]). devices s' b = devices s1 b" "\<forall>c < brk s1. classes s' c = classes s1 c"
    using Cons.IH [OF s1(2)] Cons.prems(2,3,5) by auto
  have listed: "b < brk s1" if "b \<in> set (ds @ [a]) \<union> set cs1" for b
  proof -
    have "nodes s1 b \<noteq> None"
      using that s1(2) dlist_nodes [of "nodes s1" ldal_device_list "ds @ [a]"]
        dlist_nodes [of "nodes s1" ldal_device_class_list cs1] by (auto simp: registry_def)
    then show ?thesis using s1(2) by (simp add: registry_def)
  qed
  obtain d where d: "devices s1 a = Some d" "cstr (name d) = device_name t" "is_init d" "ref d = 0" "\<not> mutex d"
    "user_data d \<noteq> None" "has_ops (classes s1) d (ops_table E (entry_class t))"
    using s1(3) by (auto simp: made_of_def)
  obtain c where c: "dclass d = Some c" "c \<in> set cs1" using s1(2) d(1) by (auto simp: registry_def)
  have "classes s' c = classes s1 c" using listed c(2) s'(5) by auto
  then have "has_ops (classes s') d (ops_table E (entry_class t))"
    using d(7) c(1) by (simp add: has_ops_def ops_of_def)
  then have "made_of E s' t a" using d s'(4) by (simp add: made_of_def)
  moreover have "\<forall>c < brk s. classes s' c = classes s c"
    using device_create_frame [OF s1(1)] s'(5) listed [of a] by (auto simp: a_def)
  ultimately show ?case
    using s1(1,4) s' a by (intro exI [of _ s'] exI [of _ "a # as"] exI [of _ cs']) auto
qed

end

section \<open>Properties\<close>

lemma find_nth:
  assumes "i < length xs" "P (xs ! i)" "\<forall>j < i. \<not> P (xs ! j)"
  shows "List.find P xs = Some (xs ! i)"
  using assms
proof (induction xs arbitrary: i)
  case (Cons x xs)
  show ?case
  proof (cases i)
    case 0
    then show ?thesis using Cons.prems by simp
  next
    case (Suc j)
    then have "\<not> P x" "\<forall>k < j. \<not> P (xs ! k)" using Cons.prems(3) by auto
    then show ?thesis using Cons.IH [of j] Cons.prems Suc by simp
  qed
qed simp

text \<open>
  Property C25. Creating devices from a table whose names no earlier name starts with: every entry becomes a
  device of its class, initialised and unused, behind the devices there were, in the order of the table;
  the registry stays well formed, and looking an entry's name up finds its device.
\<close>
theorem create_table:
  fixes K :: "'w kernel"
  assumes r: "registry (ldal_env K) s ds cs" and ts: "\<forall>t \<in> set ts. good_entry (ldal_env K) t"
    and calloc: "\<forall>w. fst (k_calloc K w)"
    and ds: "\<forall>t \<in> set ts. \<forall>b \<in> set ds. \<not> starts_with (device_name_of s b) (device_name t)"
    and names: "sorted_wrt (\<lambda>t u. \<not> starts_with (device_name t) (device_name u)) ts"
    and sz: "unat sz = length ts" "ts \<noteq> []"
  shows "\<exists>s' as cs'. ldal_device_create (ldal_env K) (Some ts) sz s = Inr (LDAL_EOK, s') \<and>
    registry (ldal_env K) s' (ds @ as) cs' \<and> list_all2 (made_of (ldal_env K) s') ts as \<and>
    (\<forall>i < length ts. ldal_device_get_by_name s' (Some (device_name (ts ! i))) = Inr (Some (as ! i), s'))"
proof -
  have K: "\<forall>w. fst (k_calloc (kern (ldal_env K)) w)" using calloc by (simp add: ldal_env_def)
  obtain s' as cs' where s': "create_loop (ldal_env K) ts (length ts) s = Inr (LDAL_EOK, s')"
    "registry (ldal_env K) s' (ds @ as) cs'" "list_all2 (made_of (ldal_env K) s') ts as"
    "\<forall>b \<in> set ds. devices s' b = devices s b"
    using ldal_reg.create_loop_ok [OF r ts K ds names] by blast
  have "sz \<noteq> 0" using sz by auto
  then have create: "ldal_device_create (ldal_env K) (Some ts) sz s = Inr (LDAL_EOK, s')"
    using s'(1) sz by (simp add: ldal_device_create_def)
  have found: "ldal_device_get_by_name s' (Some (device_name (ts ! i))) = Inr (Some (as ! i), s')" if i: "i < length ts" for i
  proof -
    define P where "P = (\<lambda>a. starts_with (device_name_of s' a) (device_name (ts ! i)))"
    have l: "length as = length ts" using list_all2_lengthD [OF s'(3)] by simp
    have n: "device_name_of s' (as ! j) = device_name (ts ! j)" if "j < length ts" for j
      using list_all2_nthD [OF s'(3) that] by (auto simp: made_of_def device_name_of_def)
    have "List.find P ds = None"
      using ds s'(4) i unfolding find_None_iff P_def device_name_of_def by (metis nth_mem)
    moreover have "List.find P as = Some (as ! i)"
    proof (rule find_nth)
      show "i < length as" using i l by simp
      show "P (as ! i)" using n [OF i] by (simp add: P_def starts_with_def)
      show "\<forall>j < i. \<not> P (as ! j)"
        using sorted_wrt_nth_less [OF names] n i by (simp add: P_def)
    qed
    moreover have "c_string (device_name (ts ! i))" using ts i by (simp add: good_entry_def)
    ultimately show ?thesis
      unfolding get_by_name_eq [OF s'(2) \<open>c_string _\<close>] P_def [symmetric] by (simp add: find_append)
  qed
  show ?thesis using create s'(2,3) found by blast
qed

text \<open>A table of a serial port, a pin and a clock.\<close>

definition sample_table :: "ldal_device_table list" where
  "sample_table =
     [\<lparr>device_name = ''uart1'', file_name = ''/dev/ttyS1'', entry_class = LDAL_CLASS_SERIAL, private_data = 0\<rparr>,
      \<lparr>device_name = ''led'', file_name = ''/dev/led'', entry_class = LDAL_CLASS_GPIO, private_data = 0\<rparr>,
      \<lparr>device_name = ''rtc0'', file_name = ''/dev/rtc0'', entry_class = LDAL_CLASS_RTC, private_data = 0\<rparr>]"

lemma create_table_witness:
  "\<exists>s' a. ldal_device_create (ldal_env sample_kernel) (Some sample_table) 3 (initial_ldal 0) = Inr (0, s') \<and>
     ldal_device_get_by_name s' (Some ''led'') = Inr (Some a, s')"
proof -
  have "\<forall>t \<in> set sample_table. good_entry (ldal_env sample_kernel) t"
    by (auto simp: sample_table_def good_entry_def NUL_def ldal_env_def lift_ops_def serial_device_ops_def
        gpio_device_ops_def rtc_device_ops_def no_ops_def lift_call_def narrow_def serial_init_def with_data_def)
  moreover have "sorted_wrt (\<lambda>t u. \<not> starts_with (device_name t) (device_name u)) sample_table"
    by (simp add: sample_table_def starts_with_def)
  moreover have "\<forall>w. fst (k_calloc sample_kernel w)" by (simp add: sample_kernel_def)
  moreover have "unat (3 :: size_t) = length sample_table" "sample_table \<noteq> []" by (simp_all add: sample_table_def)
  ultimately obtain s' as where s': "ldal_device_create (ldal_env sample_kernel) (Some sample_table) 3 (initial_ldal 0) =
      Inr (LDAL_EOK, s')" "\<forall>i < length sample_table. ldal_device_get_by_name s' (Some (device_name (sample_table ! i))) =
      Inr (Some (as ! i), s')"
    using create_table [OF initial_registry [of "ldal_env sample_kernel" 0], of sample_table 3] by auto
  have "device_name (sample_table ! 1) = ''led''" "1 < length sample_table" by (simp_all add: sample_table_def)
  then show ?thesis using s' by (metis LDAL_EOK_def)
qed

end
