(* ===== verification/Cjson.thy ===== *)
theory Cjson
  imports Float32
begin

text \<open>
  The JSON library, \<open>src/cJSON.c\<close>: the tree of items, the parser, the printer and the operations on arrays and
  objects. A pointer into a text is the rest of the memory area from there on, terminator and what follows it
  included, so that reading past the area is a fault. Memory can always be had, an item is in one tree
  only, and the characters from 128 on are neither spaces nor letters (the C locale).
\<close>

section \<open>Items\<close>

definition cJSON_False :: int where "cJSON_False = 0"
definition cJSON_True :: int where "cJSON_True = 1"
definition cJSON_NULL :: int where "cJSON_NULL = 2"
definition cJSON_Number :: int where "cJSON_Number = 3"
definition cJSON_String :: int where "cJSON_String = 4"
definition cJSON_Array :: int where "cJSON_Array = 5"
definition cJSON_Object :: int where "cJSON_Object = 6"
definition cJSON_IsReference :: int where "cJSON_IsReference = 256"

lemmas json_types = cJSON_False_def cJSON_True_def cJSON_NULL_def cJSON_Number_def cJSON_String_def
  cJSON_Array_def cJSON_Object_def cJSON_IsReference_def

text \<open>
  The chain of \<open>next\<close> and \<open>prev\<close> pointers below \<open>child\<close> is the list \<open>children\<close>; a string that is not there
  is \<open>None\<close>.
\<close>

datatype cjson = CJSON (item_type: int) (valuestring: "string option") (valueint: int) (valuedouble: f32)
  (item_string: "string option") (children: "cjson list")

definition cJSON_New_Item :: cjson where
  "cJSON_New_Item = CJSON 0 None 0 (Zero False) None []"

fun set_item_string :: "string option \<Rightarrow> cjson \<Rightarrow> cjson" where
  "set_item_string s (CJSON t v i d _ cs) = CJSON t v i d s cs"

fun set_children :: "cjson list \<Rightarrow> cjson \<Rightarrow> cjson" where
  "set_children cs (CJSON t v i d s _) = CJSON t v i d s cs"

section \<open>Comparison without case\<close>

definition tolower :: "char \<Rightarrow> char" where
  "tolower c = (if 65 \<le> (of_char c :: nat) \<and> (of_char c :: nat) \<le> 90 then char_of ((of_char c :: nat) + 32) else c)"

text \<open>The loop on two terminated strings: whether the result is 0.\<close>

fun strcasecmp_loop :: "string \<Rightarrow> string \<Rightarrow> bool" where
  "strcasecmp_loop [] [] = True"
| "strcasecmp_loop (c # s) (d # t) = (tolower c = tolower d \<and> strcasecmp_loop s t)"
| "strcasecmp_loop _ _ = False"

definition cJSON_strcasecmp :: "string option \<Rightarrow> string option \<Rightarrow> bool" where
  "cJSON_strcasecmp s1 s2 =
     (case s1 of
        None \<Rightarrow> s2 = None
      | Some s \<Rightarrow> (case s2 of None \<Rightarrow> False | Some t \<Rightarrow> strcasecmp_loop s t))"

section \<open>Numbers\<close>

abbreviation d_mul :: "f32 \<Rightarrow> f32 \<Rightarrow> f32" where "d_mul \<equiv> fp_mul d_round"

text \<open>
  What the parser takes from outside: \<open>pow(10.0, e)\<close> of the mathematical library, whose accuracy the standard
  leaves open, and the values \<open>uc\<close> and \<open>uc2\<close> of \<open>parse_string\<close> have before they are assigned, in the call
  at a rest of the text.
\<close>

record json_env =
  pow10 :: "int \<Rightarrow> f32"
  stack_uc :: "char list \<Rightarrow> u32"
  stack_uc2 :: "char list \<Rightarrow> u32"

definition peek :: "char list \<Rightarrow> char result" where
  "peek s = (case s of [] \<Rightarrow> Inl Out_Of_Bounds | c # _ \<Rightarrow> Inr c)"

definition dec_step :: "f32 \<Rightarrow> char \<Rightarrow> f32" where
  "dec_step n c = d_add (d_mul n (Num 10)) (d_of_int (int (digit_value c)))"

text \<open>The loops over the digits of the number and of its exponent.\<close>

fun num_digits :: "f32 \<Rightarrow> char list \<Rightarrow> (f32 \<times> nat \<times> char list) result" where
  "num_digits n [] = Inl Out_Of_Bounds"
| "num_digits n (c # s) =
     (if is_digit c then bind_res (num_digits (dec_step n c) s) (\<lambda>(m, k, r). Inr (m, Suc k, r))
      else Inr (n, 0, c # s))"

fun exp_digits :: "int \<Rightarrow> char list \<Rightarrow> (int \<times> char list) result" where
  "exp_digits e [] = Inl Out_Of_Bounds"
| "exp_digits e (c # s) =
     (if is_digit c
      then let e' = 10 * e + int (digit_value c) in if in_int e' then exp_digits e' s else Inl Int_Overflow
      else Inr (e, c # s))"

definition num_fraction :: "f32 \<Rightarrow> char list \<Rightarrow> (f32 \<times> nat \<times> char list) result" where
  "num_fraction n s =
     bind_res (peek s) (\<lambda>c.
       if c \<noteq> CHR ''.'' then Inr (n, 0, s)
       else bind_res (peek (tl s)) (\<lambda>d. if is_digit d then num_digits n (tl s) else Inr (n, 0, s)))"

definition num_exponent :: "char list \<Rightarrow> (int \<times> char list) result" where
  "num_exponent s =
     bind_res (peek s) (\<lambda>c.
       if c = CHR ''e'' \<or> c = CHR ''E''
       then bind_res (peek (tl s)) (\<lambda>g.
         if g = CHR ''+'' then exp_digits 0 (tl (tl s))
         else if g = CHR ''-'' then bind_res (exp_digits 0 (tl (tl s))) (\<lambda>(e, r). Inr (- e, r))
         else exp_digits 0 (tl s))
       else Inr (0, s))"

text \<open>The part before the point; a leading \<open>0\<close> is passed over.\<close>

definition num_integer :: "char list \<Rightarrow> (f32 \<times> char list) result" where
  "num_integer s =
     bind_res (peek s) (\<lambda>c.
       let s = (if c = CHR ''0'' then tl s else s) in
       bind_res (peek s) (\<lambda>c.
         if is_digit c \<and> c \<noteq> CHR ''0''
         then bind_res (num_digits (Zero False) s) (\<lambda>(n, _, r). Inr (n, r))
         else Inr (Zero False, s)))"

definition parse_number :: "json_env \<Rightarrow> char list \<Rightarrow> (cjson option \<times> char list) result" where
  "parse_number E s =
     bind_res (peek s) (\<lambda>c.
       let sign = (if c = CHR ''-'' then Num (- 1) else Num 1);
           s = (if c = CHR ''-'' then tl s else s)
       in bind_res (num_integer s) (\<lambda>(n, s).
          bind_res (num_fraction n s) (\<lambda>(n, k, s).
          bind_res (num_exponent s) (\<lambda>(e, s).
            let d = d_mul (d_mul sign n) (pow10 E (e - int k)) in
            bind_res (f_to_int d) (\<lambda>i. Inr (Some (CJSON cJSON_Number None i d None []), s))))))"

section \<open>Strings\<close>

abbreviation QUOTE :: char where "QUOTE \<equiv> CHR 0x22"
abbreviation BACKSLASH :: char where "BACKSLASH \<equiv> CHR 0x5C"

text \<open>
  \<open>sscanf(s, "%4x", &u)\<close>: white space, then at most four characters of a sign, a prefix \<open>0x\<close> and digits;
  \<open>None\<close> when there is no number, and \<open>u\<close> keeps its value.
\<close>

definition sscanf_4x :: "char list \<Rightarrow> u32 option result" where
  "sscanf_4x s =
     bind_res (read_cstr s) (\<lambda>t.
       let t = take 4 (dropWhile is_space t);
           neg = (t \<noteq> [] \<and> hd t = CHR ''-'');
           t = (if neg \<or> t \<noteq> [] \<and> hd t = CHR ''+'' then tl t else t);
           t = (if length t \<ge> 2 \<and> hd t = CHR ''0'' \<and> tolower (hd (tl t)) = CHR ''x'' then drop 2 t else t)
       in if t = [] \<or> hex_value (hd t) = None then Inr None
          else let v = (word_of_nat (hex_digits 0 t) :: u32) in Inr (Some (if neg then - v else v)))"

definition firstByteMark :: "nat \<Rightarrow> u32" where
  "firstByteMark len = [0x00, 0x00, 0xC0, 0xE0, 0xF0, 0xF8, 0xFC] ! len"

text \<open>The bytes of a character: its length, then the last byte first.\<close>

definition utf8_len :: "u32 \<Rightarrow> nat" where
  "utf8_len uc = (if uc < 0x80 then 1 else if uc < 0x800 then 2 else if uc < 0x10000 then 3 else 4)"

definition low_char :: "u32 \<Rightarrow> char" where
  "low_char w = char_of (unat (ucast w :: byte))"

fun utf8_tail :: "nat \<Rightarrow> u32 \<Rightarrow> char list \<Rightarrow> u32 \<times> char list" where
  "utf8_tail 0 uc out = (uc, out)"
| "utf8_tail (Suc n) uc out = utf8_tail n (drop_bit 6 uc) (low_char ((uc OR 0x80) AND 0xBF) # out)"

definition utf8_chars :: "u32 \<Rightarrow> char list" where
  "utf8_chars uc =
     (let len = utf8_len uc; (uc, out) = utf8_tail (len - 1) uc [] in low_char (uc OR firstByteMark len) # out)"

definition surrogate_pair :: "u32 \<Rightarrow> u32 \<Rightarrow> u32" where
  "surrogate_pair uc uc2 = 0x10000 OR push_bit 10 (uc AND 0x3FF) OR (uc2 AND 0x3FF)"

text \<open>
  The case of \<open>\\u\<close>, with \<open>s\<close> at the \<open>u\<close>: what is written, how far \<open>ptr\<close> moves, and the two variables, which
  keep what an earlier \<open>\\u\<close> left in them.
\<close>

definition unescape_u :: "u32 \<Rightarrow> u32 \<Rightarrow> char list \<Rightarrow> (char list \<times> nat \<times> u32 \<times> u32) result" where
  "unescape_u uc uc2 s =
     bind_res (sscanf_4x (drop 1 s)) (\<lambda>v.
       let uc = (case v of None \<Rightarrow> uc | Some u \<Rightarrow> u) in
       if 0xDC00 \<le> uc \<and> uc \<le> 0xDFFF \<or> uc = 0 then Inr ([], 4, uc, uc2)
       else if 0xD800 \<le> uc \<and> uc \<le> 0xDBFF then
         bind_res (peek (drop 5 s)) (\<lambda>c.
           if c \<noteq> BACKSLASH then Inr ([], 4, uc, uc2)
           else bind_res (peek (drop 6 s)) (\<lambda>d.
             if d \<noteq> CHR ''u'' then Inr ([], 4, uc, uc2)
             else bind_res (sscanf_4x (drop 7 s)) (\<lambda>v.
               let uc2 = (case v of None \<Rightarrow> uc2 | Some u \<Rightarrow> u) in
               if uc2 < 0xDC00 \<or> 0xDFFF < uc2 then Inr ([], 10, uc, uc2)
               else let uc = surrogate_pair uc uc2 in
                 Inr (utf8_chars uc, 10, drop_bit (6 * (utf8_len uc - 1)) uc, uc2))))
       else Inr (utf8_chars uc, 4, drop_bit (6 * (utf8_len uc - 1)) uc, uc2))"

definition unescape :: "u32 \<Rightarrow> u32 \<Rightarrow> char list \<Rightarrow> (char list \<times> nat \<times> u32 \<times> u32) result" where
  "unescape uc uc2 s =
     bind_res (peek s) (\<lambda>c.
       if c = CHR ''b'' then Inr ([CHR 0x08], 0, uc, uc2)
       else if c = CHR ''f'' then Inr ([CHR 0x0C], 0, uc, uc2)
       else if c = CHR ''n'' then Inr ([CHR 0x0A], 0, uc, uc2)
       else if c = CHR ''r'' then Inr ([CHR 0x0D], 0, uc, uc2)
       else if c = CHR ''t'' then Inr ([CHR 0x09], 0, uc, uc2)
       else if c = CHR ''u'' then unescape_u uc uc2 s
       else Inr ([c], 0, uc, uc2))"

text \<open>The first loop, which finds how much memory the string needs.\<close>

fun string_room :: "char list \<Rightarrow> nat result" where
  "string_room [] = Inl Out_Of_Bounds"
| "string_room (c # s) =
     (if c = QUOTE \<or> c = NUL then Inr 0
      else if c = BACKSLASH then (case s of [] \<Rightarrow> Inl Out_Of_Bounds | _ # r \<Rightarrow> map_sum id Suc (string_room r))
      else map_sum id Suc (string_room s))"

text \<open>The second loop writes the string to \<open>room\<close> bytes of memory; \<open>out\<close> is what has been written.\<close>

definition put_chars :: "nat \<Rightarrow> char list \<Rightarrow> char list \<Rightarrow> char list result" where
  "put_chars room out cs = (if length out + length cs \<le> room then Inr (out @ cs) else Inl Out_Of_Bounds)"

function copy_unescaped :: "nat \<Rightarrow> u32 \<Rightarrow> u32 \<Rightarrow> char list \<Rightarrow> char list \<Rightarrow> (char list \<times> char list) result" where
  "copy_unescaped room uc uc2 out [] = Inl Out_Of_Bounds"
| "copy_unescaped room uc uc2 out (c # s) =
     (if c = QUOTE \<or> c = NUL then Inr (out, c # s)
      else if c \<noteq> BACKSLASH
      then bind_res (put_chars room out [c]) (\<lambda>out. copy_unescaped room uc uc2 out s)
      else bind_res (unescape uc uc2 s) (\<lambda>(cs, k, uc, uc2).
        bind_res (put_chars room out cs) (\<lambda>out. copy_unescaped room uc uc2 out (drop (Suc k) s))))"
  by pat_completeness auto
termination
  by (relation "measure (\<lambda>(room, uc, uc2, out, s). length s)") auto

definition parse_string :: "json_env \<Rightarrow> char list \<Rightarrow> (cjson option \<times> char list) result" where
  "parse_string E s =
     bind_res (peek s) (\<lambda>c.
       if c \<noteq> QUOTE then Inr (None, s)
       else bind_res (string_room (tl s)) (\<lambda>len.
         bind_res (copy_unescaped (len + 1) (stack_uc E s) (stack_uc2 E s) [] (tl s)) (\<lambda>(out, p).
         bind_res (put_chars (len + 1) out [NUL]) (\<lambda>out.
         bind_res (peek p) (\<lambda>c.
           Inr (Some (CJSON cJSON_String (Some (cstr out)) 0 (Zero False) None []),
                if c = QUOTE then tl p else p))))))"

section \<open>The parser\<close>

definition skip :: "char list \<Rightarrow> char list result" where
  "skip s = (case dropWhile is_space s of [] \<Rightarrow> Inl Out_Of_Bounds | c # r \<Rightarrow> Inr (c # r))"

text \<open>\<open>skip\<close> of what a parser returned; a null pointer stays one.\<close>

definition skip_after :: "(cjson option \<times> char list) result \<Rightarrow> (cjson option \<times> char list) result" where
  "skip_after m =
     bind_res m (\<lambda>(x, s). case x of None \<Rightarrow> Inr (None, s) | Some i \<Rightarrow> bind_res (skip s) (\<lambda>s. Inr (Some i, s)))"

text \<open>Whether the result is 0, and where the stream stands then; \<open>str\<close> has its terminator.\<close>

fun stream_cmp :: "char list \<Rightarrow> char list \<Rightarrow> (bool \<times> char list) result" where
  "stream_cmp (c # s) (d # str) = (if c = d then stream_cmp s str else Inr (d = NUL, c # s))"
| "stream_cmp _ _ = Inl Out_Of_Bounds"

text \<open>
  The parser of values calls itself through the parsers of arrays and objects, which get it as their argument
  \<open>pv\<close>. Each nested value and each round of a loop takes one unit of fuel. The loops are \<open>parse_elements\<close> and
  \<open>parse_members\<close>, with the items already in the chain, and begin at the test for a comma; \<open>parse_member\<close> is what the
  code does for the first member and again for the later ones. A failure is \<open>None\<close>, with the place it was
  found at.
\<close>

fun parse_elements :: "(char list \<Rightarrow> (cjson option \<times> char list) result) \<Rightarrow> nat \<Rightarrow> cjson list \<Rightarrow> char list
    \<Rightarrow> (cjson option \<times> char list) result" where
  "parse_elements pv 0 cs s = Inl Diverges"
| "parse_elements pv (Suc n) cs s =
     bind_res (peek s) (\<lambda>c.
       if c \<noteq> CHR '','' then
         Inr (if c \<noteq> CHR '']'' then (None, s) else (Some (CJSON cJSON_Array None 0 (Zero False) None cs), tl s))
       else bind_res (skip (tl s)) (\<lambda>s.
         if hd s = CHR '']'' then
           bind_res (peek (tl s)) (\<lambda>c.
             Inr (if c \<noteq> CHR '']'' then (None, tl s)
                  else (Some (CJSON cJSON_Array None 0 (Zero False) None cs), tl (tl s))))
         else bind_res (skip_after (pv s)) (\<lambda>(x, s).
           case x of None \<Rightarrow> Inr (None, s) | Some i \<Rightarrow> parse_elements pv n (cs @ [i]) s)))"

definition parse_array :: "(char list \<Rightarrow> (cjson option \<times> char list) result) \<Rightarrow> nat \<Rightarrow> char list
    \<Rightarrow> (cjson option \<times> char list) result" where
  "parse_array pv n s =
     bind_res (peek s) (\<lambda>c.
       if c \<noteq> CHR ''['' then Inr (None, s)
       else bind_res (skip (tl s)) (\<lambda>s.
         if hd s = CHR '']'' then Inr (Some (CJSON cJSON_Array None 0 (Zero False) None []), tl s)
         else bind_res (skip_after (pv s)) (\<lambda>(x, s).
           case x of None \<Rightarrow> Inr (None, s) | Some i \<Rightarrow> parse_elements pv n [i] s)))"

definition parse_member :: "json_env \<Rightarrow> (char list \<Rightarrow> (cjson option \<times> char list) result) \<Rightarrow> char list
    \<Rightarrow> (cjson option \<times> char list) result" where
  "parse_member E pv s =
     bind_res (skip_after (parse_string E s)) (\<lambda>(x, s).
       case x of
         None \<Rightarrow> Inr (None, s)
       | Some k \<Rightarrow>
           bind_res (peek s) (\<lambda>c.
             if c \<noteq> CHR '':'' then Inr (None, s)
             else bind_res (skip (tl s)) (\<lambda>s.
               bind_res (skip_after (pv s)) (\<lambda>(x, s).
                 Inr (map_option (set_item_string (valuestring k)) x, s)))))"

fun parse_members :: "json_env \<Rightarrow> (char list \<Rightarrow> (cjson option \<times> char list) result) \<Rightarrow> nat \<Rightarrow> cjson list
    \<Rightarrow> char list \<Rightarrow> (cjson option \<times> char list) result" where
  "parse_members E pv 0 cs s = Inl Diverges"
| "parse_members E pv (Suc n) cs s =
     bind_res (peek s) (\<lambda>c.
       if c \<noteq> CHR '','' then
         Inr (if c \<noteq> CHR ''}'' then (None, s) else (Some (CJSON cJSON_Object None 0 (Zero False) None cs), tl s))
       else bind_res (skip (tl s)) (\<lambda>s.
         if hd s = CHR ''}'' then
           bind_res (peek (tl s)) (\<lambda>c.
             Inr (if c \<noteq> CHR ''}'' then (None, tl s)
                  else (Some (CJSON cJSON_Object None 0 (Zero False) None cs), tl (tl s))))
         else bind_res (parse_member E pv s) (\<lambda>(x, s).
           case x of None \<Rightarrow> Inr (None, s) | Some i \<Rightarrow> parse_members E pv n (cs @ [i]) s)))"

definition parse_object :: "json_env \<Rightarrow> (char list \<Rightarrow> (cjson option \<times> char list) result) \<Rightarrow> nat \<Rightarrow> char list
    \<Rightarrow> (cjson option \<times> char list) result" where
  "parse_object E pv n s =
     bind_res (peek s) (\<lambda>c.
       if c \<noteq> CHR ''{'' then Inr (None, s)
       else bind_res (skip (tl s)) (\<lambda>s.
         if hd s = CHR ''}'' then Inr (Some (CJSON cJSON_Object None 0 (Zero False) None []), tl s)
         else bind_res (parse_member E pv s) (\<lambda>(x, s).
           case x of None \<Rightarrow> Inr (None, s) | Some i \<Rightarrow> parse_members E pv n [i] s)))"

primrec parse_value :: "json_env \<Rightarrow> nat \<Rightarrow> char list \<Rightarrow> (cjson option \<times> char list) result" where
  "parse_value E 0 = (\<lambda>s. Inl Diverges)"
| "parse_value E (Suc n) = (\<lambda>s.
     bind_res (stream_cmp s (''null'' @ [NUL])) (\<lambda>(same, s).
       if same then Inr (Some (CJSON cJSON_NULL None 0 (Zero False) None []), s)
       else bind_res (stream_cmp s (''false'' @ [NUL])) (\<lambda>(same, s).
         if same then Inr (Some (CJSON cJSON_False None 0 (Zero False) None []), s)
         else bind_res (stream_cmp s (''true'' @ [NUL])) (\<lambda>(same, s).
           if same then Inr (Some (CJSON cJSON_True None 1 (Zero False) None []), s)
           else bind_res (peek s) (\<lambda>c.
             if c = QUOTE then parse_string E s
             else if c = CHR ''-'' \<or> is_digit c then parse_number E s
             else if c = CHR ''['' then parse_array (parse_value E n) n s
             else if c = CHR ''{'' then parse_object E (parse_value E n) n s
             else Inr (None, s))))))"

text \<open>The fuel is one unit for every character and one more.\<close>

definition parse_fuel :: "char list \<Rightarrow> nat" where
  "parse_fuel s = length s + 1"

definition cJSON_Parse :: "json_env \<Rightarrow> char list \<Rightarrow> cjson option result" where
  "cJSON_Parse E s =
     bind_res (skip s) (\<lambda>s. bind_res (parse_value E (parse_fuel s) s) (\<lambda>(x, _). Inr x))"

text \<open>\<open>cJSON_Parse_Stream\<close> also gives \<open>*end_ptr\<close>.\<close>

definition cJSON_Parse_Stream :: "json_env \<Rightarrow> char list \<Rightarrow> (cjson option \<times> char list) result" where
  "cJSON_Parse_Stream E s = bind_res (skip s) (\<lambda>s. parse_value E (parse_fuel s) s)"

section \<open>The printer\<close>

text \<open>A string written to \<open>room\<close> bytes of new memory with its terminator.\<close>

definition heap_string :: "nat \<Rightarrow> string \<Rightarrow> string result" where
  "heap_string room s = (if length s < room then Inr s else Inl Out_Of_Bounds)"

definition d_le :: "f32 \<Rightarrow> f32 \<Rightarrow> bool" where
  "d_le x y \<longleftrightarrow> x \<noteq> Nan \<and> y \<noteq> Nan \<and> \<not> f_less y x"

fun d_fabs :: "f32 \<Rightarrow> f32" where
  "d_fabs (Zero s) = Zero False"
| "d_fabs (Num q) = Num \<bar>q\<bar>"
| "d_fabs (Inf s) = Inf False"
| "d_fabs Nan = Nan"

fun d_floor :: "f32 \<Rightarrow> f32" where
  "d_floor (Num q) = (if \<lfloor>q\<rfloor> = 0 then Zero False else Num (of_int \<lfloor>q\<rfloor>))"
| "d_floor x = x"

definition DBL_EPSILON :: f32 where
  "DBL_EPSILON = Num (1 / 2 ^ 52)"

text \<open>\<open>%.0f\<close> and \<open>%f\<close>, with \<open>p\<close> digits after the point, and \<open>%e\<close>.\<close>

definition pad0 :: "nat \<Rightarrow> string \<Rightarrow> string" where
  "pad0 p s = replicate (p - length s) (CHR ''0'') @ s"

definition print_fixed :: "nat \<Rightarrow> rat \<Rightarrow> string" where
  "print_fixed p a =
     (let n = nat (rne (a * 10 ^ p)) in
      decimal (n div 10 ^ p) @ (if p = 0 then [] else CHR ''.'' # pad0 p (decimal (n mod 10 ^ p))))"

definition exponent10 :: "rat \<Rightarrow> int" where
  "exponent10 a =
     (let (n, d) = quotient_of a; e = int (length (decimal (nat n))) - int (length (decimal (nat d)))
      in if 10 powi e \<le> a then e else e - 1)"

definition print_exp :: "rat \<Rightarrow> string" where
  "print_exp a =
     (let e = (if a = 0 then 0 else exponent10 a); m = rne (a * 10 powi (6 - e));
          (m, e) = (if m = 10 ^ 7 then (10 ^ 6, e + 1) else (m, e))
      in decimal (nat m div 10 ^ 6) @ CHR ''.'' # pad0 6 (decimal (nat m mod 10 ^ 6)) @
         CHR ''e'' # (if e < 0 then CHR ''-'' else CHR ''+'') # pad0 2 (decimal (nat \<bar>e\<bar>)))"

definition print_double :: "(rat \<Rightarrow> string) \<Rightarrow> f32 \<Rightarrow> string" where
  "print_double pr d =
     (if f_sign d then ''-'' else []) @
     (case d of Inf _ \<Rightarrow> ''inf'' | Nan \<Rightarrow> ''nan'' | _ \<Rightarrow> pr \<bar>f_val d\<bar>)"

definition print_number :: "cjson \<Rightarrow> string result" where
  "print_number item =
     (let d = valuedouble item in
      if d_le (d_fabs (d_sub (d_of_int (valueint item)) d)) DBL_EPSILON
         \<and> d_le d (d_of_int (2 ^ 31 - 1)) \<and> d_le (d_of_int (- (2 ^ 31))) d
      then heap_string 21 (print_d (valueint item))
      else heap_string 64
        (if d_le (d_fabs (d_sub (d_floor d) d)) DBL_EPSILON then print_double (print_fixed 0) d
         else if f_less (d_fabs d) (d_round (1 / 10 ^ 6)) \<or> f_less (Num (10 ^ 9)) (d_fabs d)
         then print_double print_exp d
         else print_double (print_fixed 6) d))"

text \<open>The characters a character of a string is printed as, and the number the first loop counts for it.\<close>

definition escape_char :: "char \<Rightarrow> string" where
  "escape_char c =
     (let n = (of_char c :: nat) in
      if 31 < n \<and> c \<noteq> QUOTE \<and> c \<noteq> BACKSLASH then [c]
      else BACKSLASH #
        (if c = BACKSLASH \<or> c = QUOTE then [c]
         else if n = 8 then ''b'' else if n = 12 then ''f'' else if n = 10 then ''n''
         else if n = 13 then ''r'' else if n = 9 then ''t''
         else CHR ''u'' # map hex_char [n div 4096 mod 16, n div 256 mod 16, n div 16 mod 16, n mod 16]))"

definition escape_room :: "char \<Rightarrow> nat" where
  "escape_room c =
     (let n = (of_char c :: nat) in
      if c \<in> {QUOTE, BACKSLASH} \<or> n \<in> {8, 12, 10, 13, 9} then 2 else if n < 32 then 6 else 1)"

definition print_string_ptr :: "string option \<Rightarrow> string result" where
  "print_string_ptr str =
     (case str of
        None \<Rightarrow> Inr []
      | Some s \<Rightarrow> heap_string (sum_list (map escape_room s) + 3) (QUOTE # concat (map escape_char s) @ [QUOTE]))"

definition print_string :: "cjson \<Rightarrow> string result" where
  "print_string item = print_string_ptr (valuestring item)"

text \<open>The texts of the children are joined; a child that could not be printed makes the whole fail.\<close>

fun join_array :: "bool \<Rightarrow> string list \<Rightarrow> string" where
  "join_array fmt [] = []"
| "join_array fmt [e] = e"
| "join_array fmt (e # es) = e @ '','' @ (if fmt then '' '' else []) @ join_array fmt es"

definition print_array :: "bool \<Rightarrow> string option list \<Rightarrow> string option result" where
  "print_array fmt entries =
     (if None \<in> set entries then Inr None
      else let es = map the entries in
        map_sum id Some
          (heap_string (5 + sum_list (map (\<lambda>e. length e + 2 + (if fmt then 1 else 0)) es))
            (''['' @ join_array fmt es @ '']'')))"

fun join_object :: "bool \<Rightarrow> nat \<Rightarrow> (string \<times> string) list \<Rightarrow> string" where
  "join_object fmt depth [] = []"
| "join_object fmt depth ((k, e) # es) =
     (if fmt then replicate depth (CHR 0x09) else []) @ k @ '':'' @ (if fmt then [CHR 0x09] else []) @ e @
     (if es = [] then [] else '','') @ (if fmt then [CHR 0x0A] else []) @ join_object fmt depth es"

text \<open>Here \<open>depth\<close> has been incremented.\<close>

definition print_object :: "bool \<Rightarrow> nat \<Rightarrow> string list \<Rightarrow> string option list \<Rightarrow> string option result" where
  "print_object fmt depth names entries =
     (if None \<in> set entries then Inr None
      else let es = zip names (map the entries) in
        map_sum id Some
          (heap_string
            (7 + (if fmt then depth else 0) +
              sum_list (map (\<lambda>(k, e). length e + length k + 2 + (if fmt then 2 + depth else 0)) es))
            (''{'' @ (if fmt then [CHR 0x0A] else []) @ join_object fmt depth es @
              (if fmt then replicate (depth - 1) (CHR 0x09) else []) @ ''}'')))"

fun print_names :: "cjson list \<Rightarrow> string list result" where
  "print_names [] = Inr []"
| "print_names (c # cs) =
     bind_res (print_string_ptr (item_string c)) (\<lambda>k. bind_res (print_names cs) (\<lambda>ks. Inr (k # ks)))"

text \<open>
  \<open>print_value\<close>; the children of an array are printed up to the first that fails (\<open>stop\<close>), those of an object
  all.
\<close>

fun print_value :: "bool \<Rightarrow> nat \<Rightarrow> cjson \<Rightarrow> string option result"
  and print_children :: "bool \<Rightarrow> bool \<Rightarrow> nat \<Rightarrow> cjson list \<Rightarrow> string option list result" where
  "print_value fmt depth (CJSON t v i d nm cs) =
     (let item = CJSON t v i d nm cs; ty = t AND 255 in
      if ty = cJSON_NULL then Inr (Some ''null'')
      else if ty = cJSON_False then Inr (Some ''false'')
      else if ty = cJSON_True then Inr (Some ''true'')
      else if ty = cJSON_Number then map_sum id Some (print_number item)
      else if ty = cJSON_String then map_sum id Some (print_string item)
      else if ty = cJSON_Array then
        bind_res (print_children True fmt (depth + 1) cs) (\<lambda>es. print_array fmt es)
      else if ty = cJSON_Object then
        bind_res (print_names cs) (\<lambda>ks.
          bind_res (print_children False fmt (depth + 1) cs) (\<lambda>es. print_object fmt (depth + 1) ks es))
      else Inr None)"
| "print_children stop fmt depth [] = Inr []"
| "print_children stop fmt depth (c # cs) =
     bind_res (print_value fmt depth c) (\<lambda>e.
       if stop \<and> e = None then Inr [None]
       else bind_res (print_children stop fmt depth cs) (\<lambda>es. Inr (e # es)))"

definition cJSON_Print :: "cjson \<Rightarrow> string option result" where
  "cJSON_Print item = print_value True 0 item"

definition cJSON_PrintUnformatted :: "cjson \<Rightarrow> string option result" where
  "cJSON_PrintUnformatted item = print_value False 0 item"

section \<open>Arrays and objects\<close>

definition cJSON_GetArraySize :: "cjson \<Rightarrow> int" where
  "cJSON_GetArraySize array = int (length (children array))"

text \<open>The loop that counts down, on the chain of children; a null parent is a fault.\<close>

fun nth_item :: "cjson list \<Rightarrow> int \<Rightarrow> cjson option" where
  "nth_item [] item = None"
| "nth_item (c # cs) item = (if 0 < item then nth_item cs (item - 1) else Some c)"

definition cJSON_GetArrayItem :: "cjson option \<Rightarrow> int \<Rightarrow> cjson option result" where
  "cJSON_GetArrayItem array item =
     (case array of None \<Rightarrow> Inl Null_Pointer | Some a \<Rightarrow> Inr (nth_item (children a) item))"

definition cJSON_GetObjectItem :: "cjson \<Rightarrow> string \<Rightarrow> cjson option" where
  "cJSON_GetObjectItem object str = find (\<lambda>c. cJSON_strcasecmp (item_string c) (Some str)) (children object)"

definition create_reference :: "cjson \<Rightarrow> cjson" where
  "create_reference item =
     CJSON (item_type item OR cJSON_IsReference) (valuestring item) (valueint item) (valuedouble item) None
       (children item)"

definition cJSON_AddItemToArray :: "cjson \<Rightarrow> cjson option \<Rightarrow> cjson" where
  "cJSON_AddItemToArray array item =
     (case item of None \<Rightarrow> array | Some i \<Rightarrow> set_children (children array @ [i]) array)"

definition cJSON_AddItemToObject :: "cjson \<Rightarrow> string \<Rightarrow> cjson option \<Rightarrow> cjson" where
  "cJSON_AddItemToObject object str item =
     (case item of
        None \<Rightarrow> object
      | Some i \<Rightarrow> cJSON_AddItemToArray object (Some (set_item_string (Some str) i)))"

definition cJSON_AddItemReferenceToArray :: "cjson \<Rightarrow> cjson \<Rightarrow> cjson" where
  "cJSON_AddItemReferenceToArray array item = cJSON_AddItemToArray array (Some (create_reference item))"

definition cJSON_AddItemReferenceToObject :: "cjson \<Rightarrow> string \<Rightarrow> cjson \<Rightarrow> cjson" where
  "cJSON_AddItemReferenceToObject object str item =
     cJSON_AddItemToObject object str (Some (create_reference item))"

text \<open>The position the loop on \<open>which\<close> stops at, if it is in the chain.\<close>

definition chain_index :: "cjson list \<Rightarrow> int \<Rightarrow> nat option" where
  "chain_index cs which = (if nat which < length cs then Some (nat which) else None)"

definition cJSON_DetachItemFromArray :: "cjson \<Rightarrow> int \<Rightarrow> cjson option \<times> cjson" where
  "cJSON_DetachItemFromArray array which =
     (let cs = children array in
      case chain_index cs which of
        None \<Rightarrow> (None, array)
      | Some k \<Rightarrow> (Some (cs ! k), set_children (take k cs @ drop (Suc k) cs) array))"

definition cJSON_DeleteItemFromArray :: "cjson \<Rightarrow> int \<Rightarrow> cjson" where
  "cJSON_DeleteItemFromArray array which = snd (cJSON_DetachItemFromArray array which)"

text \<open>The loop that looks for a name and counts.\<close>

fun name_index :: "cjson list \<Rightarrow> string \<Rightarrow> int option" where
  "name_index [] str = None"
| "name_index (c # cs) str =
     (if cJSON_strcasecmp (item_string c) (Some str) then Some 0 else map_option (\<lambda>i. i + 1) (name_index cs str))"

definition cJSON_DetachItemFromObject :: "cjson \<Rightarrow> string \<Rightarrow> cjson option \<times> cjson" where
  "cJSON_DetachItemFromObject object str =
     (case name_index (children object) str of
        None \<Rightarrow> (None, object)
      | Some i \<Rightarrow> cJSON_DetachItemFromArray object i)"

definition cJSON_DeleteItemFromObject :: "cjson \<Rightarrow> string \<Rightarrow> cjson" where
  "cJSON_DeleteItemFromObject object str = snd (cJSON_DetachItemFromObject object str)"

definition cJSON_ReplaceItemInArray :: "cjson \<Rightarrow> int \<Rightarrow> cjson \<Rightarrow> cjson" where
  "cJSON_ReplaceItemInArray array which newitem =
     (let cs = children array in
      case chain_index cs which of
        None \<Rightarrow> array
      | Some k \<Rightarrow> set_children (cs[k := newitem]) array)"

definition cJSON_ReplaceItemInObject :: "cjson \<Rightarrow> string \<Rightarrow> cjson \<Rightarrow> cjson" where
  "cJSON_ReplaceItemInObject object str newitem =
     (case name_index (children object) str of
        None \<Rightarrow> object
      | Some i \<Rightarrow> cJSON_ReplaceItemInArray object i (set_item_string (Some str) newitem))"

section \<open>Constructors\<close>

definition cJSON_CreateNull :: cjson where
  "cJSON_CreateNull = CJSON cJSON_NULL None 0 (Zero False) None []"

definition cJSON_CreateTrue :: cjson where
  "cJSON_CreateTrue = CJSON cJSON_True None 0 (Zero False) None []"

definition cJSON_CreateFalse :: cjson where
  "cJSON_CreateFalse = CJSON cJSON_False None 0 (Zero False) None []"

definition cJSON_CreateBool :: "int \<Rightarrow> cjson" where
  "cJSON_CreateBool b = CJSON (if b \<noteq> 0 then cJSON_True else cJSON_False) None 0 (Zero False) None []"

definition cJSON_CreateNumber :: "f32 \<Rightarrow> cjson result" where
  "cJSON_CreateNumber num =
     bind_res (f_to_int num) (\<lambda>i. Inr (CJSON cJSON_Number None i num None []))"

definition cJSON_CreateString :: "string \<Rightarrow> cjson" where
  "cJSON_CreateString str = CJSON cJSON_String (Some str) 0 (Zero False) None []"

definition cJSON_CreateArray :: cjson where
  "cJSON_CreateArray = CJSON cJSON_Array None 0 (Zero False) None []"

definition cJSON_CreateObject :: cjson where
  "cJSON_CreateObject = CJSON cJSON_Object None 0 (Zero False) None []"

text \<open>
  The loops of the four array constructors: items made of the first \<open>count\<close> entries, which must be there.
\<close>

fun create_items :: "('a \<Rightarrow> cjson result) \<Rightarrow> 'a list \<Rightarrow> nat \<Rightarrow> cjson list result" where
  "create_items mk xs 0 = Inr []"
| "create_items mk [] (Suc n) = Inl Out_Of_Bounds"
| "create_items mk (x # xs) (Suc n) =
     bind_res (mk x) (\<lambda>i. bind_res (create_items mk xs n) (\<lambda>is. Inr (i # is)))"

definition cJSON_CreateIntArray :: "int list \<Rightarrow> int \<Rightarrow> cjson result" where
  "cJSON_CreateIntArray numbers count =
     bind_res (create_items (\<lambda>n. cJSON_CreateNumber (d_of_int n)) numbers (nat count)) (\<lambda>is.
       Inr (set_children is cJSON_CreateArray))"

text \<open>A \<open>float\<close> is a \<open>double\<close> without conversion, so the next two differ only in the type of their argument.\<close>

definition cJSON_CreateFloatArray :: "f32 list \<Rightarrow> int \<Rightarrow> cjson result" where
  "cJSON_CreateFloatArray numbers count =
     bind_res (create_items cJSON_CreateNumber numbers (nat count)) (\<lambda>is. Inr (set_children is cJSON_CreateArray))"

definition cJSON_CreateDoubleArray :: "f32 list \<Rightarrow> int \<Rightarrow> cjson result" where
  "cJSON_CreateDoubleArray numbers count =
     bind_res (create_items cJSON_CreateNumber numbers (nat count)) (\<lambda>is. Inr (set_children is cJSON_CreateArray))"

definition cJSON_CreateStringArray :: "string list \<Rightarrow> int \<Rightarrow> cjson result" where
  "cJSON_CreateStringArray strings count =
     bind_res (create_items (\<lambda>s. Inr (cJSON_CreateString s)) strings (nat count)) (\<lambda>is.
       Inr (set_children is cJSON_CreateArray))"

end
