(* ===== verification/Cjson_Text.thy ===== *)
theory Cjson_Text
  imports Cjson
begin

text \<open>
  Properties of the JSON library: its parser ends on every text, and a tree that is printed is
  parsed back. The reference is a data type of JSON values with its text as a function.
\<close>

section \<open>Exact arithmetic\<close>

lemma rne_of_int [simp]: "rne (of_int n) = n"
  by (simp add: rne_def)

lemma round_at_int:
  assumes "0 < n" "n < 2 ^ p" "k \<le> 0"
  shows "round_at (int p) k (of_int n) = of_int n"
proof -
  define u where "u = ulp_at (int p) k (of_int n)"
  have n: "(0::rat) < of_int n" using assms(1) by simp
  have "exponent (of_int n) < int p"
  proof (rule ccontr)
    assume "\<not> exponent (of_int n) < int p"
    then have "(2::rat) powi int p \<le> 2 powi exponent (of_int n)" by (intro power_int_increasing) auto
    moreover have "(2::rat) powi int p = of_int (2 ^ p)" by simp
    ultimately have "(of_int (2 ^ p) :: rat) \<le> of_int n" using exponent_bounds(1) [OF n] by linarith
    then have "2 ^ p \<le> n" by (simp only: of_int_le_iff)
    with assms(2) show False by simp
  qed
  then have u: "u \<le> 0" using assms(3) by (simp add: u_def ulp_at_def)
  define j where "j = nat (- u)"
  have p: "(2::rat) powi u = 1 / 2 ^ j"
  proof -
    have "u = - int j" using u by (simp add: j_def)
    then show ?thesis by (simp add: power_int_minus field_simps)
  qed
  have "(of_int n :: rat) / 2 powi u = of_int (n * 2 ^ j)" by (simp add: p)
  then have "rne (of_int n / 2 powi u) = n * 2 ^ j" by (simp only: rne_of_int)
  then show ?thesis by (simp add: round_at_def u_def [symmetric] p)
qed

lemma d_of_int_zero [simp]: "d_of_int 0 = Zero False"
  by (simp add: d_of_int_def fp_round_def)

lemma d_of_int_exact:
  assumes "\<bar>n\<bar> < 2 ^ 53" "n \<noteq> 0"
  shows "d_of_int n = Num (of_int n)"
proof -
  have "round_at (int 53) (- 1074) (of_int \<bar>n\<bar>) = of_int \<bar>n\<bar>" using assms by (intro round_at_int) simp_all
  then have r: "round_at 53 (- 1074) \<bar>of_int n :: rat\<bar> = \<bar>of_int n\<bar>" by simp
  have "(of_int \<bar>n\<bar> :: rat) < of_int (2 ^ 53)" using assms(1) by (simp only: of_int_less_iff)
  then have "\<not> 2 ^ 1024 \<le> (\<bar>of_int n\<bar> :: rat)" by simp
  with r assms(2) show ?thesis by (auto simp: d_of_int_def fp_round_def Let_def abs_if)
qed

lemma d_round_int: "d_round (of_int n) = d_of_int n"
  by (simp add: d_of_int_def)

lemma d_of_int_add:
  assumes "\<bar>a\<bar> < 2 ^ 53" "\<bar>b\<bar> < 2 ^ 53"
  shows "d_add (d_of_int a) (d_of_int b) = d_of_int (a + b)"
proof (cases "a = 0 \<or> b = 0")
  case True
  then show ?thesis
    using d_of_int_exact [OF assms(1)] d_of_int_exact [OF assms(2)] by (cases "a = 0"; cases "b = 0") auto
next
  case False
  then show ?thesis
    using d_of_int_exact [OF assms(1)] d_of_int_exact [OF assms(2)] d_round_int [of "a + b"] by simp
qed

lemma d_of_int_mul:
  assumes "0 \<le> a" "\<bar>a\<bar> < 2 ^ 53" "\<bar>b\<bar> < 2 ^ 53" "b \<noteq> 0" "0 < b \<or> a \<noteq> 0"
  shows "d_mul (d_of_int b) (d_of_int a) = d_of_int (a * b)" "d_mul (d_of_int a) (d_of_int b) = d_of_int (a * b)"
proof -
  note b = d_of_int_exact [OF assms(3,4)]
  have "d_mul (d_of_int b) (d_of_int a) = d_of_int (a * b) \<and> d_mul (d_of_int a) (d_of_int b) = d_of_int (a * b)"
  proof (cases "a = 0")
    case True
    then show ?thesis using assms(5) by (simp add: b)
  next
    case False
    note a = d_of_int_exact [OF assms(2) False]
    have "(of_int (a * b) :: rat) = of_int a * of_int b" by simp
    then show ?thesis using d_round_int [of "a * b"] unfolding a b by (simp add: mult.commute)
  qed
  then show "d_mul (d_of_int b) (d_of_int a) = d_of_int (a * b)"
    "d_mul (d_of_int a) (d_of_int b) = d_of_int (a * b)" by auto
qed

section \<open>Numbers\<close>

lemma dec_step_exact:
  assumes "10 * int a + 10 < 2 ^ 53" "is_digit c"
  shows "dec_step (d_of_int (int a)) c = d_of_int (int (10 * a + digit_value c))"
proof -
  have c: "digit_value c \<le> 9" using assms(2) unfolding is_digit_def digit_value_def by arith
  have "d_mul (d_of_int (int a)) (d_of_int 10) = d_of_int (int a * 10)"
    using assms(1) by (intro d_of_int_mul(2)) simp_all
  moreover have "d_of_int 10 = Num 10" by (subst d_of_int_exact) simp_all
  moreover have "d_add (d_of_int (int a * 10)) (d_of_int (int (digit_value c))) =
      d_of_int (int a * 10 + int (digit_value c))"
    using assms(1) c by (intro d_of_int_add) simp_all
  ultimately show ?thesis by (simp add: dec_step_def mult.commute)
qed

lemma digits_value_mono: "acc \<le> digits_value acc s"
proof (induction s arbitrary: acc)
  case (Cons c s)
  have "10 * acc + digit_value c \<le> digits_value (10 * acc + digit_value c) s" by (rule Cons)
  then show ?case by simp
qed simp

lemma num_digits_exact:
  assumes "\<forall>d \<in> set ds. is_digit d" "\<not> is_digit c" "int (digits_value a ds) < 2 ^ 53 - 10"
  shows "num_digits (d_of_int (int a)) (ds @ c # rest) =
    Inr (d_of_int (int (digits_value a ds)), length ds, c # rest)"
  using assms
proof (induction ds arbitrary: a)
  case (Cons d ds)
  have v: "digits_value a (d # ds) = digits_value (10 * a + digit_value d) ds" using Cons.prems(1) by simp
  have "10 * a + digit_value d \<le> digits_value (10 * a + digit_value d) ds" by (rule digits_value_mono)
  with Cons.prems(3) v have "10 * int a + 10 < 2 ^ 53" by linarith
  then have "dec_step (d_of_int (int a)) d = d_of_int (int (10 * a + digit_value d))"
    using Cons.prems(1) by (intro dec_step_exact) simp_all
  moreover have "num_digits (d_of_int (int (10 * a + digit_value d))) (ds @ c # rest) =
      Inr (d_of_int (int (digits_value (10 * a + digit_value d) ds)), length ds, c # rest)"
    using Cons.prems v by (intro Cons.IH) simp_all
  ultimately show ?case using Cons.prems(1) v by (simp del: of_nat_add of_nat_mult)
qed simp

lemma decimal_is_digit: "\<forall>c \<in> set (decimal n). is_digit c"
  using decimal_digits [of n] digit_char_facts(1) by metis

lemma decimal_head: "0 < n \<Longrightarrow> hd (decimal n) \<noteq> CHR ''0''"
proof (induction n rule: decimal.induct)
  case (1 n)
  show ?case
  proof (cases "n < 10")
    case True
    have "of_char (digit_char n) \<noteq> (48 :: nat)" using True 1 by (simp add: of_char_digit)
    then have "digit_char n \<noteq> CHR ''0''" by auto
    with True show ?thesis by (simp add: decimal.simps [of n])
  next
    case False
    then have "hd (decimal (n div 10)) \<noteq> CHR ''0''" using 1 by simp
    with False show ?thesis by (simp add: decimal.simps [of n])
  qed
qed

lemma decimal_zero: "decimal 0 = ''0''"
  by (simp add: decimal.simps [of 0] digit_char_def) (simp add: char_of_def bit_0 bit_Suc)

lemma peek_simps [simp]: "peek [] = Inl Out_Of_Bounds" "peek (c # s) = Inr c"
  by (simp_all add: peek_def)

lemma peek_append [simp]: "s \<noteq> [] \<Longrightarrow> peek (s @ t) = Inr (hd s)"
  by (cases s) auto

definition ends_number :: "char \<Rightarrow> bool" where
  "ends_number c \<longleftrightarrow> \<not> is_digit c \<and> c \<notin> {CHR ''.'', CHR ''e'', CHR ''E''}"

lemma num_integer_decimal:
  assumes "\<not> is_digit c" "int n < 2 ^ 53 - 10"
  shows "num_integer (decimal n @ c # rest) = Inr (d_of_int (int n), c # rest)"
proof (cases "n = 0")
  case True
  then show ?thesis using assms(1) by (simp add: num_integer_def decimal_zero)
next
  case False
  have "num_digits (d_of_int (int 0)) (decimal n @ c # rest) =
      Inr (d_of_int (int (digits_value 0 (decimal n))), length (decimal n), c # rest)"
    using decimal_is_digit assms by (intro num_digits_exact) (simp_all add: digits_value_decimal)
  moreover have "is_digit (hd (decimal n))" using decimal_is_digit [of n] by simp
  ultimately show ?thesis
    using decimal_head [of n] False by (simp add: num_integer_def Let_def digits_value_decimal)
qed

lemma d_of_int_value: "in_int i \<Longrightarrow> f_to_int (d_of_int i) = Inr i"
proof -
  assume i: "in_int i"
  show ?thesis
  proof (cases "i = 0")
    case False
    then have "d_of_int i = Num (of_int i)" using i by (intro d_of_int_exact) (auto simp: in_int_def)
    moreover have "- \<lfloor>- (of_int i :: rat)\<rfloor> = i" by (metis add.inverse_inverse floor_of_int of_int_minus)
    ultimately show ?thesis using i by (simp add: f_to_int_def Let_def)
  qed (use i in \<open>simp add: f_to_int_def\<close>)
qed

lemma parse_printed_number:
  assumes "in_int i" "ends_number c" "pow10 E 0 = Num 1"
  shows "parse_number E (print_d i @ c # rest) =
    Inr (Some (CJSON cJSON_Number None i (d_of_int i) None []), c # rest)"
proof -
  define n where "n = nat \<bar>i\<bar>"
  have c: "\<not> is_digit c" "c \<noteq> CHR ''.''" "c \<noteq> CHR ''e''" "c \<noteq> CHR ''E''"
    using assms(2) by (simp_all add: ends_number_def)
  have d: "hd (decimal n) \<noteq> CHR ''-''" using decimal_is_digit [of n] by (metis decimal_nonempty digit_char_facts(6) decimal_digits hd_in_set)
  have one: "d_of_int 1 = Num 1" "d_of_int (- 1) = Num (- 1)" by (simp_all add: d_of_int_exact)
  have b: "\<bar>i\<bar> < 2 ^ 53" "\<bar>i\<bar> < 2 ^ 53 - 10" using assms(1) by (auto simp: in_int_def)
  have last: "d_mul (d_of_int i) (Num 1) = d_of_int i"
    using d_of_int_exact [OF b(1)] d_round_int [of i] by (cases "i = 0") auto
  show ?thesis
  proof (cases "i < 0")
    case True
    then have p: "print_d i = CHR ''-'' # decimal n" by (simp add: print_d_def n_def)
    have i: "num_integer (decimal n @ c # rest) = Inr (d_of_int (- i), c # rest)"
      using num_integer_decimal [OF c(1), of n rest] True b by (simp add: n_def)
    have s: "d_mul (Num (- 1)) (d_of_int (- i)) = d_of_int i"
      using d_of_int_mul(1) [of "- i" "- 1"] b True by (simp add: one)
    show ?thesis
      using c i s last assms(1,3)
      by (simp add: parse_number_def p num_fraction_def num_exponent_def d_of_int_value Let_def)
  next
    case False
    then have p: "print_d i = decimal n" and n: "int n = i" by (simp_all add: print_d_def n_def)
    have "num_integer (decimal n @ c # rest) = Inr (d_of_int i, c # rest)"
      using num_integer_decimal [OF c(1), of n rest] n assms(1) by (simp add: in_int_def)
    moreover have "d_mul (Num 1) (d_of_int i) = d_of_int i"
      using d_of_int_mul(1) [of i 1] b False by (simp add: one)
    ultimately show ?thesis
      using c d last assms(1,3)
      by (simp add: parse_number_def p num_fraction_def num_exponent_def d_of_int_value Let_def)
  qed
qed

section \<open>Strings\<close>

lemma quote_not_NUL: "QUOTE \<noteq> NUL" "BACKSLASH \<noteq> NUL" "NUL \<noteq> BACKSLASH" "NUL \<noteq> CHR ''u''"
  by (simp_all add: NUL_def)

lemma of_char_less: "(of_char c :: nat) < 256"
  using of_char_mod_256 [of c, where 'a = nat] mod_less_divisor [of 256 "of_char c"] by simp

lemma hex_char_facts:
  assumes "d < 16"
  shows "hex_value (hex_char d) = Some d" "hex_char d \<noteq> QUOTE" "hex_char d \<noteq> BACKSLASH" "hex_char d \<noteq> NUL"
    "\<not> is_space (hex_char d)" "tolower (hex_char d) \<noteq> CHR ''x''"
    "hex_char d \<noteq> CHR ''-''" "hex_char d \<noteq> CHR ''+''"
proof -
  note o = of_char_hex [OF assms]
  show "hex_value (hex_char d) = Some d" "\<not> is_space (hex_char d)"
    using o assms by (auto simp: hex_value_def is_space_def)
  have n: "hex_char d \<noteq> c" if "(of_char c :: nat) \<noteq> (if d < 10 then 48 + d else 87 + d)" for c using o that by auto
  show "hex_char d \<noteq> QUOTE" "hex_char d \<noteq> BACKSLASH" "hex_char d \<noteq> NUL"
    "hex_char d \<noteq> CHR ''-''" "hex_char d \<noteq> CHR ''+''"
    using assms by (intro n; auto simp: NUL_def)+
  show "tolower (hex_char d) \<noteq> CHR ''x''"
  proof -
    have "tolower (hex_char d) = hex_char d" using o assms by (simp add: tolower_def)
    moreover have "hex_char d \<noteq> CHR ''x''" using assms by (intro n) auto
    ultimately show ?thesis by simp
  qed
qed

text \<open>A control character as four digits is read back.\<close>

lemma sscanf_hex4:
  assumes "a < 16" "b < 16" "c < 16" "d < 16" "NUL \<in> set rest"
  shows "sscanf_4x (map hex_char [a, b, c, d] @ rest) =
    Inr (Some (word_of_nat (4096 * a + 256 * b + 16 * c + d)))"
proof -
  note h = hex_char_facts
  have "read_cstr (map hex_char [a, b, c, d] @ rest) = Inr (map hex_char [a, b, c, d] @ cstr rest)"
    using assms h(4) by (simp add: read_cstr_def cstr_def)
  moreover have "hex_digits 0 (map hex_char [a, b, c, d]) = 4096 * a + 256 * b + 16 * c + d"
    using assms h(1) by simp
  ultimately show ?thesis
    using assms h by (simp add: sscanf_4x_def Let_def)
qed

lemma utf8_ascii:
  assumes "n < 128"
  shows "utf8_chars (word_of_nat n) = [char_of n]" "utf8_len (word_of_nat n) = 1"
proof -
  have "unat (word_of_nat n :: u32) = n" by (rule word_of_nat_unat_small) (use assms in simp)
  then have l: "(word_of_nat n :: u32) < 0x80" using assms by (simp add: word_less_nat_alt)
  then show "utf8_len (word_of_nat n) = 1" by (simp add: utf8_len_def)
  have "(ucast (word_of_nat n :: u32) :: byte) = word_of_nat n"
    by (rule ucast_word_of_nat) (use assms in simp)
  moreover have "unat (word_of_nat n :: byte) = n" by (rule word_of_nat_unat_small) (use assms in simp)
  ultimately show "utf8_chars (word_of_nat n) = [char_of n]"
    using l by (simp add: utf8_chars_def utf8_len_def low_char_def firstByteMark_def)
qed

lemma unescape_control:
  assumes "0 < n" "n < 128" "n < 16 * 16" "NUL \<in> set rest"
  shows "unescape uc uc2 (CHR ''u'' # map hex_char [0, 0, n div 16, n mod 16] @ rest) =
    Inr ([char_of n], 4, word_of_nat n, uc2)"
proof -
  have v: "sscanf_4x (map hex_char [0, 0, n div 16, n mod 16] @ rest) = Inr (Some (word_of_nat n))"
    using sscanf_hex4 [of 0 0 "n div 16" "n mod 16" rest] assms by (simp add: less_mult_imp_div_less)
  have u: "unat (word_of_nat n :: u32) = n" by (rule word_of_nat_unat_small) (use assms in simp)
  then have "(word_of_nat n :: u32) \<noteq> 0" "(word_of_nat n :: u32) < 0xD800" "(word_of_nat n :: u32) < 0xDC00"
    using assms by (auto simp: word_less_nat_alt)
  then have "\<not> 0xDC00 \<le> (word_of_nat n :: u32)" "\<not> 0xD800 \<le> (word_of_nat n :: u32)"
    "(word_of_nat n :: u32) \<noteq> 0" by auto
  then show ?thesis
    using v utf8_ascii [OF assms(2)] by (simp add: unescape_def unescape_u_def Let_def)
qed

lemma char_of_of_nat: "(of_char c :: nat) = n \<Longrightarrow> c = char_of n"
  by auto

lemma char_of_zero_NUL: "char_of (0::nat) = NUL"
  by (simp add: NUL_def char_of_def)

lemma control_chars:
  "char_of (8::nat) = CHR 0x08" "char_of (12::nat) = CHR 0x0C" "char_of (10::nat) = CHR 0x0A"
  "char_of (13::nat) = CHR 0x0D" "char_of (9::nat) = CHR 0x09"
  by (simp_all add: char_of_def bit_0 bit_Suc)

lemma escape_cases:
  assumes "c \<noteq> NUL"
  obtains (plain) "escape_char c = [c]" "c \<noteq> QUOTE" "c \<noteq> BACKSLASH"
  | (short) x where "escape_char c = [BACKSLASH, x]"
      "\<And>uc uc2 r. unescape uc uc2 (x # r) = Inr ([c], 0, uc, uc2)"
  | (hex) n where "0 < n" "n < 32" "c = char_of n"
      "escape_char c = BACKSLASH # CHR ''u'' # map hex_char [0, 0, n div 16, n mod 16]"
proof -
  define n where "n = (of_char c :: nat)"
  have c: "c = char_of n" unfolding n_def by simp
  have u: "unescape uc uc2 (x # r) = Inr ([x], 0, uc, uc2)" if "x \<in> {QUOTE, BACKSLASH}" for uc uc2 x r
    using that by (auto simp: unescape_def)
  consider "31 < n \<and> c \<noteq> QUOTE \<and> c \<noteq> BACKSLASH" | "c = QUOTE \<or> c = BACKSLASH"
    | "n \<in> {8, 12, 10, 13, 9}" | "n \<le> 31" "n \<notin> {8, 12, 10, 13, 9}" by auto linarith
  then show thesis
  proof cases
    case 1
    then show thesis by (intro plain) (simp_all add: escape_char_def n_def [symmetric])
  next
    case 2
    then show thesis using u by (intro short [of c]) (auto simp: escape_char_def)
  next
    case 3
    have q: "c \<noteq> QUOTE" "c \<noteq> BACKSLASH" using 3 by (auto simp: n_def)
    from 3 consider "n = 8" | "n = 12" | "n = 10" | "n = 13" | "n = 9" by blast
    then obtain x where x: "escape_char c = [BACKSLASH, x]" "x \<in> set ''bfnrt''"
        "\<And>uc uc2 r. unescape uc uc2 (x # r) = Inr ([char_of n], 0, uc, uc2)"
    proof cases
      case 1
      with q that [of "CHR ''b''"] show ?thesis
        by (simp add: escape_char_def n_def [symmetric] unescape_def control_chars)
    next
      case 2
      with q that [of "CHR ''f''"] show ?thesis
        by (simp add: escape_char_def n_def [symmetric] unescape_def control_chars)
    next
      case 3
      with q that [of "CHR ''n''"] show ?thesis
        by (simp add: escape_char_def n_def [symmetric] unescape_def control_chars)
    next
      case 4
      with q that [of "CHR ''r''"] show ?thesis
        by (simp add: escape_char_def n_def [symmetric] unescape_def control_chars)
    next
      case 5
      with q that [of "CHR ''t''"] show ?thesis
        by (simp add: escape_char_def n_def [symmetric] unescape_def control_chars)
    qed
    show thesis by (rule short [OF x(1)]) (simp add: x(3) c [symmetric])
  next
    case 4
    have q: "c \<noteq> QUOTE" "c \<noteq> BACKSLASH" using 4 by (auto simp: n_def)
    have "n \<noteq> 0" using assms c by (metis char_of_zero_NUL)
    moreover have "escape_char c = BACKSLASH # CHR ''u'' # map hex_char [0, 0, n div 16, n mod 16]"
      using 4 q by (simp add: escape_char_def n_def [symmetric])
    ultimately show thesis using 4 c by (intro hex [of n]) simp_all
  qed
qed

definition escaped :: "string \<Rightarrow> string" where
  "escaped s = concat (map escape_char s)"

lemma escaped_simps [simp]: "escaped [] = []" "escaped (c # s) = escape_char c @ escaped s"
  by (simp_all add: escaped_def)

lemma escaped_room: "c_string s \<Longrightarrow> \<exists>m \<ge> length s. string_room (escaped s @ QUOTE # rest) = Inr m"
proof (induction s)
  case (Cons c s)
  then obtain m where m: "m \<ge> length s" "string_room (escaped s @ QUOTE # rest) = Inr m" by auto
  have c: "c \<noteq> NUL" using Cons.prems by simp
  note h = hex_char_facts(2-4)
  from c show ?case
  proof (cases c rule: escape_cases)
    case (hex n)
    have "n div 16 < 16" "n mod 16 < 16" using hex by auto
    with hex m show ?thesis by (simp add: h quote_not_NUL)
  qed (use m c quote_not_NUL in auto)
qed simp

lemma copy_escaped:
  assumes "c_string s" "length out + length s \<le> room" "NUL \<in> set rest"
  shows "copy_unescaped room uc uc2 out (escaped s @ QUOTE # rest) = Inr (out @ s, QUOTE # rest)"
  using assms(1,2)
proof (induction s arbitrary: out uc uc2)
  case (Cons c s)
  have c: "c \<noteq> NUL" "c_string s" using Cons.prems by simp_all
  have put: "put_chars room out [c] = Inr (out @ [c])" using Cons.prems by (simp add: put_chars_def)
  have IH: "copy_unescaped room uc uc2 (out @ [c]) (escaped s @ QUOTE # rest) =
      Inr (out @ c # s, QUOTE # rest)" for uc uc2
    using Cons.IH [of "out @ [c]"] Cons.prems by simp
  from c(1) show ?case
  proof (cases c rule: escape_cases)
    case plain
    then show ?thesis using c put IH by simp
  next
    case (short x)
    then show ?thesis using put IH by (simp add: NUL_def)
  next
    case (hex n)
    have u: "unescape uc uc2 (CHR ''u'' # map hex_char [0, 0, n div 16, n mod 16] @ escaped s @ QUOTE # rest) =
        Inr ([c], 4, word_of_nat n, uc2)"
      unfolding hex(3) using hex(1,2) assms(3) by (intro unescape_control) simp_all
    show ?thesis using put IH u by (simp add: hex(4) NUL_def)
  qed
qed simp

lemma escaped_hd: "c_string s \<Longrightarrow> NUL \<notin> set (escaped s)"
proof (induction s)
  case (Cons c s)
  then have c: "c \<noteq> NUL" "NUL \<notin> set (escaped s)" by simp_all
  from c(1) show ?case
  proof (cases c rule: escape_cases)
    case (hex n)
    have "n div 16 < 16" "n mod 16 < 16" using hex by auto
    then show ?thesis using c(2) hex_char_facts(4) [THEN not_sym] by (simp add: hex(4) quote_not_NUL)
  next
    case (short x)
    have "x \<noteq> NUL" using short(2) [of 0 0 "[]"] c(1) by (auto simp: unescape_def NUL_def split: if_splits)
    then show ?thesis using c(2) short by (auto simp: NUL_def)
  qed (use c in auto)
qed simp

lemma parse_printed_string:
  assumes "c_string s" "NUL \<in> set rest"
  shows "parse_string E (QUOTE # escaped s @ QUOTE # rest) =
    Inr (Some (cJSON_CreateString s), rest)"
proof -
  obtain m where m: "m \<ge> length s" "string_room (escaped s @ QUOTE # rest) = Inr m"
    using escaped_room [OF assms(1)] by blast
  have "copy_unescaped (m + 1) uc uc2 [] (escaped s @ QUOTE # rest) = Inr ([] @ s, QUOTE # rest)" for uc uc2
    by (rule copy_escaped) (use assms m in simp_all)
  then show ?thesis
    using m assms(1) by (simp add: parse_string_def put_chars_def cJSON_CreateString_def)
qed

text \<open>The memory the printer takes for a string is enough.\<close>

lemma escape_char_room: "length (escape_char c) = escape_room c"
proof -
  define n where "n = (of_char c :: nat)"
  have "31 < n" if "c = QUOTE \<or> c = BACKSLASH" using that by (auto simp: n_def)
  then show ?thesis unfolding escape_char_def escape_room_def Let_def n_def [symmetric] by auto
qed

lemma print_string_ptr_ok: "print_string_ptr (Some s) = Inr (QUOTE # escaped s @ [QUOTE])"
proof -
  have "length (escaped s) = sum_list (map escape_room s)"
    by (simp add: escaped_def length_concat comp_def escape_char_room)
  then show ?thesis by (simp add: print_string_ptr_def heap_string_def escaped_def)
qed

section \<open>JSON values\<close>

text \<open>
  The reference: the values of JSON, with the tree each stands for and its text, as \<open>cJSON_Print\<close> (\<open>fmt\<close>)
  or \<open>cJSON_PrintUnformatted\<close> lays it out.
\<close>

datatype json =
    JNull
  | JBool bool
  | JInt int
  | JStr string
  | JArr "json list"
  | JObj "(string \<times> json) list"

fun json_tree :: "json \<Rightarrow> cjson" where
  "json_tree JNull = cJSON_CreateNull"
| "json_tree (JBool b) = (if b then CJSON cJSON_True None 1 (Zero False) None [] else cJSON_CreateFalse)"
| "json_tree (JInt i) = CJSON cJSON_Number None i (d_of_int i) None []"
| "json_tree (JStr s) = cJSON_CreateString s"
| "json_tree (JArr vs) = CJSON cJSON_Array None 0 (Zero False) None (map json_tree vs)"
| "json_tree (JObj kvs) =
     CJSON cJSON_Object None 0 (Zero False) None (map (\<lambda>(k, v). set_item_string (Some k) (json_tree v)) kvs)"

text \<open>Integers in range, strings without a terminator inside.\<close>

fun json_ok :: "json \<Rightarrow> bool" where
  "json_ok (JInt i) = in_int i"
| "json_ok (JStr s) = c_string s"
| "json_ok (JArr vs) = (\<forall>v \<in> set vs. json_ok v)"
| "json_ok (JObj kvs) = (\<forall>(k, v) \<in> set kvs. c_string k \<and> json_ok v)"
| "json_ok _ = True"

definition quoted :: "string \<Rightarrow> string" where
  "quoted s = QUOTE # escaped s @ [QUOTE]"

fun json_text :: "bool \<Rightarrow> nat \<Rightarrow> json \<Rightarrow> string" where
  "json_text fmt depth JNull = ''null''"
| "json_text fmt depth (JBool b) = (if b then ''true'' else ''false'')"
| "json_text fmt depth (JInt i) = print_d i"
| "json_text fmt depth (JStr s) = quoted s"
| "json_text fmt depth (JArr vs) = ''['' @ join_array fmt (map (json_text fmt (Suc depth)) vs) @ '']''"
| "json_text fmt depth (JObj kvs) =
     ''{'' @ (if fmt then [CHR 0x0A] else []) @
     join_object fmt (Suc depth) (map (\<lambda>(k, v). (quoted k, json_text fmt (Suc depth) v)) kvs) @
     (if fmt then replicate depth (CHR 0x09) else []) @ ''}''"

section \<open>Printing\<close>

lemma print_d_fits:
  assumes "in_int i"
  shows "length (print_d i) < 21"
proof -
  have "nat \<bar>i\<bar> < 10 ^ 10" using assms by (auto simp: in_int_def)
  then have "length (decimal (nat \<bar>i\<bar>)) \<le> 10" by (rule decimal_length) simp
  then show ?thesis by (auto simp: print_d_def)
qed

lemma d_of_int_finite: "\<bar>n\<bar> < 2 ^ 53 \<Longrightarrow> f_finite (d_of_int n) \<and> f_val (d_of_int n) = of_int n"
  using d_of_int_exact [of n] by (cases "n = 0") auto

lemma d_le_int:
  assumes "\<bar>a\<bar> < 2 ^ 53" "\<bar>b\<bar> < 2 ^ 53"
  shows "d_le (d_of_int a) (d_of_int b) \<longleftrightarrow> a \<le> b"
proof -
  have "d_of_int n \<noteq> Nan" if "\<bar>n\<bar> < 2 ^ 53" for n using d_of_int_finite [OF that] by auto
  then show ?thesis
    using assms d_of_int_finite [OF assms(1)] d_of_int_finite [OF assms(2)] by (auto simp: d_le_def f_less_val)
qed

lemma print_number_int:
  assumes "in_int i"
  shows "print_number (CJSON t v i (d_of_int i) nm cs) = Inr (print_d i)"
proof -
  have i: "\<bar>i\<bar> < 2 ^ 53" "i \<le> 2 ^ 31 - 1" "- (2 ^ 31) \<le> i" using assms by (auto simp: in_int_def)
  have z: "d_sub (d_of_int i) (d_of_int i) \<in> {Zero False, Zero True}"
    using d_of_int_exact [OF i(1)] by (cases "i = 0") (auto simp: d_sub_def fp_round_def)
  then have "d_fabs (d_sub (d_of_int i) (d_of_int i)) = Zero False" by auto
  then have "d_le (d_fabs (d_sub (d_of_int i) (d_of_int i))) DBL_EPSILON"
    by (simp add: d_le_def DBL_EPSILON_def)
  moreover have "d_le (d_of_int i) (d_of_int (2 ^ 31 - 1))" "d_le (d_of_int (- (2 ^ 31))) (d_of_int i)"
    using i by (subst d_le_int; simp)+
  ultimately show ?thesis using print_d_fits [OF assms] by (simp add: print_number_def heap_string_def)
qed

lemma join_array_length:
  "length (join_array fmt es) \<le> sum_list (map (\<lambda>e. length e + 2 + (if fmt then 1 else 0)) es)"
  by (induction fmt es rule: join_array.induct) auto

lemma print_array_ok: "print_array fmt (map Some es) = Inr (Some (''['' @ join_array fmt es @ '']''))"
proof -
  have "None \<notin> set (map Some es)" by auto
  moreover have "length (''['' @ join_array fmt es @ '']'') <
      5 + sum_list (map (\<lambda>e. length e + 2 + (if fmt then 1 else 0)) es)"
    using join_array_length [of fmt es] by simp
  ultimately show ?thesis by (simp add: print_array_def heap_string_def comp_def)
qed

lemma join_object_length:
  "length (join_object fmt depth es) \<le>
     sum_list (map (\<lambda>(k, e). length e + length k + 2 + (if fmt then 2 + depth else 0)) es)"
  by (induction fmt depth es rule: join_object.induct) auto

lemma print_object_ok:
  assumes "length ks = length es"
  shows "print_object fmt (Suc depth) ks (map Some es) =
    Inr (Some (''{'' @ (if fmt then [CHR 0x0A] else []) @ join_object fmt (Suc depth) (zip ks es) @
      (if fmt then replicate depth (CHR 0x09) else []) @ ''}''))"
proof -
  have "None \<notin> set (map Some es)" by auto
  then show ?thesis
    using join_object_length [of fmt "Suc depth" "zip ks es"]
    by (simp add: print_object_def heap_string_def comp_def Let_def) auto
qed

lemma print_set_item_string: "print_value fmt depth (set_item_string k c) = print_value fmt depth c"
  by (cases c) (simp add: print_number_def print_string_def Let_def)

lemma item_string_set [simp]: "item_string (set_item_string k c) = k"
  by (cases c) simp

lemma print_names_ok: "print_names (map (\<lambda>(k, v). set_item_string (Some k) (f v)) kvs) = Inr (map (quoted \<circ> fst) kvs)"
  by (induction kvs) (auto simp: print_string_ptr_ok quoted_def)

lemma print_children_ok:
  "\<forall>c \<in> set cs. print_value fmt depth c = Inr (Some (g c)) \<Longrightarrow>
     print_children stop fmt depth cs = Inr (map (Some \<circ> g) cs)"
  by (induction cs) auto

lemma print_tree: "json_ok v \<Longrightarrow> print_value fmt depth (json_tree v) = Inr (Some (json_text fmt depth v))"
proof (induction v arbitrary: depth)
  case (JArr vs)
  have "print_children True fmt (Suc depth) (map json_tree vs) = Inr (map Some (map (json_text fmt (Suc depth)) vs))"
    using JArr by (induction vs) auto
  then show ?case by (simp add: json_types print_array_ok del: map_map)
next
  case (JObj kvs)
  have "\<forall>p \<in> set kvs. print_value fmt (Suc depth) (json_tree (snd p)) = Inr (Some (json_text fmt (Suc depth) (snd p)))"
    using JObj by fastforce
  then have "print_children False fmt (Suc depth) (map (\<lambda>(k, v). set_item_string (Some k) (json_tree v)) kvs) =
      Inr (map Some (map (\<lambda>(k, v). json_text fmt (Suc depth) v) kvs))"
    by (induction kvs) (auto simp: print_set_item_string)
  moreover have "zip (map (quoted \<circ> fst) kvs) (map (\<lambda>(k, v). json_text fmt (Suc depth) v) kvs) =
      map (\<lambda>(k, v). (quoted k, json_text fmt (Suc depth) v)) kvs"
    by (induction kvs) auto
  ultimately show ?case by (simp add: json_types print_names_ok print_object_ok del: map_map)
qed (auto simp: json_types cJSON_CreateNull_def cJSON_CreateFalse_def cJSON_CreateString_def Let_def
  print_string_def print_string_ptr_ok quoted_def print_number_int)

section \<open>Parsing what was printed\<close>

text \<open>The characters that may follow the text of a value.\<close>

fun follows :: "json \<Rightarrow> char \<Rightarrow> bool" where
  "follows JNull c = (c \<noteq> NUL)"
| "follows (JBool b) c = (c \<noteq> NUL)"
| "follows (JInt i) c = ends_number c"
| "follows _ c = True"

definition closes :: "char \<Rightarrow> bool" where
  "closes c \<longleftrightarrow> c \<in> {CHR '','', CHR '']'', CHR ''}'', CHR 0x0A}"

lemma closes_follows: "closes c \<Longrightarrow> follows v c"
  by (cases v) (auto simp: closes_def ends_number_def is_digit_def NUL_def)

lemma skip_simps [simp]: "\<not> is_space c \<Longrightarrow> skip (c # s) = Inr (c # s)" "is_space c \<Longrightarrow> skip (c # s) = skip s"
  by (simp_all add: skip_def)

lemma is_space_punctuation [simp]:
  "is_space (CHR '' '')" "is_space (CHR 0x09)" "is_space (CHR 0x0A)" "\<not> is_space (CHR '','')"
  "\<not> is_space (CHR '']'')" "\<not> is_space (CHR ''}'')" "\<not> is_space (CHR '':'')" "\<not> is_space QUOTE"
  by (simp_all add: is_space_def)

lemma skip_tabs [simp]: "skip (replicate n (CHR 0x09) @ s) = skip s"
  by (induction n) simp_all

lemma skip_text: "s \<noteq> [] \<Longrightarrow> \<not> is_space (hd s) \<Longrightarrow> skip (s @ t) = Inr (s @ t)"
  by (cases s) simp_all

lemma digit_not_literal: "is_digit c \<Longrightarrow> c \<notin> {CHR ''n'', CHR ''f'', CHR ''t'', QUOTE, CHR ''['', CHR ''{'', CHR '']'', CHR ''}''} \<and> \<not> is_space c"
  by (auto simp: is_digit_def is_space_def)

lemma print_d_start: "print_d i = c # s \<Longrightarrow> c = CHR ''-'' \<or> is_digit c"
  using decimal_is_digit [of "nat i"] by (auto simp: print_d_def split: if_splits)

lemma json_text_start:
  "json_text fmt depth v \<noteq> [] \<and> \<not> is_space (hd (json_text fmt depth v)) \<and>
   hd (json_text fmt depth v) \<noteq> CHR '']'' \<and> hd (json_text fmt depth v) \<noteq> CHR ''}''"
proof (cases v)
  case (JInt i)
  obtain c s where "print_d i = c # s" by (cases "print_d i") (auto simp: print_d_def split: if_splits)
  with print_d_start [OF this] digit_not_literal [of c] JInt show ?thesis by (auto simp: is_space_def)
qed (auto simp: quoted_def is_space_def)

lemma stream_cmp_other: "c \<noteq> d \<Longrightarrow> d \<noteq> NUL \<Longrightarrow> stream_cmp (c # s) (d # str) = Inr (False, c # s)"
  by simp

lemma parse_value_other:
  assumes "c \<notin> {CHR ''n'', CHR ''f'', CHR ''t''}"
  shows "parse_value E (Suc n) (c # s) =
    (if c = QUOTE then parse_string E (c # s)
     else if c = CHR ''-'' \<or> is_digit c then parse_number E (c # s)
     else if c = CHR ''['' then parse_array (parse_value E n) n (c # s)
     else if c = CHR ''{'' then parse_object E (parse_value E n) n (c # s)
     else Inr (None, c # s))"
  using assms by (simp add: NUL_def)

text \<open>The loops, with any parser \<open>pv\<close> that is right for the values at hand.\<close>

definition reads :: "(char list \<Rightarrow> (cjson option \<times> char list) result) \<Rightarrow> string \<Rightarrow> cjson \<Rightarrow> bool" where
  "reads pv t i \<longleftrightarrow> t \<noteq> [] \<and> \<not> is_space (hd t) \<and> hd t \<noteq> CHR '']'' \<and>
     (\<forall>c r. closes c \<longrightarrow> NUL \<in> set r \<longrightarrow> pv (t @ c # r) = Inr (Some i, c # r))"

lemma readsD:
  assumes "reads pv t i"
  shows "t \<noteq> []" "\<not> is_space (hd t)" "hd t \<noteq> CHR '']''"
    "closes c \<Longrightarrow> NUL \<in> set r \<Longrightarrow> pv (t @ c # r) = Inr (Some i, c # r)"
    "skip (t @ s) = Inr (t @ s)" "hd (t @ s) = hd t"
  using assms unfolding reads_def by (auto intro: skip_text)

lemma closes_simps [simp]: "closes (CHR '','')" "closes (CHR '']'')" "closes (CHR ''}'')" "closes (CHR 0x0A)"
  by (simp_all add: closes_def)

definition array_tail :: "bool \<Rightarrow> string list \<Rightarrow> string" where
  "array_tail fmt ts = concat (map (\<lambda>t. '','' @ (if fmt then '' '' else []) @ t) ts)"

lemma array_tail_simps [simp]:
  "array_tail fmt [] = []"
  "array_tail fmt (t # ts) = CHR '','' # (if fmt then '' '' else []) @ t @ array_tail fmt ts"
  by (simp_all add: array_tail_def)

lemma join_array_tail: "join_array fmt (t # ts) = t @ array_tail fmt ts"
  by (induction ts arbitrary: t) simp_all

lemma array_tail_close:
  obtains c r where "array_tail fmt ts @ CHR '']'' # rest = c # r" "c = CHR '','' \<or> c = CHR '']''"
    "NUL \<in> set rest \<Longrightarrow> NUL \<in> set r"
  by (cases ts) (auto intro!: that)

lemma parse_elements_tail:
  assumes "list_all2 (reads pv) ts is" "length ts < n" "NUL \<in> set rest"
  shows "parse_elements pv n cs (array_tail fmt ts @ CHR '']'' # rest) =
    Inr (Some (CJSON cJSON_Array None 0 (Zero False) None (cs @ is)), rest)"
  using assms(1,2)
proof (induction ts "is" arbitrary: n cs rule: list_all2_induct)
  case Nil
  then show ?case by (cases n) simp_all
next
  case (Cons t ts i is')
  then obtain m where n: "n = Suc m" "length ts < m" by (cases n) simp_all
  obtain c r where cr: "array_tail fmt ts @ CHR '']'' # rest = c # r" "c = CHR '','' \<or> c = CHR '']''"
      "NUL \<in> set r"
    using array_tail_close [of fmt ts rest] assms(3) by metis
  have c: "closes c" "\<not> is_space c" using cr(2) by auto
  note t = readsD [OF Cons(1)]
  have s: "skip ((if fmt then '' '' else []) @ t @ c # r) = Inr (t @ c # r)" by (simp add: t)
  have "parse_elements pv m (cs @ [i]) (c # r) =
      Inr (Some (CJSON cJSON_Array None 0 (Zero False) None (cs @ i # is')), rest)"
    using Cons(3) [OF n(2), of "cs @ [i]"] by (simp add: cr(1))
  then show ?case
    using s t(3) t(4) [OF c(1) cr(3)] c by (simp add: n(1) cr(1) t(6) skip_after_def)
qed


lemma parse_array_text:
  assumes "list_all2 (reads pv) ts is" "length ts < n" "NUL \<in> set rest"
  shows "parse_array pv n (CHR ''['' # join_array fmt ts @ CHR '']'' # rest) =
    Inr (Some (CJSON cJSON_Array None 0 (Zero False) None is), rest)"
proof (cases ts)
  case Nil
  then show ?thesis using assms(1) by (simp add: parse_array_def)
next
  case (Cons t ts')
  then obtain i is' where i: "is = i # is'" "reads pv t i" "list_all2 (reads pv) ts' is'"
    using assms(1) by (auto simp: list_all2_Cons1)
  obtain c r where cr: "array_tail fmt ts' @ CHR '']'' # rest = c # r" "c = CHR '','' \<or> c = CHR '']''"
      "NUL \<in> set r"
    using array_tail_close [of fmt ts' rest] assms(3) by metis
  have c: "closes c" "\<not> is_space c" using cr(2) by auto
  note t = readsD [OF i(2)]
  have "parse_elements pv n [i] (c # r) = Inr (Some (CJSON cJSON_Array None 0 (Zero False) None is), rest)"
    using parse_elements_tail [OF i(3) _ assms(3), where n = n and fmt = fmt and cs = "[i]"] assms(2) by (simp add: cr(1) i(1) Cons)
  then show ?thesis
    using t(3) t(4) [OF c(1) cr(3)] c
    by (simp add: Cons join_array_tail [unfolded append_eq_appendI] cr(1) parse_array_def t(5,6) skip_after_def)
qed

definition member_text :: "bool \<Rightarrow> string \<times> string \<Rightarrow> string" where
  "member_text fmt p = quoted (fst p) @ CHR '':'' # (if fmt then [CHR 0x09] else []) @ snd p"

text \<open>A new line with its indentation.\<close>

definition lead :: "bool \<Rightarrow> nat \<Rightarrow> string" where
  "lead fmt n = (if fmt then CHR 0x0A # replicate n (CHR 0x09) else [])"

lemma skip_lead [simp]: "skip (lead fmt n @ s) = skip s"
  by (simp add: lead_def)

fun object_tail :: "bool \<Rightarrow> nat \<Rightarrow> (string \<times> string) list \<Rightarrow> string" where
  "object_tail fmt depth [] = lead fmt depth @ ''}''"
| "object_tail fmt depth (p # ps) =
     CHR '','' # lead fmt (Suc depth) @ member_text fmt p @ object_tail fmt depth ps"

definition object_body :: "bool \<Rightarrow> nat \<Rightarrow> (string \<times> string) list \<Rightarrow> string" where
  "object_body fmt depth ps =
     (if fmt then [CHR 0x0A] else []) @ join_object fmt (Suc depth) (map (\<lambda>(k, t). (quoted k, t)) ps) @
     (if fmt then replicate depth (CHR 0x09) else []) @ ''}''"

lemma object_body_simps:
  "object_body fmt depth [] = lead fmt depth @ ''}''"
  "object_body fmt depth (p # ps) = lead fmt (Suc depth) @ member_text fmt p @ object_tail fmt depth ps"
proof -
  show "object_body fmt depth [] = lead fmt depth @ ''}''" by (simp add: object_body_def lead_def)
  show "object_body fmt depth (p # ps) = lead fmt (Suc depth) @ member_text fmt p @ object_tail fmt depth ps"
  proof (induction ps arbitrary: p)
    case Nil
    show ?case by (cases p; cases fmt) (simp_all add: object_body_def lead_def member_text_def)
  next
    case (Cons q ps)
    show ?case using Cons [of q]
      by (cases p; cases fmt) (simp_all add: object_body_def lead_def member_text_def)
  qed
qed

lemma object_tail_close:
  assumes "NUL \<in> set rest"
  obtains c r where "object_tail fmt depth ps @ rest = c # r" "closes c" "NUL \<in> set r"
proof (cases ps)
  case Nil
  then show thesis using assms that by (cases fmt) (auto simp: lead_def)
next
  case (Cons p ps')
  then show thesis using assms that [of "CHR '',''"] by simp
qed

lemma parse_member_text:
  assumes "c_string (fst p)" "reads pv (snd p) i" "NUL \<in> set r" "closes c"
  shows "parse_member E pv (member_text fmt p @ c # r) =
    bind_res (skip (c # r)) (\<lambda>s. Inr (Some (set_item_string (Some (fst p)) i), s))"
proof -
  note t = readsD [OF assms(2)]
  have s: "skip ((if fmt then [CHR 0x09] else []) @ snd p @ c # r) = Inr (snd p @ c # r)" by (simp add: t)
  have "parse_string E (QUOTE # escaped (fst p) @ QUOTE # CHR '':'' # x @ snd p @ c # r) =
      Inr (Some (cJSON_CreateString (fst p)), CHR '':'' # x @ snd p @ c # r)" for x
    by (rule parse_printed_string) (use assms in simp_all)
  then show ?thesis
    using s t(4) [OF assms(4,3)]
    by (cases "skip (c # r)")
      (simp_all add: parse_member_def member_text_def quoted_def skip_after_def cJSON_CreateString_def)
qed

lemma parse_members_tail:
  assumes "list_all2 (\<lambda>p i. c_string (fst p) \<and> reads pv (snd p) i) ps is" "length ps < n" "NUL \<in> set rest"
  shows "bind_res (skip (object_tail fmt depth ps @ rest)) (parse_members E pv n cs) =
    Inr (Some (CJSON cJSON_Object None 0 (Zero False) None
      (cs @ map2 (\<lambda>p i. set_item_string (Some (fst p)) i) ps is)), rest)"
  using assms(1,2)
proof (induction ps "is" arbitrary: n cs rule: list_all2_induct)
  case Nil
  then show ?case by (cases n) simp_all
next
  case (Cons p ps i is')
  then obtain m where n: "n = Suc m" "length ps < m" by (cases n) simp_all
  obtain c r where cr: "object_tail fmt depth ps @ rest = c # r" "closes c" "NUL \<in> set r"
    using object_tail_close [OF assms(3)] .
  have m: "parse_member E pv (member_text fmt p @ c # r) =
      bind_res (skip (c # r)) (\<lambda>s. Inr (Some (set_item_string (Some (fst p)) i), s))"
    using Cons(1) cr by (intro parse_member_text) simp_all
  have k: "skip (member_text fmt p @ s) = Inr (member_text fmt p @ s)" "hd (member_text fmt p @ s) \<noteq> CHR ''}''" for s
    by (simp_all add: member_text_def quoted_def)
  show ?case
    using Cons(3) [OF n(2), of "cs @ [set_item_string (Some (fst p)) i]"] m k
    by (cases "skip (c # r)") (simp_all add: n(1) cr(1))
qed

lemma parse_object_text:
  assumes "list_all2 (\<lambda>p i. c_string (fst p) \<and> reads pv (snd p) i) ps is" "length ps < n" "NUL \<in> set rest"
  shows "parse_object E pv n (CHR ''{'' # object_body fmt depth ps @ rest) =
    Inr (Some (CJSON cJSON_Object None 0 (Zero False) None
      (map2 (\<lambda>p i. set_item_string (Some (fst p)) i) ps is)), rest)"
proof (cases ps)
  case Nil
  then show ?thesis using assms(1) by (simp add: parse_object_def object_body_simps)
next
  case (Cons p ps')
  then obtain i is' where i: "is = i # is'" "c_string (fst p)" "reads pv (snd p) i"
      "list_all2 (\<lambda>p i. c_string (fst p) \<and> reads pv (snd p) i) ps' is'"
    using assms(1) by (auto simp: list_all2_Cons1)
  obtain c r where cr: "object_tail fmt depth ps' @ rest = c # r" "closes c" "NUL \<in> set r"
    using object_tail_close [OF assms(3)] .
  have m: "parse_member E pv (member_text fmt p @ c # r) =
      bind_res (skip (c # r)) (\<lambda>s. Inr (Some (set_item_string (Some (fst p)) i), s))"
    using i cr by (intro parse_member_text) simp_all
  have k: "skip (member_text fmt p @ s) = Inr (member_text fmt p @ s)" "hd (member_text fmt p @ s) \<noteq> CHR ''}''" for s
    by (simp_all add: member_text_def quoted_def)
  have "length ps' < n" using assms(2) Cons by simp
  from parse_members_tail [OF i(4) this assms(3), where fmt = fmt and depth = depth and E = E and
      cs = "[set_item_string (Some (fst p)) i]"]
  show ?thesis
    using m k by (cases "skip (c # r)") (simp_all add: parse_object_def object_body_simps cr(1) Cons i(1))
qed

lemma array_tail_length:
  "\<forall>t \<in> set ts. t \<noteq> [] \<Longrightarrow> length (array_tail fmt ts) \<ge> length ts + (\<Sum>t\<leftarrow>ts. length t)"
  by (induction ts) auto

lemma join_array_bounds:
  assumes "\<forall>t \<in> set ts. t \<noteq> []"
  shows "length ts \<le> Suc (length (join_array fmt ts))" "t \<in> set ts \<Longrightarrow> length t \<le> length (join_array fmt ts)"
proof -
  have "length ts \<le> Suc (length (join_array fmt ts)) \<and> (t \<in> set ts \<longrightarrow> length t \<le> length (join_array fmt ts))"
    using assms by (induction fmt ts rule: join_array.induct) auto
  then show "length ts \<le> Suc (length (join_array fmt ts))" "t \<in> set ts \<Longrightarrow> length t \<le> length (join_array fmt ts)"
    by auto
qed

lemma object_body_bounds:
  "length ps \<le> length (object_body fmt depth ps)"
  "p \<in> set ps \<Longrightarrow> length (snd p) \<le> length (object_body fmt depth ps)"
proof -
  have t: "length qs \<le> length (object_tail fmt depth qs) \<and>
      (\<forall>q \<in> set qs. length (snd q) \<le> length (object_tail fmt depth qs))" for qs
    by (induction qs) (auto simp: member_text_def)
  show "length ps \<le> length (object_body fmt depth ps)"
    using t [of "tl ps"] by (cases ps) (auto simp: object_body_simps member_text_def quoted_def)
  show "p \<in> set ps \<Longrightarrow> length (snd p) \<le> length (object_body fmt depth ps)"
    using t [of "tl ps"] by (cases ps) (force simp: object_body_simps member_text_def quoted_def)+
qed

lemma json_text_object:
  "json_text fmt depth (JObj kvs) =
     CHR ''{'' # object_body fmt depth (map (\<lambda>(k, v). (k, json_text fmt (Suc depth) v)) kvs)"
  by (simp add: object_body_def comp_def case_prod_unfold)

lemma parse_value_number:
  assumes "in_int i" "ends_number c" "pow10 E 0 = Num 1"
  shows "parse_value E (Suc n) (print_d i @ c # rest) = Inr (Some (json_tree (JInt i)), c # rest)"
proof -
  obtain d s where ds: "print_d i = d # s" by (cases "print_d i") (auto simp: print_d_def split: if_splits)
  have d: "d = CHR ''-'' \<or> is_digit d" using print_d_start [OF ds] .
  then have "d \<notin> {CHR ''n'', CHR ''f'', CHR ''t''}" "d \<noteq> QUOTE" using digit_not_literal [of d] by auto
  then have "parse_value E (Suc n) (d # s @ c # rest) = parse_number E (d # s @ c # rest)"
    using parse_value_other [of d E n "s @ c # rest"] d by auto
  then show ?thesis using parse_printed_number [OF assms, of rest] by (simp add: ds del: parse_value.simps)
qed

lemma parse_tree:
  assumes "pow10 E 0 = Num 1" "json_ok v" "follows v c" "NUL \<in> set (c # rest)"
    "length (json_text fmt depth v) < n"
  shows "parse_value E n (json_text fmt depth v @ c # rest) = Inr (Some (json_tree v), c # rest)"
  using assms(2-)
proof (induction v arbitrary: depth c rest n)
  case JNull
  then obtain m where "n = Suc m" by (cases n) auto
  with JNull show ?case by (simp add: NUL_def cJSON_CreateNull_def)
next
  case (JBool b)
  then obtain m where "n = Suc m" by (cases n) auto
  with JBool show ?case by (cases b) (simp_all add: NUL_def cJSON_CreateFalse_def)
next
  case (JInt i)
  then obtain m where "n = Suc m" by (cases n) auto
  then show ?case using parse_value_number [of i c E m rest] JInt assms(1) by (simp del: parse_value.simps)
next
  case (JStr s)
  then obtain m where "n = Suc m" by (cases n) auto
  then show ?case
    using parse_printed_string [of s "c # rest" E] JStr
    by (simp add: parse_value_other quoted_def del: parse_value.simps)
next
  case (JArr vs)
  define ts where "ts = map (json_text fmt (Suc depth)) vs"
  have ne: "\<forall>t \<in> set ts. t \<noteq> []" using json_text_start by (auto simp: ts_def)
  obtain m where n: "n = Suc m" "Suc (length (join_array fmt ts)) < m"
    using JArr.prems(4) by (cases n) (auto simp: ts_def)
  have "reads (parse_value E m) (json_text fmt (Suc depth) v) (json_tree v)" if v: "v \<in> set vs" for v
  proof -
    have "length (json_text fmt (Suc depth) v) < m" using join_array_bounds(2) [OF ne, of _ fmt] v n by (force simp: ts_def)
    then show ?thesis
      using JArr.IH [OF v, where depth = "Suc depth"] JArr.prems(1) v json_text_start [of fmt "Suc depth" v]
      by (auto simp: reads_def closes_follows)
  qed
  then have "list_all2 (reads (parse_value E m)) ts (map json_tree vs)"
    by (simp add: ts_def list_all2_map1 list_all2_map2 list_all2_same)
  moreover have "length ts < m" using join_array_bounds(1) [OF ne, of fmt] n by simp
  ultimately have "parse_array (parse_value E m) m (CHR ''['' # join_array fmt ts @ CHR '']'' # c # rest) =
      Inr (Some (CJSON cJSON_Array None 0 (Zero False) None (map json_tree vs)), c # rest)"
    using JArr.prems(3) by (rule parse_array_text)
  then show ?case by (simp add: n(1) parse_value_other ts_def is_digit_def del: parse_value.simps)
next
  case (JObj kvs)
  define ps where "ps = map (\<lambda>(k, v). (k, json_text fmt (Suc depth) v)) kvs"
  obtain m where n: "n = Suc m" "length (object_body fmt depth ps) < m"
    using JObj.prems(4) unfolding json_text_object ps_def by (cases n) auto
  have r: "c_string k \<and> reads (parse_value E m) (json_text fmt (Suc depth) v) (json_tree v)"
    if kv: "(k, v) \<in> set kvs" for k v
  proof -
    have "(k, json_text fmt (Suc depth) v) \<in> set ps" using kv by (force simp: ps_def)
    from object_body_bounds(2) [OF this, of fmt depth]
    have "length (json_text fmt (Suc depth) v) < m" using n by simp
    then show ?thesis
      using JObj.IH [OF kv, of v, where depth = "Suc depth"] JObj.prems(1) kv json_text_start [of fmt "Suc depth" v]
      by (auto simp: reads_def closes_follows)
  qed
  then have "list_all2 (\<lambda>p i. c_string (fst p) \<and> reads (parse_value E m) (snd p) i) ps
      (map (\<lambda>(k, v). json_tree v) kvs)"
    by (auto simp: ps_def list_all2_map1 list_all2_map2 list_all2_same)
  moreover have "length ps < m" using object_body_bounds(1) [of ps fmt depth] n by simp
  ultimately have "parse_object E (parse_value E m) m (CHR ''{'' # object_body fmt depth ps @ c # rest) =
      Inr (Some (CJSON cJSON_Object None 0 (Zero False) None
        (map2 (\<lambda>p i. set_item_string (Some (fst p)) i) ps (map (\<lambda>(k, v). json_tree v) kvs))), c # rest)"
    using JObj.prems(3) by (rule parse_object_text)
  moreover have "map2 (\<lambda>p i. set_item_string (Some (fst p)) i) ps (map (\<lambda>(k, v). json_tree v) kvs) =
      map (\<lambda>(k, v). set_item_string (Some k) (json_tree v)) kvs"
    unfolding ps_def by (induction kvs) auto
  ultimately show ?case
    by (simp add: n(1) parse_value_other ps_def json_text_object is_digit_def del: parse_value.simps json_text.simps)
qed

section \<open>The parser ends\<close>

text \<open>
  No parser gives back a longer text than it got, and with fuel for the length of the text none runs out
  of it; more fuel changes nothing.
\<close>

definition shrinks :: "char list \<Rightarrow> (cjson option \<times> char list) result \<Rightarrow> bool" where
  "shrinks s m \<longleftrightarrow> m \<noteq> Inl Diverges \<and> (\<forall>x r. m = Inr (x, r) \<longrightarrow> length r \<le> length s)"

lemma skip_Inr: "skip s = Inr r \<Longrightarrow> r \<noteq> [] \<and> length r \<le> length s"
proof -
  assume "skip s = Inr r"
  then have "r = dropWhile is_space s" "r \<noteq> []" by (auto simp: skip_def split: list.splits)
  then show ?thesis using length_dropWhile_le [of is_space s] by simp
qed

lemma stream_cmp_length: "stream_cmp s str = Inr (b, r) \<Longrightarrow> length r \<le> length s"
  by (induction s str rule: stream_cmp.induct) (fastforce split: if_splits)+

lemma num_digits_length: "num_digits n s = Inr (m, k, r) \<Longrightarrow> length r \<le> length s"
  by (induction n s arbitrary: m k r rule: num_digits.induct) (fastforce split: if_splits)+

lemma exp_digits_length: "exp_digits e s = Inr (x, r) \<Longrightarrow> length r \<le> length s"
  by (induction e s arbitrary: x r rule: exp_digits.induct) (fastforce simp: Let_def split: if_splits)+

lemma bind_Diverges: "bind_res m k = Inl Diverges \<longleftrightarrow> m = Inl Diverges \<or> (\<exists>x. m = Inr x \<and> k x = Inl Diverges)"
  by (cases m) auto

lemma not_diverges:
  "peek s \<noteq> Inl Diverges" "skip s \<noteq> Inl Diverges" "stream_cmp s str \<noteq> Inl Diverges" "num_digits n s \<noteq> Inl Diverges"
  "exp_digits e s \<noteq> Inl Diverges" "f_to_int x \<noteq> Inl Diverges" "string_room s \<noteq> Inl Diverges"
  "put_chars room out cs \<noteq> Inl Diverges" "sscanf_4x s \<noteq> Inl Diverges"
proof -
  show "num_digits n s \<noteq> Inl Diverges"
    by (induction n s rule: num_digits.induct) (auto simp: bind_Diverges)
  show "stream_cmp s str \<noteq> Inl Diverges" by (induction s str rule: stream_cmp.induct) auto
  show "exp_digits e s \<noteq> Inl Diverges" by (induction e s rule: exp_digits.induct) (auto simp: Let_def)
  have m: "map_sum id Suc m = Inl Diverges \<longleftrightarrow> m = Inl Diverges" for m by (cases m) auto
  show "string_room s \<noteq> Inl Diverges"
    by (induction s rule: string_room.induct) (auto simp: m split: list.splits)
  show "sscanf_4x s \<noteq> Inl Diverges"
    by (auto simp: sscanf_4x_def Let_def read_cstr_def bind_Diverges split: if_splits)
qed (auto simp: peek_def skip_def f_to_int_def put_chars_def Let_def split: list.splits f32.splits)

lemma unescape_not_diverges: "unescape uc uc2 s \<noteq> Inl Diverges"
  by (auto simp: unescape_def unescape_u_def bind_Diverges not_diverges Let_def split: if_splits)

lemma copy_unescaped_length:
  "copy_unescaped room uc uc2 out s \<noteq> Inl Diverges \<and>
   (\<forall>o' r. copy_unescaped room uc uc2 out s = Inr (o', r) \<longrightarrow> length r \<le> length s)"
proof (induction "length s" arbitrary: uc uc2 out s rule: less_induct)
  case less
  show ?case
  proof (cases s)
    case (Cons c t)
    have IH: "copy_unescaped room uc' uc2' out' (drop k t) \<noteq> Inl Diverges \<and>
        (\<forall>o' r. copy_unescaped room uc' uc2' out' (drop k t) = Inr (o', r) \<longrightarrow> length r \<le> Suc (length t))"
      for uc' uc2' out' k
    proof -
      have "length (drop k t) < length s" by (simp add: Cons)
      from less [OF this, of uc' uc2' out'] show ?thesis by fastforce
    qed
    show ?thesis
      using IH [where k = 0] IH
      by (auto simp: Cons bind_Diverges not_diverges unescape_not_diverges simp del: drop_Suc)
  qed simp
qed

lemma length_tl_le: "length (tl s) \<le> length s"
  by (cases s) auto

lemma parse_string_shrinks: "shrinks s (parse_string E s)"
proof -
  have "length r \<le> length s" if "parse_string E s = Inr (x, r)" for x r
  proof (cases s)
    case (Cons c t)
    show ?thesis
    proof (cases "c = QUOTE")
      case True
      with that Cons obtain m o' p where c: "copy_unescaped m (stack_uc E s) (stack_uc2 E s) [] t = Inr (o', p)"
          "r = p \<or> r = tl p"
        by (auto simp: parse_string_def split: if_splits)
      then have "length p \<le> length t" using copy_unescaped_length by blast
      with c(2) length_tl_le [of p] show ?thesis by (auto simp: Cons)
    qed (use that Cons in \<open>simp add: parse_string_def\<close>)
  qed (use that in \<open>simp add: parse_string_def\<close>)
  moreover have "parse_string E s \<noteq> Inl Diverges"
    using copy_unescaped_length by (auto simp: parse_string_def bind_Diverges not_diverges split: if_splits)
  ultimately show ?thesis by (simp add: shrinks_def)
qed

lemma num_parts_length:
  "num_integer s = Inr (n, r) \<Longrightarrow> length r \<le> length s"
  "num_fraction m s = Inr (n, k, r) \<Longrightarrow> length r \<le> length s"
  "num_exponent s = Inr (e, r) \<Longrightarrow> length r \<le> length s"
  using length_tl_le [of s] length_tl_le [of "tl s"]
  by (auto simp: num_integer_def num_fraction_def num_exponent_def Let_def split: if_splits
      dest!: num_digits_length exp_digits_length)

lemma parse_number_shrinks: "shrinks s (parse_number E s)"
proof -
  have "length r \<le> length s" if "parse_number E s = Inr (x, r)" for x r
  proof -
    define t where "t = (if peek s = Inr (CHR ''-'') then tl s else s)"
    from that obtain n p m k q e where
      "num_integer t = Inr (n, p)" "num_fraction n p = Inr (m, k, q)" "num_exponent q = Inr (e, r)"
      unfolding parse_number_def t_def by (auto simp: Let_def split: if_splits)
    then have "length r \<le> length t" using num_parts_length by (metis order_trans)
    also have "length t \<le> length s" by (simp add: t_def)
    finally show ?thesis .
  qed
  moreover have "num_integer t \<noteq> Inl Diverges" "num_fraction n t \<noteq> Inl Diverges" "num_exponent t \<noteq> Inl Diverges" for n t
    by (auto simp: num_integer_def num_fraction_def num_exponent_def bind_Diverges not_diverges Let_def split: if_splits)
  then have "parse_number E s \<noteq> Inl Diverges"
    by (auto simp: parse_number_def bind_Diverges not_diverges Let_def)
  ultimately show ?thesis by (simp add: shrinks_def)
qed

text \<open>Two parsers of values that are as good on all texts shorter than \<open>k\<close>.\<close>

definition agree_below :: "nat \<Rightarrow> (char list \<Rightarrow> (cjson option \<times> char list) result)
    \<Rightarrow> (char list \<Rightarrow> (cjson option \<times> char list) result) \<Rightarrow> bool" where
  "agree_below k p q \<longleftrightarrow> (\<forall>s. length s < k \<longrightarrow> shrinks s (p s) \<and> q s = p s)"

lemma agree_belowD:
  assumes "agree_below k p q" "length s < k"
  shows "shrinks s (p s)" "q s = p s"
  using assms by (simp_all add: agree_below_def)

lemma agree_below_mono: "agree_below k p q \<Longrightarrow> j \<le> k \<Longrightarrow> agree_below j p q"
  by (simp add: agree_below_def)

lemma shrinksI:
  "m \<noteq> Inl Diverges \<Longrightarrow> (\<And>x r. m = Inr (x, r) \<Longrightarrow> length r \<le> length s) \<Longrightarrow> shrinks s m"
  by (simp add: shrinks_def)

lemma shrinks_weaken: "shrinks r m \<Longrightarrow> length r \<le> length s \<Longrightarrow> shrinks s m"
  by (auto simp: shrinks_def intro: order_trans)

lemma shrinks_Inl [simp]: "shrinks s (Inl f) \<longleftrightarrow> f \<noteq> Diverges"
  by (simp add: shrinks_def)

lemma shrinks_Inr [simp]: "shrinks s (Inr (x, r)) \<longleftrightarrow> length r \<le> length s"
  by (simp add: shrinks_def)

lemma shrinks_bind:
  assumes "shrinks s m" "\<And>x r. m = Inr (x, r) \<Longrightarrow> length r \<le> length s \<Longrightarrow> shrinks t (k (x, r))"
  shows "shrinks t (bind_res m k)"
  using assms by (cases m) auto

lemma bind_peek: "bind_res (peek s) k = (case s of [] \<Rightarrow> Inl Out_Of_Bounds | c # r \<Rightarrow> k c)"
  by (cases s) auto

lemma shrinks_skip:
  assumes "\<And>r. skip s = Inr r \<Longrightarrow> length r \<le> length s \<Longrightarrow> r \<noteq> [] \<Longrightarrow> shrinks t (k r)"
  shows "shrinks t (bind_res (skip s) k)"
  using assms skip_Inr [of s] not_diverges(2) [of s] by (cases "skip s") auto

lemma skip_after_shrinks: "shrinks s m \<Longrightarrow> shrinks s (skip_after m)"
  unfolding skip_after_def
  by (erule shrinks_bind)
    (auto split: option.splits intro!: shrinks_skip intro: order_trans)

text \<open>What follows an item of an array or object.\<close>

lemma next_agree:
  assumes "shrinks r m" "length r \<le> length s"
    "\<And>i u. length u \<le> length r \<Longrightarrow> shrinks u (f i u) \<and> g i u = f i u"
  shows "shrinks s (bind_res m (\<lambda>(x, u). case x of None \<Rightarrow> Inr (None, u) | Some i \<Rightarrow> f i u)) \<and>
    bind_res m (\<lambda>(x, u). case x of None \<Rightarrow> Inr (None, u) | Some i \<Rightarrow> g i u) =
    bind_res m (\<lambda>(x, u). case x of None \<Rightarrow> Inr (None, u) | Some i \<Rightarrow> f i u)"
proof (cases m)
  case (Inr y)
  then obtain x u where y: "m = Inr (x, u)" by (cases y) auto
  with assms(1) have u: "length u \<le> length r" by simp
  show ?thesis
  proof (cases x)
    case (Some i)
    have "shrinks s (f i u)" using assms(3) [OF u] u assms(2) by (blast intro: shrinks_weaken order_trans)
    then show ?thesis using assms(3) [OF u] by (simp add: y Some)
  qed (use u assms(2) y in auto)
qed (use assms(1) in auto)

lemma parse_elements_agree:
  assumes "agree_below (length s) p q" "length s < n" "length s < n'"
  shows "shrinks s (parse_elements p n cs s) \<and> parse_elements q n' cs s = parse_elements p n cs s"
  using assms
proof (induction n arbitrary: n' cs s)
  case (Suc n)
  obtain m' where m': "n' = Suc m'" using Suc.prems(3) by (cases n') auto
  show ?case
  proof (cases s)
    case (Cons c t)
    have step: "shrinks s (bind_res (skip_after (p r)) (\<lambda>(x, s). case x of None \<Rightarrow> Inr (None, s)
          | Some i \<Rightarrow> parse_elements p n (cs @ [i]) s)) \<and>
        bind_res (skip_after (q r)) (\<lambda>(x, s). case x of None \<Rightarrow> Inr (None, s)
          | Some i \<Rightarrow> parse_elements q m' (cs @ [i]) s) =
        bind_res (skip_after (p r)) (\<lambda>(x, s). case x of None \<Rightarrow> Inr (None, s)
          | Some i \<Rightarrow> parse_elements p n (cs @ [i]) s)"
      if r: "length r \<le> length t" for r
    proof -
      have l: "length r < length s" using r Cons by simp
      note pq = agree_belowD [OF Suc.prems(1) l]
      show ?thesis unfolding pq(2)
        using skip_after_shrinks [OF pq(1)] l Suc.prems m'
        by (intro next_agree Suc.IH) (auto intro: agree_below_mono)
    qed
    show ?thesis
      using step skip_Inr [of t] not_diverges(2) [of t]
      by (cases "skip t") (auto simp: Cons m' bind_peek le_SucI split: list.splits)
  qed (simp add: m')
qed simp

lemma parse_array_agree:
  assumes "agree_below (length s) p q" "length s \<le> n" "length s \<le> n'"
  shows "shrinks s (parse_array p n s) \<and> parse_array q n' s = parse_array p n s"
proof (cases s)
  case (Cons c t)
  have step: "shrinks s (bind_res (skip_after (p r)) (\<lambda>(x, s). case x of None \<Rightarrow> Inr (None, s)
        | Some i \<Rightarrow> parse_elements p n [i] s)) \<and>
      bind_res (skip_after (q r)) (\<lambda>(x, s). case x of None \<Rightarrow> Inr (None, s)
        | Some i \<Rightarrow> parse_elements q n' [i] s) =
      bind_res (skip_after (p r)) (\<lambda>(x, s). case x of None \<Rightarrow> Inr (None, s)
        | Some i \<Rightarrow> parse_elements p n [i] s)"
    if r: "length r \<le> length t" for r
  proof -
    have l: "length r < length s" using r Cons by simp
    note pq = agree_belowD [OF assms(1) l]
    show ?thesis unfolding pq(2)
      using skip_after_shrinks [OF pq(1)] l assms
      by (intro next_agree parse_elements_agree) (auto intro: agree_below_mono)
  qed
  show ?thesis
    using step skip_Inr [of t] not_diverges(2) [of t]
    by (cases "skip t") (auto simp: Cons parse_array_def le_SucI)
qed (simp add: parse_array_def)

lemma parse_member_agree:
  assumes "agree_below (length s) p q"
  shows "shrinks s (parse_member E p s) \<and> parse_member E q s = parse_member E p s"
proof -
  have rest: "shrinks u (bind_res (peek u) (\<lambda>c. if c \<noteq> CHR '':'' then Inr (None, u)
        else bind_res (skip (tl u)) (\<lambda>s. bind_res (skip_after (p s)) (\<lambda>(x, s).
          Inr (map_option (set_item_string (valuestring k)) x, s))))) \<and>
      bind_res (peek u) (\<lambda>c. if c \<noteq> CHR '':'' then Inr (None, u)
        else bind_res (skip (tl u)) (\<lambda>s. bind_res (skip_after (q s)) (\<lambda>(x, s).
          Inr (map_option (set_item_string (valuestring k)) x, s)))) =
      bind_res (peek u) (\<lambda>c. if c \<noteq> CHR '':'' then Inr (None, u)
        else bind_res (skip (tl u)) (\<lambda>s. bind_res (skip_after (p s)) (\<lambda>(x, s).
          Inr (map_option (set_item_string (valuestring k)) x, s))))"
    if u: "length u \<le> length s" for u k
  proof (cases u)
    case (Cons c t)
    show ?thesis
    proof (cases "skip t")
      case (Inr r)
      then have r: "length r \<le> length t" using skip_Inr by blast
      then have l: "length r < length s" using u Cons by simp
      note pq = agree_belowD [OF assms l]
      have "shrinks u (bind_res (skip_after (p r)) (\<lambda>(x, s). Inr (map_option (set_item_string (valuestring k)) x, s)))"
        using r by (intro shrinks_bind [OF skip_after_shrinks [OF pq(1)]]) (simp add: Cons)
      then show ?thesis by (cases "c = CHR '':''") (simp_all add: Cons Inr pq(2))
    qed (use not_diverges(2) [of t] in \<open>simp add: Cons\<close>)
  qed simp
  show ?thesis
    unfolding parse_member_def
    using skip_after_shrinks [OF parse_string_shrinks] rest by (intro next_agree) auto
qed

lemma parse_members_agree:
  assumes "agree_below (length s) p q" "length s < n" "length s < n'"
  shows "shrinks s (parse_members E p n cs s) \<and> parse_members E q n' cs s = parse_members E p n cs s"
  using assms
proof (induction n arbitrary: n' cs s)
  case (Suc n)
  obtain m' where m': "n' = Suc m'" using Suc.prems(3) by (cases n') auto
  show ?case
  proof (cases s)
    case (Cons c t)
    have step: "shrinks s (bind_res (parse_member E p r) (\<lambda>(x, s). case x of None \<Rightarrow> Inr (None, s)
          | Some i \<Rightarrow> parse_members E p n (cs @ [i]) s)) \<and>
        bind_res (parse_member E q r) (\<lambda>(x, s). case x of None \<Rightarrow> Inr (None, s)
          | Some i \<Rightarrow> parse_members E q m' (cs @ [i]) s) =
        bind_res (parse_member E p r) (\<lambda>(x, s). case x of None \<Rightarrow> Inr (None, s)
          | Some i \<Rightarrow> parse_members E p n (cs @ [i]) s)"
      if r: "length r \<le> length t" for r
    proof -
      have l: "length r < length s" using r Cons by simp
      have "agree_below (length r) p q" using Suc.prems(1) l by (auto intro: agree_below_mono)
      note pq = conjunct1 [OF parse_member_agree [OF this, of E]] conjunct2 [OF parse_member_agree [OF this, of E]]
      show ?thesis unfolding pq(2)
        using pq(1) l Suc.prems m' by (intro next_agree Suc.IH) (auto intro: agree_below_mono)
    qed
    show ?thesis
      using step skip_Inr [of t] not_diverges(2) [of t]
      by (cases "skip t") (auto simp: Cons m' bind_peek le_SucI split: list.splits)
  qed (simp add: m')
qed simp

lemma parse_object_agree:
  assumes "agree_below (length s) p q" "length s \<le> n" "length s \<le> n'"
  shows "shrinks s (parse_object E p n s) \<and> parse_object E q n' s = parse_object E p n s"
proof (cases s)
  case (Cons c t)
  have step: "shrinks s (bind_res (parse_member E p r) (\<lambda>(x, s). case x of None \<Rightarrow> Inr (None, s)
        | Some i \<Rightarrow> parse_members E p n [i] s)) \<and>
      bind_res (parse_member E q r) (\<lambda>(x, s). case x of None \<Rightarrow> Inr (None, s)
        | Some i \<Rightarrow> parse_members E q n' [i] s) =
      bind_res (parse_member E p r) (\<lambda>(x, s). case x of None \<Rightarrow> Inr (None, s)
        | Some i \<Rightarrow> parse_members E p n [i] s)"
    if r: "length r \<le> length t" for r
  proof -
    have l: "length r < length s" using r Cons by simp
    have "agree_below (length r) p q" using assms(1) l by (auto intro: agree_below_mono)
    note pq = conjunct1 [OF parse_member_agree [OF this, of E]] conjunct2 [OF parse_member_agree [OF this, of E]]
    show ?thesis unfolding pq(2)
      using pq(1) l assms by (intro next_agree parse_members_agree) (auto intro: agree_below_mono)
  qed
  show ?thesis
    using step skip_Inr [of t] not_diverges(2) [of t]
    by (cases "skip t") (auto simp: Cons parse_object_def le_SucI)
qed (simp add: parse_object_def)

text \<open>The three comparisons and the choice by the first character.\<close>

lemma cmp_agree:
  assumes "length u \<le> length s" "\<And>r. length r \<le> length u \<Longrightarrow> shrinks s (f r) \<and> g r = f r"
  shows "shrinks s (bind_res (stream_cmp u str) (\<lambda>(b, r). if b then Inr (x, r) else f r)) \<and>
    bind_res (stream_cmp u str) (\<lambda>(b, r). if b then Inr (x, r) else g r) =
    bind_res (stream_cmp u str) (\<lambda>(b, r). if b then Inr (x, r) else f r)"
proof (cases "stream_cmp u str")
  case (Inr y)
  then obtain b r where y: "stream_cmp u str = Inr (b, r)" by (cases y) auto
  then have "length r \<le> length u" by (rule stream_cmp_length)
  then show ?thesis using assms(1) assms(2) [of r] by (cases b) (simp_all add: y)
qed (use not_diverges(3) [of u str] in auto)

definition parse_head :: "json_env \<Rightarrow> (char list \<Rightarrow> (cjson option \<times> char list) result) \<Rightarrow> nat \<Rightarrow> char list
    \<Rightarrow> (cjson option \<times> char list) result" where
  "parse_head E pv n r =
     bind_res (peek r) (\<lambda>c.
       if c = QUOTE then parse_string E r
       else if c = CHR ''-'' \<or> is_digit c then parse_number E r
       else if c = CHR ''['' then parse_array pv n r
       else if c = CHR ''{'' then parse_object E pv n r
       else Inr (None, r))"

lemma parse_head_agree:
  assumes "agree_below (length r) p q" "length r \<le> n" "length r \<le> n'"
  shows "shrinks r (parse_head E p n r) \<and> parse_head E q n' r = parse_head E p n r"
proof (cases r)
  case (Cons c t)
  have a: "shrinks r (parse_array p n r)" "parse_array q n' r = parse_array p n r"
    "shrinks r (parse_object E p n r)" "parse_object E q n' r = parse_object E p n r"
    using parse_array_agree [OF assms] parse_object_agree [OF assms] by auto
  have h: "parse_head E p n r = (if c = QUOTE then parse_string E r
      else if c = CHR ''-'' \<or> is_digit c then parse_number E r
      else if c = CHR ''['' then parse_array p n r
      else if c = CHR ''{'' then parse_object E p n r
      else Inr (None, r))" for p n by (simp add: parse_head_def Cons)
  show ?thesis unfolding h using a by (simp add: parse_string_shrinks parse_number_shrinks)
qed (simp add: parse_head_def)

lemma parse_value_agree:
  "length s < n \<Longrightarrow> length s < n' \<Longrightarrow>
     shrinks s (parse_value E n s) \<and> parse_value E n' s = parse_value E n s"
proof (induction "length s" arbitrary: s n n' rule: less_induct)
  case less
  obtain m m' where m: "n = Suc m" "n' = Suc m'" using less.prems by (cases n; cases n') auto
  have below: "agree_below (length s) (parse_value E m) (parse_value E m')"
    unfolding agree_below_def
  proof (intro allI impI)
    fix t :: "char list"
    assume t: "length t < length s"
    have "length t < m" "length t < m'" using t less.prems m by linarith+
    then show "shrinks t (parse_value E m t) \<and> parse_value E m' t = parse_value E m t"
      by (rule less.hyps [OF t])
  qed
  have head: "shrinks s (parse_head E (parse_value E m) m r) \<and>
      parse_head E (parse_value E m') m' r = parse_head E (parse_value E m) m r" if r: "length r \<le> length s" for r
    using parse_head_agree [OF agree_below_mono [OF below r], of m m' E] r less.prems m
    by (auto intro: shrinks_weaken)
  show ?case
    unfolding m parse_value.simps parse_head_def [symmetric]
    apply (rule cmp_agree [OF order_refl])
    apply (rule cmp_agree, linarith)
    apply (rule cmp_agree, linarith)
    apply (rule head, linarith)
    done
qed

section \<open>Properties\<close>

text \<open>
  Property C1. Printing and parsing are inverse: a tree of integers, strings, literals, arrays and objects that is
  printed, with or without layout, never overruns the memory the printer takes, has the text of the reference,
  and that text, terminated and whatever follows it in memory, is parsed back to the same tree, unless the whole
  text is a literal. The one thing relied on is \<open>pow(10.0, 0) = 1\<close>.
\<close>
theorem json_roundtrip:
  assumes "json_ok v" "follows v NUL" "pow10 E 0 = Num 1"
  shows "cJSON_Print (json_tree v) = Inr (Some (json_text True 0 v)) \<and>
    cJSON_PrintUnformatted (json_tree v) = Inr (Some (json_text False 0 v)) \<and>
    cJSON_Parse E (json_text fmt 0 v @ NUL # rest) = Inr (Some (json_tree v))"
proof -
  have "skip (json_text fmt 0 v @ NUL # rest) = Inr (json_text fmt 0 v @ NUL # rest)"
    using json_text_start [of fmt 0 v] by (intro skip_text) simp_all
  moreover have "parse_value E (parse_fuel (json_text fmt 0 v @ NUL # rest)) (json_text fmt 0 v @ NUL # rest) =
      Inr (Some (json_tree v), NUL # rest)"
    using assms by (intro parse_tree) (simp_all add: parse_fuel_def)
  ultimately show ?thesis
    using print_tree [OF assms(1)] by (simp add: cJSON_Print_def cJSON_PrintUnformatted_def cJSON_Parse_def)
qed

definition sample_env :: json_env where
  "sample_env = \<lparr>pow10 = (\<lambda>e. if e = 0 then Num 1 else d_round (10 powi e)), stack_uc = (\<lambda>_. 0), stack_uc2 = (\<lambda>_. 0)\<rparr>"

definition sample_json :: json where
  "sample_json = JObj [(''id'', JInt (- 7)), (''params'', JArr [JNull, JBool True, JStr [QUOTE, CHR 0x01], JObj []])]"

lemma json_roundtrip_witness:
  "cJSON_Parse sample_env (json_text True 0 sample_json @ NUL # ''}}'') = Inr (Some (json_tree sample_json))"
proof -
  have "json_ok sample_json" "follows sample_json NUL" "pow10 sample_env 0 = Num 1"
    by (simp_all add: sample_json_def sample_env_def in_int_def NUL_def)
  from json_roundtrip [OF this] show ?thesis by simp
qed

text \<open>
  Property C2. The parser ends on every text, valid or not, terminated or not: the fuel its entry points give never
  runs out, more of it changes nothing, and the place where parsing stopped is never before the start of the
  text.
\<close>
theorem json_parse_total:
  "cJSON_Parse E s \<noteq> Inl Diverges \<and> cJSON_Parse_Stream E s \<noteq> Inl Diverges \<and>
   bind_res (skip s) (parse_value E (parse_fuel s + n)) = cJSON_Parse_Stream E s \<and>
   (case cJSON_Parse_Stream E s of Inl f \<Rightarrow> True | Inr (x, r) \<Rightarrow> length r \<le> length s)"
proof (cases "skip s")
  case (Inl f)
  then show ?thesis using not_diverges(2) [of s] by (simp add: cJSON_Parse_def cJSON_Parse_Stream_def)
next
  case (Inr t)
  then have t: "length t \<le> length s" using skip_Inr by blast
  have "length t < parse_fuel t" "length t < parse_fuel s + n" using t by (simp_all add: parse_fuel_def)
  from parse_value_agree [OF this, of E]
  have p: "shrinks t (parse_value E (parse_fuel t) t)"
    "parse_value E (parse_fuel s + n) t = parse_value E (parse_fuel t) t" by auto
  then show ?thesis using Inr t
    by (auto simp: cJSON_Parse_def cJSON_Parse_Stream_def bind_Diverges shrinks_def split: sum.splits)
qed

text \<open>
  Property C19. What the comparison with \<open>null\<close>, \<open>false\<close> and \<open>true\<close> does wrong. A text that is only a literal is
  compared beyond its terminator and beyond that of the literal. And since a comparison that fails leaves the
  stream after the characters that agreed, a letter \<open>n\<close> in front of a value is ignored.
\<close>
theorem json_literals:
  assumes "json_ok v" "follows v NUL" "pow10 E 0 = Num 1"
  shows "cJSON_Parse E (''null'' @ NUL # rest) = Inl Out_Of_Bounds \<and>
    cJSON_Parse E (''false'' @ NUL # rest) = Inl Out_Of_Bounds \<and>
    cJSON_Parse E (''true'' @ NUL # rest) = Inl Out_Of_Bounds \<and>
    cJSON_Parse E (CHR ''n'' # json_text fmt 0 v @ NUL # rest) = Inr (Some (json_tree v))"
proof -
  have s: "\<not> is_space (CHR ''n'')" "\<not> is_space (CHR ''f'')" "\<not> is_space (CHR ''t'')" by (simp_all add: is_space_def)
  define t where "t = json_text fmt 0 v @ NUL # rest"
  obtain d u where du: "t = d # u" using json_text_start [of fmt 0 v] unfolding t_def by (cases "json_text fmt 0 v") auto
  have d: "d \<noteq> CHR ''u'' \<and> d \<noteq> CHR ''n'' \<and> d \<noteq> CHR ''f'' \<and> d \<noteq> CHR ''t''"
  proof (cases v)
    case (JInt i)
    obtain c r where "print_d i = c # r" by (cases "print_d i") (auto simp: print_d_def split: if_splits)
    with print_d_start [OF this] digit_not_literal [of c] JInt du show ?thesis
      by (auto simp: t_def is_digit_def)
  qed (use assms(2) du in \<open>auto simp: t_def quoted_def NUL_def\<close>)
  have p: "parse_value E (Suc m) (CHR ''n'' # t) = parse_value E (Suc m) t" for m
    using d unfolding du by (simp add: NUL_def)
  have "parse_value E (Suc (Suc (length t))) t = Inr (Some (json_tree v), NUL # rest)"
    using parse_tree [OF assms(3,1,2), of rest fmt 0 "Suc (Suc (length t))"] by (simp add: t_def del: parse_value.simps)
  then have "parse_value E (parse_fuel (CHR ''n'' # t)) (CHR ''n'' # t) = Inr (Some (json_tree v), NUL # rest)"
    using p [of "Suc (length t)"] by (simp add: parse_fuel_def del: parse_value.simps)
  then show ?thesis using s
    by (simp add: cJSON_Parse_def parse_fuel_def NUL_def t_def del: parse_value.simps(2))
       (simp add: NUL_def)
qed

lemma json_literals_witness:
  "cJSON_Parse sample_env (CHR ''n'' # json_text False 0 (JStr ''x'') @ NUL # []) = Inr (Some (json_tree (JStr ''x'')))"
proof -
  have "json_ok (JStr ''x'')" "follows (JStr ''x'') NUL" "pow10 sample_env 0 = Num 1"
    by (simp_all add: sample_env_def NUL_def)
  from json_literals [OF this, of "[]" False] show ?thesis by blast
qed

text \<open>
  Property C17. A heap overflow in \<open>parse_string\<close>: in the text \<open>"\u0041\u"xyz\<close> followed by six or more plain characters the first
  loop stops at the quote after the second \<open>\u\<close> and takes seven bytes, but the second loop passes over that
  quote and copies what follows it.
\<close>
theorem parse_string_overflow:
  assumes "\<forall>c \<in> set t. c \<notin> {QUOTE, BACKSLASH, NUL}" "6 \<le> length t" "NUL \<in> set rest"
    "NUL \<notin> {x, y, z}"
  shows "parse_string E ([QUOTE, BACKSLASH] @ ''u0041'' @ [BACKSLASH, CHR ''u'', QUOTE, x, y, z] @ t @ rest) =
    Inl Out_Of_Bounds"
proof -
  have hex: "sscanf_4x (''0041'' @ r) = Inr (Some 0x41)" if "NUL \<in> set r" for r
  proof -
    have "map hex_char [0, 0, 4, 1] = ''0041''" by (simp add: hex_char_def char_of_def bit_0 bit_Suc)
    then show ?thesis using sscanf_hex4 [of 0 0 4 1 r] that by simp
  qed
  have none: "sscanf_4x (QUOTE # r) = Inr None" if "NUL \<in> set r" for r
    using that by (simp add: sscanf_4x_def read_cstr_def cstr_def quote_not_NUL Let_def hex_value_def)
  have A: "utf8_chars 0x41 = ''A''" "utf8_len 0x41 = 1"
    using utf8_ascii [of "0x41"] by (simp_all add: char_of_def bit_0 bit_Suc)
  have copy: "copy_unescaped room uc uc2 out (t @ rest) = Inl Out_Of_Bounds"
    if "room < length out + length t" "\<forall>c \<in> set t. c \<notin> {QUOTE, BACKSLASH, NUL}" "length out \<le> room"
    for room uc uc2 out t
    using that
  proof (induction t arbitrary: out)
    case (Cons c t)
    then show ?case by (simp add: put_chars_def)
  qed simp
  define r where "r = [x, y, z] @ t @ rest"
  have n: "NUL \<in> set r" using assms(3) by (simp add: r_def)
  have u: "unescape uc uc2 (''u0041'' @ s) = Inr (''A'', 4, 0x41, uc2)" if "NUL \<in> set s" for uc uc2 s
    using hex [OF that] A by (simp add: unescape_def unescape_u_def)
  have u2: "unescape 0x41 uc2 (CHR ''u'' # QUOTE # r) = Inr (''A'', 4, 0x41, uc2)" for uc2
    using none [OF n] A by (simp add: unescape_def unescape_u_def)
  have "copy_unescaped 7 uc uc2 [] (BACKSLASH # ''u0041'' @ BACKSLASH # CHR ''u'' # QUOTE # r) = Inl Out_Of_Bounds" for uc uc2
    using u [of "BACKSLASH # CHR ''u'' # QUOTE # r" uc uc2] u2 [of uc2] n assms(1,2)
    by (simp add: put_chars_def quote_not_NUL r_def copy)
  moreover have "string_room (BACKSLASH # ''u0041'' @ BACKSLASH # CHR ''u'' # QUOTE # r) = Inr 6"
    by (simp add: NUL_def)
  ultimately show ?thesis
    by (simp add: parse_string_def r_def del: copy_unescaped.simps string_room.simps)
qed

lemma parse_string_overflow_witness:
  "cJSON_Parse sample_env (''['' @ [QUOTE, BACKSLASH] @ ''u0041'' @ [BACKSLASH, CHR ''u'', QUOTE, CHR '','', QUOTE, CHR ''A''] @
     ''AAAAAA'' @ [QUOTE] @ '']'' @ [NUL]) = Inl Out_Of_Bounds"
proof -
  have "parse_string sample_env ([QUOTE, BACKSLASH] @ ''u0041'' @ [BACKSLASH, CHR ''u'', QUOTE, CHR '','', QUOTE, CHR ''A''] @
      ''AAAAAA'' @ [QUOTE, CHR '']'', NUL]) = Inl Out_Of_Bounds"
    by (rule parse_string_overflow) (simp_all add: NUL_def)
  then show ?thesis
    by (simp add: cJSON_Parse_def parse_fuel_def parse_array_def parse_value_other skip_after_def is_space_def is_digit_def
        del: parse_value.simps)
qed

text \<open>The character two halves of a surrogate pair stand for.\<close>

definition utf16_pair :: "nat \<Rightarrow> nat \<Rightarrow> nat" where
  "utf16_pair hi lo = 0x10000 + (hi - 0xD800) * 0x400 + (lo - 0xDC00)"

lemma low_ten:
  assumes "unat w = k * 0x400 + x" "x < 0x400"
  shows "(w :: u32) AND 0x3FF = word_of_nat x"
proof -
  have "(0x3FF :: u32) = mask 10" by (simp add: mask_eq_exp_minus_1)
  then have "w AND 0x3FF = take_bit 10 w" by (simp only: take_bit_eq_mask)
  moreover have "unat (take_bit 10 w) = take_bit 10 (unat w)" by (rule unsigned_take_bit_eq)
  then have "unat (take_bit 10 w) = unat w mod 2 ^ 10" by (simp only: take_bit_eq_mod)
  ultimately have "unat (w AND 0x3FF) = x" using assms by simp
  moreover have "w AND 0x3FF = word_of_nat (unat (w AND 0x3FF))" by simp
  ultimately show ?thesis by (simp only:)
qed

lemma push_or_add: "y < 2 ^ n \<Longrightarrow> push_bit n x OR y = x * 2 ^ n + (y :: nat)"
proof -
  assume y: "y < 2 ^ n"
  have "\<not> (n \<le> m \<and> bit y m)" for m
  proof
    assume m: "n \<le> m \<and> bit y m"
    then have "y < 2 ^ m" using y by (meson less_le_trans one_le_numeral power_increasing)
    with m show False by (simp add: bit_iff_odd)
  qed
  then have "push_bit n x AND y = 0" by (auto simp: bit_eq_iff bit_simps)
  then have "push_bit n x + y = push_bit n x OR y" by (rule disjunctive_add_eq_or)
  then show ?thesis by (simp add: push_bit_eq_mult)
qed

lemma or_bit16: "z < 0x100000 \<Longrightarrow> 0x10000 OR z = z + (if bit z 16 then 0 else 0x10000 :: nat)"
proof -
  have "set_bit 16 z = z OR 0x10000" by (simp add: set_bit_eq_or push_bit_eq_mult)
  then show ?thesis by (cases "bit z 16") (simp_all add: set_bit_eq or.commute)
qed

text \<open>
  Property C18. A surrogate pair is put together with \<open>|\<close> where the sum with \<open>0x10000\<close> is meant: it is the character
  it stands for if bit 6 of the first half is not set, that is on every second plane, and the one of the plane below
  otherwise.
\<close>
theorem surrogate_planes:
  assumes "0xD800 \<le> unat uc" "unat uc \<le> 0xDBFF" "0xDC00 \<le> unat uc2" "unat uc2 \<le> 0xDFFF"
  shows "unat (surrogate_pair uc uc2) = utf16_pair (unat uc) (unat uc2) - (if bit uc 6 then 0x10000 else 0)"
proof -
  define x y where "x = unat uc - 0xD800" and "y = unat uc2 - 0xDC00"
  have x: "unat uc = 54 * 0x400 + x" "x < 0x400" and y: "unat uc2 = 55 * 0x400 + y" "y < 0x400"
    using assms by (simp_all add: x_def y_def)
  define z where "z = x * 2 ^ 10 + y"
  have z: "z < 0x100000" "push_bit 10 x OR y = z" using x(2) y(2) by (simp_all add: z_def push_or_add)
  have "surrogate_pair uc uc2 = word_of_nat (0x10000 OR push_bit 10 x OR y)"
    by (simp add: surrogate_pair_def low_ten [OF x] low_ten [OF y] of_nat_or_eq of_nat_push_bit flip: or.assoc)
  then have s: "surrogate_pair uc uc2 = word_of_nat (z + (if bit z 16 then 0 else 0x10000))"
    using z by (simp add: or.assoc or_bit16)
  have "unat (surrogate_pair uc uc2) = z + (if bit z 16 then 0 else 0x10000)"
    unfolding s by (rule word_of_nat_unat_small) (use z(1) in simp)
  moreover have "bit z 16 = bit uc 6"
  proof -
    have "bit uc 6 = bit (unat uc) 6" by (simp add: bit_unsigned_iff)
    also have "\<dots> = odd (unat uc div 2 ^ 6)" by (simp add: bit_iff_odd)
    also have "unat uc div 2 ^ 6 = 54 * 16 + x div 2 ^ 6" by (simp add: x(1))
    also have "odd (54 * 16 + x div 2 ^ 6) = odd (z div 2 ^ 16)"
    proof -
      have "z div 2 ^ 16 = z div 2 ^ 10 div 2 ^ 6" by (simp flip: div_mult2_eq)
      also have "z div 2 ^ 10 = x" using y(2) by (simp add: z_def)
      finally show ?thesis by simp
    qed
    finally show ?thesis by (simp add: bit_iff_odd)
  qed
  ultimately show ?thesis by (simp add: utf16_pair_def z_def x_def y_def)
qed

lemma surrogate_planes_witness:
  "unat (surrogate_pair 0xD83D 0xDE00) = 0x1F600 \<and> unat (surrogate_pair 0xD840 0xDC00) = 0x10000"
  using surrogate_planes [of "0xD83D" "0xDE00"] surrogate_planes [of "0xD840" "0xDC00"]
  by (simp add: utf16_pair_def bit_iff_odd)

lemma strcasecmp_tolower: "strcasecmp_loop s t \<longleftrightarrow> map tolower s = map tolower t"
  by (induction s t rule: strcasecmp_loop.induct) auto

lemma strcasecmp_Some:
  "cJSON_strcasecmp a (Some t) \<longleftrightarrow> map_option (map tolower) a = Some (map tolower t)"
  by (auto simp: cJSON_strcasecmp_def strcasecmp_tolower split: option.splits)

lemma children_set [simp]: "children (set_children cs c) = cs" "children (set_item_string k c) = children c"
  by (cases c; simp)+

lemma find_append_option: "find P (xs @ ys) = (case find P xs of None \<Rightarrow> find P ys | Some x \<Rightarrow> Some x)"
  by (induction xs) auto

lemma name_index_find:
  "case name_index cs k of
     None \<Rightarrow> find (\<lambda>c. cJSON_strcasecmp (item_string c) (Some k)) cs = None
   | Some i \<Rightarrow> 0 \<le> i \<and> nat i < length cs \<and>
       find (\<lambda>c. cJSON_strcasecmp (item_string c) (Some k)) cs = Some (cs ! nat i) \<and>
       nat i = length (takeWhile (\<lambda>c. \<not> cJSON_strcasecmp (item_string c) (Some k)) cs)"
  by (induction cs k rule: name_index.induct)
    (auto split: option.splits simp: nat_add_distrib)

lemma while_none: "\<forall>x \<in> set xs. \<not> P x \<Longrightarrow> takeWhile (\<lambda>x. \<not> P x) xs @ tl (dropWhile (\<lambda>x. \<not> P x) xs) = xs"
  by (induction xs) simp_all

text \<open>
  Property C20. An object is a list of members found by their name without regard to case. A member that is added is
  found if no earlier one has its name, and finding other members is not affected; detaching a name gives the member that
  would be found and removes only that one; replacing a name puts the new item, under the name as
  given, in its place.
\<close>
theorem object_operations:
  "cJSON_GetObjectItem (cJSON_AddItemToObject obj k (Some i)) l =
     (case cJSON_GetObjectItem obj l of
        Some x \<Rightarrow> Some x
      | None \<Rightarrow> if map tolower k = map tolower l then Some (set_item_string (Some k) i) else None) \<and>
   fst (cJSON_DetachItemFromObject obj k) = cJSON_GetObjectItem obj k \<and>
   children (cJSON_DeleteItemFromObject obj k) =
     takeWhile (\<lambda>c. \<not> cJSON_strcasecmp (item_string c) (Some k)) (children obj) @
     tl (dropWhile (\<lambda>c. \<not> cJSON_strcasecmp (item_string c) (Some k)) (children obj)) \<and>
   cJSON_GetObjectItem (cJSON_ReplaceItemInObject obj k i) k =
     map_option (\<lambda>_. set_item_string (Some k) i) (cJSON_GetObjectItem obj k)"
proof -
  let ?P = "\<lambda>c. cJSON_strcasecmp (item_string c) (Some k)"
  have add: "cJSON_GetObjectItem (cJSON_AddItemToObject obj k (Some i)) l =
     (case cJSON_GetObjectItem obj l of
        Some x \<Rightarrow> Some x
      | None \<Rightarrow> if map tolower k = map tolower l then Some (set_item_string (Some k) i) else None)"
    by (simp add: cJSON_GetObjectItem_def cJSON_AddItemToObject_def cJSON_AddItemToArray_def find_append_option
        strcasecmp_Some split: option.split)
  note idx = name_index_find [where cs = "children obj" and k = k]
  show ?thesis
  proof (cases "name_index (children obj) k")
    case None
    then have f: "find ?P (children obj) = None" using idx by simp
    then have "\<forall>c \<in> set (children obj). \<not> ?P c" by (simp add: find_None_iff)
    then have "takeWhile (\<lambda>c. \<not> ?P c) (children obj) @ tl (dropWhile (\<lambda>c. \<not> ?P c) (children obj)) =
        children obj"
      by (rule while_none)
    then show ?thesis using None f add
      by (simp add: cJSON_DetachItemFromObject_def cJSON_DeleteItemFromObject_def cJSON_ReplaceItemInObject_def
          cJSON_GetObjectItem_def)
  next
    case (Some j)
    define m where "m = nat j"
    have m: "m < length (children obj)" "find ?P (children obj) = Some (children obj ! m)"
      "m = length (takeWhile (\<lambda>c. \<not> ?P c) (children obj))" using Some idx by (simp_all add: m_def)
    have t: "take m (children obj) = takeWhile (\<lambda>c. \<not> ?P c) (children obj)" unfolding m(3) by (rule takeWhile_eq_take [symmetric])
    have d: "drop m (children obj) = dropWhile (\<lambda>c. \<not> ?P c) (children obj)" unfolding m(3) by (rule dropWhile_eq_drop [symmetric])
    have D: "drop (Suc m) (children obj) = tl (dropWhile (\<lambda>c. \<not> ?P c) (children obj))"
      by (simp flip: d add: drop_Suc tl_drop)
    have c: "chain_index (children obj) j = Some m" using m(1) by (simp add: chain_index_def m_def)
    have n: "\<forall>c \<in> set (takeWhile (\<lambda>c. \<not> ?P c) (children obj)). \<not> ?P c" by (auto dest: set_takeWhileD)
    have u: "(children obj)[m := x] = takeWhile (\<lambda>c. \<not> ?P c) (children obj) @ x # drop (Suc m) (children obj)" for x
      using m(1) by (simp add: upd_conv_take_nth_drop t)
    have "find ?P (takeWhile (\<lambda>c. \<not> ?P c) (children obj)) = None" using n by (simp add: find_None_iff)
    then have "find ?P ((children obj)[m := set_item_string (Some k) i]) = Some (set_item_string (Some k) i)"
      unfolding u by (simp add: find_append_option strcasecmp_Some)
    then have r: "cJSON_GetObjectItem (cJSON_ReplaceItemInObject obj k i) k = Some (set_item_string (Some k) i)"
      by (simp add: cJSON_GetObjectItem_def cJSON_ReplaceItemInObject_def cJSON_ReplaceItemInArray_def Some c Let_def)
    have e: "cJSON_DetachItemFromObject obj k =
        (Some (children obj ! m), set_children (take m (children obj) @ drop (Suc m) (children obj)) obj)"
      by (simp add: cJSON_DetachItemFromObject_def cJSON_DetachItemFromArray_def Some c Let_def)
    have g: "cJSON_GetObjectItem obj k = Some (children obj ! m)" unfolding cJSON_GetObjectItem_def by (rule m(2))
    show ?thesis unfolding r g cJSON_DeleteItemFromObject_def e t D using add by simp
  qed
qed

end
