(* ===== verification/Json_Rpc.thy ===== *)
theory Json_Rpc
  imports Cjson_Text
begin

text \<open>
  The JSON-RPC server, \<open>src/jsonrpc-c.c\<close>: the table of procedures, the evaluation of a request, the buffer of a
  connection and the start of the server. The event loop of libev calls \<open>accept_cb\<close> and \<open>connection_cb\<close>.
\<close>

section \<open>Surroundings\<close>

text \<open>
  The calls that only this server makes: whether memory of a size can be had, the environment, and the calls on listening sockets. An
  address from \<open>getaddrinfo\<close> is its family, type, protocol and bytes.
\<close>

record 'w rpc_os =
  o_realloc :: "nat \<Rightarrow> 'w \<Rightarrow> bool \<times> 'w"
  o_getenv :: "string \<Rightarrow> 'w \<Rightarrow> string option"
  o_getaddrinfo :: "string \<Rightarrow> 'w \<Rightarrow> int \<times> (int \<times> int \<times> int \<times> byte list) list \<times> 'w"
  o_bind :: "int \<Rightarrow> byte list \<Rightarrow> 'w \<Rightarrow> int \<times> 'w"
  o_getsockname :: "int \<Rightarrow> 'w \<Rightarrow> int \<times> u16 \<times> 'w"
  o_listen :: "int \<Rightarrow> int \<Rightarrow> 'w \<Rightarrow> int \<times> 'w"
  o_accept :: "int \<Rightarrow> 'w \<Rightarrow> int \<times> 'w"
  o_ev_break :: "'w \<Rightarrow> 'w"

definition JRPC_PARSE_ERROR :: int where "JRPC_PARSE_ERROR = - 32700"
definition JRPC_INVALID_REQUEST :: int where "JRPC_INVALID_REQUEST = - 32600"
definition JRPC_METHOD_NOT_FOUND :: int where "JRPC_METHOD_NOT_FOUND = - 32601"
definition JRPC_INVALID_PARAMS :: int where "JRPC_INVALID_PARAMS = - 32603"
definition JRPC_INTERNAL_ERROR :: int where "JRPC_INTERNAL_ERROR = - 32693"

section \<open>Procedures, servers and connections\<close>

text \<open>
  The \<open>data\<close> of a procedure is a string that was allocated or one that is part of the program. A function
  pointer is a value of type \<open>'f\<close>; what a call through it does is a parameter of the functions that make one.
  An entry of the table that was not completely written is \<open>None\<close>.
\<close>

datatype proc_data = No_Data | Heap_Data string | Static_Data string

record 'f jrpc_procedure =
  proc_name :: string
  proc_function :: 'f
  proc_data :: proc_data

record 'f jrpc_server =
  port_number :: int
  procedure_count :: int
  procedures :: "'f jrpc_procedure option list option"
  debug_level :: int

record jrpc_connection =
  conn_fd :: int
  pos :: int
  buffer_size :: u32
  conn_buffer :: "char list"
  conn_debug_level :: int

text \<open>The result of a procedure: its error code and message, and the tree it returns.\<close>

type_synonym ('f, 'w) invoke =
  "'f jrpc_server \<Rightarrow> 'f \<Rightarrow> proc_data \<Rightarrow> cjson option \<Rightarrow> cjson option \<Rightarrow> 'w
     \<Rightarrow> (int \<times> string option \<times> cjson option \<times> 'w) result"

section \<open>Responses\<close>

text \<open>The response and a new line, in two writes whose results are not looked at.\<close>

definition send_response :: "'w kernel \<Rightarrow> jrpc_connection \<Rightarrow> string option \<Rightarrow> 'w \<Rightarrow> (int \<times> 'w) result" where
  "send_response K conn response w =
     (case response of
        None \<Rightarrow> Inl Null_Pointer
      | Some s \<Rightarrow>
          let (_, w) = k_write K (conn_fd conn) (str_bytes s) w;
              (_, w) = k_write K (conn_fd conn) (str_bytes [CHR 0x0A]) w
          in Inr (0, w))"

definition send_error ::
    "'w kernel \<Rightarrow> jrpc_connection \<Rightarrow> int \<Rightarrow> string option \<Rightarrow> cjson option \<Rightarrow> 'w \<Rightarrow> (int \<times> 'w) result" where
  "send_error K conn code message idt w =
     bind_res (cJSON_CreateNumber (d_of_int code)) (\<lambda>n.
       case message of
         None \<Rightarrow> Inl Null_Pointer
       | Some msg \<Rightarrow>
           let error_root = cJSON_AddItemToObject cJSON_CreateObject ''code'' (Some n);
               error_root = cJSON_AddItemToObject error_root ''message'' (Some (cJSON_CreateString msg));
               result_root = cJSON_AddItemToObject cJSON_CreateObject ''error'' (Some error_root);
               result_root = cJSON_AddItemToObject result_root ''id'' idt
           in bind_res (cJSON_Print result_root) (\<lambda>s. send_response K conn s w))"

definition send_result ::
    "'w kernel \<Rightarrow> jrpc_connection \<Rightarrow> cjson option \<Rightarrow> cjson option \<Rightarrow> 'w \<Rightarrow> (int \<times> 'w) result" where
  "send_result K conn result idt w =
     (let result_root = cJSON_AddItemToObject cJSON_CreateObject ''result'' result;
          result_root = cJSON_AddItemToObject result_root ''id'' idt
      in bind_res (cJSON_Print result_root) (\<lambda>s. send_response K conn s w))"

section \<open>Requests\<close>

text \<open>The loop \<open>while (i--)\<close>: the last procedure of that name.\<close>

fun find_procedure :: "'f jrpc_procedure option list option \<Rightarrow> nat \<Rightarrow> string \<Rightarrow> 'f jrpc_procedure option result" where
  "find_procedure ps 0 nm = Inr None"
| "find_procedure ps (Suc i) nm =
     (case ps of
        None \<Rightarrow> Inl Null_Pointer
      | Some xs \<Rightarrow>
          if length xs \<le> i then Inl Out_Of_Bounds
          else case xs ! i of
              None \<Rightarrow> Inl Indeterminate
            | Some p \<Rightarrow> if proc_name p = nm then Inr (Some p) else find_procedure ps i nm)"

definition invoke_procedure ::
    "'w kernel \<Rightarrow> ('f, 'w) invoke \<Rightarrow> 'f jrpc_server \<Rightarrow> jrpc_connection \<Rightarrow> string \<Rightarrow> cjson option \<Rightarrow> cjson option
       \<Rightarrow> 'w \<Rightarrow> (int \<times> 'w) result" where
  "invoke_procedure K call server conn nm params idt w =
     bind_res (find_procedure (procedures server) (nat (procedure_count server)) nm) (\<lambda>p.
       case p of
         None \<Rightarrow> send_error K conn JRPC_METHOD_NOT_FOUND (Some ''Method not found.'') idt w
       | Some p \<Rightarrow>
           bind_res (call server (proc_function p) (proc_data p) params idt w) (\<lambda>(error_code, error_message, returned, w).
             if error_code \<noteq> 0 then send_error K conn error_code error_message idt w
             else send_result K conn returned idt w))"

definition copy_id :: "cjson option \<Rightarrow> cjson option result" where
  "copy_id idt =
     (case idt of
        None \<Rightarrow> Inr None
      | Some i \<Rightarrow>
          if item_type i = cJSON_String
          then (case valuestring i of None \<Rightarrow> Inl Null_Pointer | Some s \<Rightarrow> Inr (Some (cJSON_CreateString s)))
          else bind_res (cJSON_CreateNumber (d_of_int (valueint i))) (\<lambda>n. Inr (Some n)))"

definition eval_request ::
    "'w kernel \<Rightarrow> ('f, 'w) invoke \<Rightarrow> 'f jrpc_server \<Rightarrow> jrpc_connection \<Rightarrow> cjson \<Rightarrow> 'w \<Rightarrow> (int \<times> 'w) result" where
  "eval_request K call server conn req w =
     (let mthd = cJSON_GetObjectItem req ''method'';
          params = cJSON_GetObjectItem req ''params'';
          idt = cJSON_GetObjectItem req ''id'';
          invalid = bind_res
            (send_error K conn JRPC_INVALID_REQUEST (Some ''The JSON sent is not a valid Request object.'') None w)
            (\<lambda>(_, w). Inr (- 1, w))
      in case mthd of
           None \<Rightarrow> invalid
         | Some m \<Rightarrow>
             if item_type m \<noteq> cJSON_String then invalid
             else if (case params of None \<Rightarrow> False
                 | Some p \<Rightarrow> item_type p \<noteq> cJSON_Array \<and> item_type p \<noteq> cJSON_Object) then invalid
             else if (case idt of None \<Rightarrow> False
                 | Some i \<Rightarrow> item_type i \<noteq> cJSON_String \<and> item_type i \<noteq> cJSON_Number) then invalid
             else bind_res (copy_id idt) (\<lambda>id_copy.
               case valuestring m of
                 None \<Rightarrow> Inl Null_Pointer
               | Some nm \<Rightarrow> invoke_procedure K call server conn nm params id_copy w))"

section \<open>Connections\<close>

text \<open>\<open>None\<close> is a connection that is closed and freed.\<close>

definition close_connection :: "'w kernel \<Rightarrow> jrpc_connection \<Rightarrow> 'w \<Rightarrow> jrpc_connection option \<times> 'w" where
  "close_connection K conn w = (let (_, w) = k_close K (conn_fd conn) w in (None, w))"

text \<open>The buffer is doubled when it is full but for the terminator, and what is new is cleared.\<close>

definition grow_buffer :: "'w rpc_os \<Rightarrow> jrpc_connection \<Rightarrow> 'w \<Rightarrow> (jrpc_connection option \<times> 'w) result" where
  "grow_buffer N conn w =
     (if word_of_int (pos conn) = buffer_size conn - 1 then
        let conn = conn\<lparr>buffer_size := buffer_size conn * 2\<rparr>; (ok, w) = o_realloc N (unat (buffer_size conn)) w in
        if \<not> ok then Inr (None, w)
        else if unat (buffer_size conn) < nat (pos conn) then Inl Out_Of_Bounds
        else Inr (Some (conn\<lparr>conn_buffer :=
               take (nat (pos conn)) (conn_buffer conn) @
               replicate (unat (buffer_size conn) - nat (pos conn)) NUL\<rparr>), w)
      else Inr (Some conn, w))"

text \<open>
  What is done with the text after a request: it is moved to the front, but the position is then taken from
  \<open>strlen(end_ptr)\<close>, which reads the buffer after the move.
\<close>

definition discard_request :: "jrpc_connection \<Rightarrow> nat \<Rightarrow> jrpc_connection result" where
  "discard_request conn endp =
     bind_res (cstr_at (conn_buffer conn) endp) (\<lambda>rest.
       bind_res (memcpy (conn_buffer conn) 0 (conn_buffer conn) (int endp) (int (length rest) + 2)) (\<lambda>buf.
         bind_res (cstr_at buf endp) (\<lambda>rest'.
           let n = length rest'; len = uint (buffer_size conn - word_of_nat n - 1) in
           bind_res (memcpy buf (int n) (replicate (nat len) NUL) 0 len) (\<lambda>buf.
             Inr (conn\<lparr>conn_buffer := buf, pos := int n\<rparr>)))))"

text \<open>What is done with the buffer once something has been read into it.\<close>

definition process_buffer ::
    "'w kernel \<Rightarrow> json_env \<Rightarrow> ('f, 'w) invoke \<Rightarrow> 'f jrpc_server \<Rightarrow> jrpc_connection \<Rightarrow> 'w
       \<Rightarrow> (jrpc_connection option \<times> 'w) result" where
  "process_buffer K E call server conn w =
     bind_res (cJSON_Parse_Stream E (conn_buffer conn)) (\<lambda>(parsed, rest).
       let end_ptr = length (conn_buffer conn) - length rest in
       case parsed of
         Some r \<Rightarrow>
           bind_res (if item_type r = cJSON_Object then eval_request K call server conn r w else Inr (0, w)) (\<lambda>(_, w).
             bind_res (discard_request conn end_ptr) (\<lambda>conn. Inr (Some conn, w)))
       | None \<Rightarrow>
           if int end_ptr \<noteq> pos conn
           then bind_res (send_error K conn JRPC_PARSE_ERROR
                  (Some ''Parse error. Invalid JSON was received by the server.'') None w)
                (\<lambda>(_, w). Inr (close_connection K conn w))
           else Inr (Some conn, w))"

definition connection_cb ::
    "'w kernel \<Rightarrow> 'w rpc_os \<Rightarrow> json_env \<Rightarrow> ('f, 'w) invoke \<Rightarrow> 'f jrpc_server \<Rightarrow> jrpc_connection \<Rightarrow> 'w
       \<Rightarrow> (jrpc_connection option \<times> 'w) result" where
  "connection_cb K N E call server conn w =
     bind_res (grow_buffer N conn w) (\<lambda>(grown, w).
       case grown of
         None \<Rightarrow> Inr (close_connection K conn w)
       | Some conn \<Rightarrow>
           let max_read_size = sint (buffer_size conn - word_of_int (pos conn) - 1);
               (bytes_read, data, w) = k_read K (conn_fd conn) (unat (word_of_int max_read_size :: size_t)) w
           in if bytes_read = - 1 then Inr (close_connection K conn w)
              else if bytes_read = 0 then Inr (close_connection K conn w)
              else bind_res (memcpy (conn_buffer conn) (pos conn) (bytes_str data) 0 (int (length data))) (\<lambda>buf.
                process_buffer K E call server (conn\<lparr>conn_buffer := buf, pos := pos conn + bytes_read\<rparr>) w))"

definition accept_cb ::
    "'w rpc_os \<Rightarrow> 'f jrpc_server \<Rightarrow> int \<Rightarrow> 'w \<Rightarrow> jrpc_connection option \<times> 'w" where
  "accept_cb N server listen_fd w =
     (let (f, w) = o_accept N listen_fd w in
      if f = - 1 then (None, w)
      else (Some \<lparr>conn_fd = f, pos = 0, buffer_size = 1500, conn_buffer = replicate 1500 NUL,
                  conn_debug_level = debug_level server\<rparr>, w))"

section \<open>The table of procedures\<close>

text \<open>The name of a procedure is allocated, its data need not be.\<close>

definition jrpc_procedure_destroy :: "'f jrpc_procedure option \<Rightarrow> unit result" where
  "jrpc_procedure_destroy p =
     (case p of
        None \<Rightarrow> Inl Indeterminate
      | Some p \<Rightarrow> (case proc_data p of Static_Data s \<Rightarrow> Inl Invalid_Free | _ \<Rightarrow> Inr ()))"

fun destroy_all :: "'f jrpc_procedure option list \<Rightarrow> nat \<Rightarrow> unit result" where
  "destroy_all ps 0 = Inr ()"
| "destroy_all [] (Suc n) = Inl Out_Of_Bounds"
| "destroy_all (p # ps) (Suc n) = bind_res (jrpc_procedure_destroy p) (\<lambda>_. destroy_all ps n)"

definition jrpc_server_destroy :: "'f jrpc_server \<Rightarrow> unit result" where
  "jrpc_server_destroy server =
     (case procedures server of
        None \<Rightarrow> if 0 < procedure_count server then Inl Null_Pointer else Inr ()
      | Some ps \<Rightarrow> destroy_all ps (nat (procedure_count server)))"

text \<open>
  The count is incremented first. The first table is \<open>malloc\<close>ed for one entry without a check; later ones are reallocated
  for as many entries of 24 bytes as are counted, and a failure leaves the count as it is. Then the name is copied.
\<close>

definition jrpc_register_procedure ::
    "'w rpc_os \<Rightarrow> 'f jrpc_server \<Rightarrow> 'f \<Rightarrow> string \<Rightarrow> proc_data \<Rightarrow> 'w \<Rightarrow> (int \<times> 'f jrpc_server \<times> 'w) result" where
  "jrpc_register_procedure N server fptr nm data w =
     (let i = nat (procedure_count server); server = server\<lparr>procedure_count := procedure_count server + 1\<rparr>;
          (ok, w) = o_realloc N (24 * (i + 1)) w
      in if \<not> ok then (if procedures server = None then Inl Null_Pointer else Inr (- 1, server, w))
         else let ps = (case procedures server of None \<Rightarrow> [None]
                        | Some ps \<Rightarrow> take (Suc i) ps @ replicate (Suc i - length ps) None) in
           if length ps \<le> i then Inl Out_Of_Bounds
           else let (ok, w) = o_realloc N (length nm + 1) w in
             if \<not> ok then Inr (- 1, server\<lparr>procedures := Some (ps[i := None])\<rparr>, w)
             else let p = \<lparr>proc_name = nm, proc_function = fptr, proc_data = data\<rparr> in
               Inr (0, server\<lparr>procedures := Some (ps[i := Some p])\<rparr>, w))"

text \<open>The loop: from entry \<open>i\<close> on, after the entry was found the ones behind it move down by one.\<close>

function deregister_loop :: "'f jrpc_procedure option list \<Rightarrow> string \<Rightarrow> nat \<Rightarrow> nat \<Rightarrow> bool
    \<Rightarrow> (bool \<times> 'f jrpc_procedure option list) result" where
  "deregister_loop ps nm n i found =
     (if n \<le> i then Inr (found, ps)
      else if length ps \<le> i then Inl Out_Of_Bounds
      else if found then deregister_loop (ps[i - 1 := ps ! i]) nm n (Suc i) True
      else case ps ! i of
          None \<Rightarrow> Inl Indeterminate
        | Some p \<Rightarrow>
            if nm = proc_name p
            then bind_res (jrpc_procedure_destroy (Some p)) (\<lambda>_. deregister_loop ps nm n (Suc i) True)
            else deregister_loop ps nm n (Suc i) False)"
  by pat_completeness auto
termination
  by (relation "measure (\<lambda>(ps, nm, n, i, found). n - i)") auto

declare deregister_loop.simps [simp del]

definition jrpc_deregister_procedure ::
    "'w rpc_os \<Rightarrow> 'f jrpc_server \<Rightarrow> string \<Rightarrow> 'w \<Rightarrow> (int \<times> 'f jrpc_server \<times> 'w) result" where
  "jrpc_deregister_procedure N server nm w =
     (case procedures server of
        None \<Rightarrow> Inr (- 1, server, w)
      | Some ps \<Rightarrow>
          bind_res (deregister_loop ps nm (nat (procedure_count server)) 0 False) (\<lambda>(found, ps).
            if \<not> found then Inr (0, server\<lparr>procedures := Some ps\<rparr>, w)
            else let server = server\<lparr>procedures := Some ps, procedure_count := procedure_count server - 1\<rparr> in
              if procedure_count server \<noteq> 0 then
                let (ok, w) = o_realloc N (24 * nat (procedure_count server)) w in
                if \<not> ok then Inr (- 1, server, w)
                else Inr (0, server\<lparr>procedures := Some (take (nat (procedure_count server)) ps)\<rparr>, w)
              else Inr (0, server\<lparr>procedures := None\<rparr>, w)))"

section \<open>Starting the server\<close>

text \<open>
  The loop over the addresses: the first that can be bound, with its descriptor and the port it got.
  A failing \<open>setsockopt\<close> ends the process.
\<close>

fun bind_first ::
    "'w kernel \<Rightarrow> 'w rpc_os \<Rightarrow> (int \<times> int \<times> int \<times> byte list) list \<Rightarrow> 'w \<Rightarrow> ((int \<times> int) option \<times> 'w) result" where
  "bind_first K N [] w = Inr (None, w)"
| "bind_first K N ((fam, ty, proto, addr) # ps) w =
     (let (sockfd, w) = k_socket K fam ty proto w in
      if sockfd = - 1 then bind_first K N ps w
      else let (rv, w) = k_setsockopt K sockfd SOL_SOCKET SO_REUSEADDR (Opt_Int 1) w in
        if rv = - 1 then Inl (Exits 1)
        else let (rv, w) = o_bind N sockfd addr w in
          if rv = - 1 then let (_, w) = k_close K sockfd w in bind_first K N ps w
          else let (rv, port, w) = o_getsockname N sockfd w in
            if rv = - 1 then let (_, w) = k_close K sockfd w in bind_first K N ps w
            else Inr (Some (sockfd, int (unat (htons port))), w))"

text \<open>Also gives the descriptor that is listened on. The text of the port is written to six bytes.\<close>

definition jrpc_server_start ::
    "'w kernel \<Rightarrow> 'w rpc_os \<Rightarrow> 'f jrpc_server \<Rightarrow> 'w \<Rightarrow> (int \<times> int option \<times> 'f jrpc_server \<times> 'w) result" where
  "jrpc_server_start K N server w =
     bind_res (heap_string 6 (print_d (port_number server))) (\<lambda>port.
       let (rv, servinfo, w) = o_getaddrinfo N port w in
       if rv \<noteq> 0 then Inr (1, None, server, w)
       else bind_res (bind_first K N servinfo w) (\<lambda>(p, w).
         case p of
           None \<Rightarrow> Inr (2, None, server, w)
         | Some (sockfd, port) \<Rightarrow>
             let server = server\<lparr>port_number := port\<rparr>; (rv, w) = o_listen N sockfd 5 w in
             if rv = - 1 then Inl (Exits 1) else Inr (0, Some sockfd, server, w)))"

text \<open>\<open>strtol(s, NULL, 10)\<close>, kept in range, and its conversion to \<open>int\<close>.\<close>

definition strtol10 :: "string \<Rightarrow> int" where
  "strtol10 s =
     (let v = (case scan_d s of Scan_Int v \<Rightarrow> v | _ \<Rightarrow> 0)
      in to_int (max (- (2 ^ 63)) (min (2 ^ 63 - 1) v)))"

definition jrpc_server_init_with_ev_loop ::
    "'w kernel \<Rightarrow> 'w rpc_os \<Rightarrow> int \<Rightarrow> 'w \<Rightarrow> (int \<times> int option \<times> 'f jrpc_server \<times> 'w) result" where
  "jrpc_server_init_with_ev_loop K N port w =
     jrpc_server_start K N
       \<lparr>port_number = port, procedure_count = 0, procedures = None,
        debug_level = (case o_getenv N ''JRPC_DEBUG'' w of None \<Rightarrow> 0 | Some s \<Rightarrow> strtol10 s)\<rparr> w"

section \<open>The event loop\<close>

text \<open>\<open>o_ev_break\<close> is libev's request to leave the loop after this turn.\<close>

definition jrpc_server_stop :: "'w rpc_os \<Rightarrow> 'w \<Rightarrow> int \<times> 'w" where
  "jrpc_server_stop N w = (0, o_ev_break N w)"

text \<open>
  One turn of the loop: a client connects, or a connection has something to be read. The state is the list of
  open connections and the world.
\<close>

inductive serve_step :: "'w kernel \<Rightarrow> 'w rpc_os \<Rightarrow> json_env \<Rightarrow> ('f, 'w) invoke \<Rightarrow> 'f jrpc_server \<Rightarrow> int
    \<Rightarrow> jrpc_connection list \<times> 'w \<Rightarrow> jrpc_connection list \<times> 'w \<Rightarrow> bool"
  for K N E call server listen_fd where
  accepted: "accept_cb N server listen_fd w = (Some c, w') \<Longrightarrow>
    serve_step K N E call server listen_fd (cs, w) (cs @ [c], w')"
| refused: "accept_cb N server listen_fd w = (None, w') \<Longrightarrow>
    serve_step K N E call server listen_fd (cs, w) (cs, w')"
| served: "i < length cs \<Longrightarrow> connection_cb K N E call server (cs ! i) w = Inr (Some c, w') \<Longrightarrow>
    serve_step K N E call server listen_fd (cs, w) (cs[i := c], w')"
| closed: "i < length cs \<Longrightarrow> connection_cb K N E call server (cs ! i) w = Inr (None, w') \<Longrightarrow>
    serve_step K N E call server listen_fd (cs, w) (take i cs @ drop (Suc i) cs, w')"

text \<open>The buffer has its size, an even number in the range of \<open>int\<close>, and is clear from the position on; at least the last byte is.\<close>

definition conn_ok :: "jrpc_connection \<Rightarrow> bool" where
  "conn_ok c \<longleftrightarrow> even (unat (buffer_size c)) \<and> unat (buffer_size c) < 2 ^ 31 \<and>
     length (conn_buffer c) = unat (buffer_size c) \<and> 0 \<le> pos c \<and> nat (pos c) < unat (buffer_size c) \<and>
     drop (nat (pos c)) (conn_buffer c) = replicate (unat (buffer_size c) - nat (pos c)) NUL"

lemma conn_okI:
  assumes "conn_buffer c = xs @ replicate (Suc n) NUL" "unat (buffer_size c) = length xs + Suc n"
    "pos c = int (length xs)" "even (unat (buffer_size c))" "unat (buffer_size c) < 2 ^ 31"
  shows "conn_ok c"
  using assms by (simp add: conn_ok_def)

lemma conn_okE:
  assumes "conn_ok c"
  obtains xs n where "conn_buffer c = xs @ replicate (Suc n) NUL" "unat (buffer_size c) = length xs + Suc n"
    "pos c = int (length xs)"
proof -
  define n where "n = unat (buffer_size c) - Suc (nat (pos c))"
  have p: "nat (pos c) < unat (buffer_size c)" "0 \<le> pos c" using assms by (auto simp: conn_ok_def)
  then have s: "unat (buffer_size c) - nat (pos c) = Suc n" by (simp add: n_def)
  have "conn_buffer c = take (nat (pos c)) (conn_buffer c) @ replicate (Suc n) NUL"
    using assms append_take_drop_id [of "nat (pos c)" "conn_buffer c"] by (simp add: conn_ok_def s del: replicate.simps)
  moreover have "length (take (nat (pos c)) (conn_buffer c)) = nat (pos c)" using assms p by (simp add: conn_ok_def)
  ultimately show thesis using that [of "take (nat (pos c)) (conn_buffer c)" n] p s by simp
qed

lemma word_minus_nat:
  "m \<le> unat (w :: 'a::len word) \<Longrightarrow> unat (w - word_of_nat m) = unat w - m"
proof -
  assume m: "m \<le> unat w"
  then have "unat (word_of_nat m :: 'a word) = m"
    by (intro word_of_nat_unat_small) (meson le_less_trans unsigned_less)
  with m show ?thesis by (simp add: unat_sub word_le_nat_alt)
qed

lemma grow_buffer_ok:
  assumes "conn_ok c" "grow_buffer N c w = Inr (Some c', w')"
    "\<forall>n w. fst (o_realloc N n w) \<longrightarrow> n < 2 ^ 31"
  shows "conn_ok c' \<and> conn_fd c' = conn_fd c \<and> pos c' = pos c"
proof -
  obtain xs n where c: "conn_buffer c = xs @ replicate (Suc n) NUL" "unat (buffer_size c) = length xs + Suc n"
    "pos c = int (length xs)" using assms(1) by (rule conn_okE)
  show ?thesis
  proof (cases "word_of_int (pos c) = buffer_size c - 1")
    case True
    have even_double: "even (unat (buffer_size c * 2))"
      by (simp add: unat_mult_lem unat_word_ariths(2) dvd_mod)
    obtain ok w1 where r: "o_realloc N (unat (buffer_size c * 2)) w = (ok, w1)"
      by (cases "o_realloc N (unat (buffer_size c * 2)) w") auto
    have s: "length xs \<le> unat (buffer_size c * 2)" "c' = c\<lparr>buffer_size := buffer_size c * 2,
        conn_buffer := xs @ replicate (unat (buffer_size c * 2) - length xs) NUL\<rparr>"
      using assms(2) True r c(1,3) by (auto simp: grow_buffer_def Let_def split: if_splits)
    have "ok" using assms(2) True r by (auto simp: grow_buffer_def Let_def split: if_splits)
    with assms(3) r have small: "unat (buffer_size c * 2) < 2 ^ 31" by (metis fst_conv)
    have "length xs \<noteq> unat (buffer_size c * 2)"
    proof
      assume e: "length xs = unat (buffer_size c * 2)"
      have "length xs < 2 ^ 32" using c(2) unsigned_less [of "buffer_size c", where 'a = nat] by simp
      then have "unat (word_of_nat (length xs) :: u32) = length xs" by (intro word_of_nat_unat_small) simp
      then have "length xs = unat (buffer_size c - 1)" using True c(3) by simp
      also have "\<dots> = unat (buffer_size c) - 1" using word_minus_nat [of 1 "buffer_size c"] c(2) by simp
      finally have "odd (length xs)" using assms(1) c(2) by (simp add: conn_ok_def)
      then show False using e even_double by simp
    qed
    then obtain k where k: "unat (buffer_size c * 2) = length xs + Suc k"
      using s(1) by (metis add_Suc_right le_imp_less_or_eq less_imp_Suc_add)
    have "conn_ok c'" unfolding s(2) using k c(3) even_double small by (intro conn_okI [of _ xs k]) simp_all
    then show ?thesis by (simp add: s(2))
  next
    case False
    then show ?thesis using assms by (simp add: grow_buffer_def)
  qed
qed

lemma read_cstr_length: "read_cstr buf = Inr s \<Longrightarrow> length s < length buf \<and> buf ! length s = NUL \<and> s = take (length s) buf"
proof (induction buf arbitrary: s)
  case (Cons c buf)
  then show ?case by (cases "c = NUL") (auto simp: read_cstr_def cstr_def split: if_splits)
qed (simp add: read_cstr_def)

lemma discard_request_ok:
  assumes "conn_ok c" "discard_request c endp = Inr c'"
  shows "conn_ok c'"
proof -
  define s where "s = unat (buffer_size c)"
  obtain xs k where c: "conn_buffer c = xs @ replicate (Suc k) NUL" "unat (buffer_size c) = length xs + Suc k"
    using assms(1) by (rule conn_okE)
  have len: "length (conn_buffer c) = s" and last: "conn_buffer c ! (s - 1) = NUL" and s0: "0 < s"
    using c by (simp_all add: s_def nth_append nth_replicate del: replicate.simps)
  from assms(2) obtain r b1 r' b2 where
    r: "cstr_at (conn_buffer c) endp = Inr r"
    and b1: "memcpy (conn_buffer c) 0 (conn_buffer c) (int endp) (int (length r) + 2) = Inr b1"
    and r': "cstr_at b1 endp = Inr r'"
    and b2: "memcpy b1 (int (length r')) (replicate (nat (uint (buffer_size c - word_of_nat (length r') - 1))) NUL) 0
      (uint (buffer_size c - word_of_nat (length r') - 1)) = Inr b2"
    and c': "c' = c\<lparr>conn_buffer := b2, pos := int (length r')\<rparr>"
    by (auto simp: discard_request_def Let_def)
  have l1: "length b1 = s" using memcpy_length [OF b1] len by simp
  have l2: "length b2 = s" using memcpy_length [OF b2] l1 by simp
  have n: "length r' < s" using r' read_cstr_length [of "drop endp b1" r'] l1 by (auto simp: cstr_at_def split: if_splits)
  have e: "endp + length r + 2 \<le> s" using b1 len by (auto simp: memcpy_def split: if_splits)
  have b1': "b1 = take (length r + 2) (drop endp (conn_buffer c)) @ drop (length r + 2) (conn_buffer c)"
    using b1 by (auto simp: memcpy_def nat_add_distrib split: if_splits)
  have last1: "b1 ! (s - 1) = NUL"
  proof (cases "length r + 2 = s")
    case True
    then have "endp = 0" using e by simp
    then show ?thesis using True last len by (simp add: b1')
  next
    case False
    then have m: "length r + 2 \<le> s - 1" using e by simp
    have "length (take (length r + 2) (drop endp (conn_buffer c))) = length r + 2" using e len by simp
    then have "b1 ! (s - 1) = drop (length r + 2) (conn_buffer c) ! (s - 1 - (length r + 2))"
      unfolding b1' using m by (simp add: nth_append)
    also have "\<dots> = conn_buffer c ! (length r + 2 + (s - 1 - (length r + 2)))"
      using m len by (intro nth_drop) simp
    also have "length r + 2 + (s - 1 - (length r + 2)) = s - 1" using m by simp
    finally show ?thesis using last by simp
  qed
  define m where "m = s - Suc (length r')"
  have "unat (buffer_size c - word_of_nat (Suc (length r'))) = m" unfolding m_def s_def
    by (rule word_minus_nat) (use n in \<open>simp add: s_def\<close>)
  then have u: "unat (buffer_size c - word_of_nat (length r') - 1) = m" by (simp add: algebra_simps)
  have u: "uint (buffer_size c - word_of_nat (length r') - 1) = int m" by (simp only: uint_nat u)
  have "b2 = take (length r') b1 @ replicate m NUL @ drop (length r' + m) b1"
  proof -
    have "memcpy b1 (int (length r')) (replicate m NUL) 0 (int m) = Inr b2" using b2 unfolding u by simp
    moreover have "length r' + m \<le> length b1" using l1 n by (simp add: m_def)
    ultimately show ?thesis using memcpy_nat [of "length r'" m b1 0 "replicate m NUL"] by simp
  qed
  moreover have "drop (length r' + m) b1 = [NUL]"
  proof -
    have i: "length r' + m = s - 1" "s - 1 < length b1" using n l1 by (simp_all add: m_def)
    have "drop (s - 1) b1 = b1 ! (s - 1) # drop (Suc (s - 1)) b1" using i(2) by (simp add: Cons_nth_drop_Suc)
    then show ?thesis unfolding i(1) using last1 l1 s0 by simp
  qed
  ultimately have "b2 = take (length r') b1 @ replicate (Suc m) NUL" by (simp add: replicate_append_same)
  then show ?thesis unfolding c'
    using n l1 assms(1) by (intro conn_okI [of _ "take (length r') b1" m]) (simp_all add: s_def [symmetric] m_def conn_ok_def)
qed


lemma accept_cb_ok: "accept_cb N server f w = (Some c, w') \<Longrightarrow> conn_ok c"
  by (auto simp: accept_cb_def Let_def split: prod.splits if_splits intro!: conn_okI [of _ "[]" 1499])

text \<open>The part after the read, where the buffer has been filled to the new position.\<close>

lemma store_read_ok:
  assumes "conn_ok c" "reply_ok n ret data" "ret \<noteq> - 1" "nat (pos c) + n < unat (buffer_size c)"
    "memcpy (conn_buffer c) (pos c) (bytes_str data) 0 (int (length data)) = Inr buf"
  shows "conn_ok (c\<lparr>conn_buffer := buf, pos := pos c + ret\<rparr>)"
proof -
  obtain xs k where c: "conn_buffer c = xs @ replicate (Suc k) NUL" "unat (buffer_size c) = length xs + Suc k"
    "pos c = int (length xs)" using assms(1) by (rule conn_okE)
  have ret: "ret = int (length data)" "length data \<le> n" using assms(2,3) by (auto simp: reply_ok_def)
  then have d: "length data \<le> k" using assms(4) c by simp
  have "buf = xs @ bytes_str data @ drop (length xs + length data) (conn_buffer c)"
    using assms(5) memcpy_nat [of "length xs" "length data" "conn_buffer c" 0 "bytes_str data"] c d by simp
  also have "drop (length xs + length data) (conn_buffer c) = replicate (Suc (k - length data)) NUL"
    using d by (simp add: c(1) Suc_diff_le del: replicate.simps)
  finally have b: "buf = (xs @ bytes_str data) @ replicate (Suc (k - length data)) NUL" by simp
  show ?thesis
    using assms(1) c d ret by (intro conn_okI [OF _ _ _, of _ "xs @ bytes_str data" "k - length data"])
      (simp_all add: b conn_ok_def)
qed

lemma read_room:
  assumes "conn_ok c"
  shows "nat (pos c) + unat (word_of_int (sint (buffer_size c - word_of_int (pos c) - 1)) :: size_t) < unat (buffer_size c)"
proof -
  obtain xs k where c: "conn_buffer c = xs @ replicate (Suc k) NUL" "unat (buffer_size c) = length xs + Suc k"
    "pos c = int (length xs)" using assms by (rule conn_okE)
  have "unat (buffer_size c - word_of_nat (Suc (length xs))) = k"
    using word_minus_nat [of "Suc (length xs)" "buffer_size c"] c(2) by simp
  then have u: "unat (buffer_size c - word_of_int (pos c) - 1) = k" by (simp add: c(3) algebra_simps)
  have k: "k < 2 ^ 31" using assms c(2) by (simp add: conn_ok_def)
  then have "sint (buffer_size c - word_of_int (pos c) - 1) = int k" using u by (simp add: sint_eq_unat)
  moreover have "unat (word_of_int (int k) :: size_t) = k"
    using k by (simp only: word_of_int_int) (rule word_of_nat_unat_small, simp)
  ultimately show ?thesis using c by simp
qed

text \<open>What the system calls promise: a read gives at most what was asked for, and no two gigabytes are to be had.\<close>

definition reads_ok :: "'w kernel \<Rightarrow> bool" where
  "reads_ok K \<longleftrightarrow> (\<forall>f n w. case k_read K f n w of (ret, data, _) \<Rightarrow> reply_ok n ret data)"

definition memory_bounded :: "'w rpc_os \<Rightarrow> bool" where
  "memory_bounded N \<longleftrightarrow> (\<forall>n w. fst (o_realloc N n w) \<longrightarrow> n < 2 ^ 31)"

lemma process_buffer_ok:
  assumes "conn_ok c" "process_buffer K E call server c w = Inr (Some c', w')"
  shows "conn_ok c'"
proof -
  from assms(2) have "c' = c \<or> (\<exists>k. discard_request c k = Inr c')"
    by (auto simp: process_buffer_def close_connection_def Let_def split: option.splits prod.splits if_splits)
  then show ?thesis using assms(1) discard_request_ok by blast
qed

lemma connection_cb_split:
  assumes "connection_cb K N E call server c w = Inr (Some c', w')"
  obtains c1 w1 n ret data w2 buf where
    "grow_buffer N c w = Inr (Some c1, w1)"
    "n = unat (word_of_int (sint (buffer_size c1 - word_of_int (pos c1) - 1)) :: size_t)"
    "k_read K (conn_fd c1) n w1 = (ret, data, w2)" "ret \<noteq> - 1" "ret \<noteq> 0"
    "memcpy (conn_buffer c1) (pos c1) (bytes_str data) 0 (int (length data)) = Inr buf"
    "process_buffer K E call server (c1\<lparr>conn_buffer := buf, pos := pos c1 + ret\<rparr>) w2 = Inr (Some c', w')"
proof -
  obtain g w1 where g: "grow_buffer N c w = Inr (g, w1)" using assms by (auto simp: connection_cb_def)
  obtain c1 where c1: "g = Some c1"
    using assms g by (cases g) (auto simp: connection_cb_def close_connection_def split: prod.splits)
  define n where "n = unat (word_of_int (sint (buffer_size c1 - word_of_int (pos c1) - 1)) :: size_t)"
  obtain ret data w2 where r: "k_read K (conn_fd c1) n w1 = (ret, data, w2)"
    by (cases "k_read K (conn_fd c1) n w1") auto
  have cb: "connection_cb K N E call server c w =
    (if ret = - 1 then Inr (close_connection K c1 w2)
     else if ret = 0 then Inr (close_connection K c1 w2)
     else bind_res (memcpy (conn_buffer c1) (pos c1) (bytes_str data) 0 (int (length data))) (\<lambda>buf.
       process_buffer K E call server (c1\<lparr>conn_buffer := buf, pos := pos c1 + ret\<rparr>) w2))"
    unfolding connection_cb_def g c1 n_def using r [unfolded n_def] by (simp add: Let_def)
  have ret: "ret \<noteq> - 1" "ret \<noteq> 0"
    using assms unfolding cb by (auto simp: close_connection_def split: prod.splits if_splits)
  with assms obtain buf where
    "memcpy (conn_buffer c1) (pos c1) (bytes_str data) 0 (int (length data)) = Inr buf"
    "process_buffer K E call server (c1\<lparr>conn_buffer := buf, pos := pos c1 + ret\<rparr>) w2 = Inr (Some c', w')"
    unfolding cb by auto
  with that g c1 n_def r ret show thesis by blast
qed

lemma connection_cb_ok:
  assumes "conn_ok c" "reads_ok K" "memory_bounded N" "connection_cb K N E call server c w = Inr (Some c', w')"
  shows "conn_ok c'"
proof -
  obtain c1 w1 n ret data w2 buf where
    g: "grow_buffer N c w = Inr (Some c1, w1)"
    and n: "n = unat (word_of_int (sint (buffer_size c1 - word_of_int (pos c1) - 1)) :: size_t)"
    and r: "k_read K (conn_fd c1) n w1 = (ret, data, w2)" "ret \<noteq> - 1" "ret \<noteq> 0"
    and buf: "memcpy (conn_buffer c1) (pos c1) (bytes_str data) 0 (int (length data)) = Inr buf"
    and p: "process_buffer K E call server (c1\<lparr>conn_buffer := buf, pos := pos c1 + ret\<rparr>) w2 = Inr (Some c', w')"
    using assms(4) by (rule connection_cb_split)
  have c1: "conn_ok c1" using grow_buffer_ok [OF assms(1) g] assms(3) by (simp add: memory_bounded_def)
  have rep: "reply_ok n ret data"
    using assms(2) [unfolded reads_ok_def, rule_format, where f = "conn_fd c1" and n = n and w = w1] by (simp add: r)
  have "conn_ok (c1\<lparr>conn_buffer := buf, pos := pos c1 + ret\<rparr>)"
    by (rule store_read_ok [OF c1 rep r(2) _ buf]) (use read_room [OF c1] n in \<open>simp only:\<close>)
  then show ?thesis using p by (rule process_buffer_ok)
qed

text \<open>
  Property C8. However clients connect, send and close, and whatever they send, the buffer of every open connection
  has the size that is recorded for it and is zero from the position to its end, so that the text in it is
  terminated whenever the parser runs, for all system calls that keep their promises.
\<close>
theorem rpc_buffers:
  assumes "(serve_step K N E call server listen_fd)\<^sup>*\<^sup>* ([], w0) (cs, w)" "reads_ok K" "memory_bounded N"
    "c \<in> set cs"
  shows "length (conn_buffer c) = unat (buffer_size c) \<and> 0 \<le> pos c \<and> nat (pos c) < unat (buffer_size c) \<and>
    (\<forall>i. nat (pos c) \<le> i \<and> i < unat (buffer_size c) \<longrightarrow> conn_buffer c ! i = NUL)"
proof -
  have "\<forall>c \<in> set (fst (cs, w)). conn_ok c" using assms(1)
  proof (induction rule: rtranclp_induct)
    case (step s t)
    from step.hyps(2) step.IH show ?case
    proof cases
      case (served i cs w c w')
      then have "conn_ok c" using step.IH assms(2,3) by (auto intro: connection_cb_ok)
      then show ?thesis using served step.IH by (auto dest: set_update_subset_insert [THEN subsetD])
    next
      case (closed i cs w w')
      then show ?thesis using step.IH by (auto dest: in_set_takeD in_set_dropD)
    qed (auto dest: accept_cb_ok)
  qed simp
  then have c: "conn_ok c" using assms(4) by simp
  have "conn_buffer c ! i = NUL" if i: "nat (pos c) \<le> i" "i < unat (buffer_size c)" for i
  proof -
    have "conn_buffer c ! i = drop (nat (pos c)) (conn_buffer c) ! (i - nat (pos c))"
      using i c by (subst nth_drop) (simp_all add: conn_ok_def)
    also have "\<dots> = replicate (unat (buffer_size c) - nat (pos c)) NUL ! (i - nat (pos c))"
      using c by (simp only: conn_ok_def)
    also have "\<dots> = NUL" using i by simp
    finally show ?thesis .
  qed
  then show ?thesis using c by (simp add: conn_ok_def)
qed

text \<open>
  The text after a request is moved to the front first, and its length is then read at the place where it was.
\<close>

lemma discard_request_eq:
  assumes "conn_buffer c = req @ rest @ replicate (k + 2) NUL" "unat (buffer_size c) = length (conn_buffer c)"
    "c_string rest" "n = (if length rest + 2 \<le> length req then length rest else length rest - length req)"
  shows "discard_request c (length req) = Inr (c\<lparr>conn_buffer := take n rest @
    replicate (length (conn_buffer c) - n) NUL, pos := int n\<rparr>)"
proof -
  define B where "B = conn_buffer c"
  define s where "s = length req + length rest + k + 2"
  have B: "B = req @ rest @ NUL # NUL # replicate k NUL" "length B = s"
    using assms(1) by (simp_all add: B_def s_def)
  have rep: "replicate (Suc j) NUL = replicate j NUL @ [NUL]" for j by (simp add: replicate_append_same)
  have last: "drop (s - 1) B = [NUL]"
  proof -
    have "B = (req @ rest @ replicate (Suc k) NUL) @ [NUL]" using assms(1) rep [of "Suc k"] by (simp add: B_def)
    moreover have "s - 1 = length (req @ rest @ replicate (Suc k) NUL)" by (simp add: s_def)
    ultimately show ?thesis by (simp only: append_eq_conv_conj) simp
  qed
  have r: "cstr_at B (length req) = Inr rest" using assms(3) by (simp add: cstr_at_def B(1))
  define b1 where "b1 = rest @ NUL # NUL # drop (length rest + 2) B"
  have "memcpy B 0 B (int (length req)) (int (length rest + 2)) = Inr b1"
    using memcpy_nat [of 0 "length rest + 2" B "length req" B] B by (simp add: b1_def s_def)
  then have b1: "memcpy B 0 B (int (length req)) (int (length rest) + 2) = Inr b1" by (simp add: algebra_simps)
  have len1: "length b1 = s" using memcpy_length [OF b1] B by simp
  define rest' where "rest' = drop (length rest - n) rest"
  have r': "cstr_at b1 (length req) = Inr rest'"
  proof -
    consider "length rest + 2 \<le> length req" | "length req \<le> length rest" | "length req = Suc (length rest)" by linarith
    then show ?thesis
    proof cases
      case 1
      then obtain d where d: "length req = length rest + 2 + d" using le_Suc_ex by blast
      have "drop (length req) b1 = drop (length req) B" unfolding d by (simp add: b1_def add.commute)
      then have "drop (length req) b1 = rest @ NUL # NUL # replicate k NUL" by (simp add: B(1))
      then show ?thesis using 1 assms(3,4) len1 by (simp add: cstr_at_def rest'_def s_def)
    next
      case 2
      then have "drop (length req) b1 = drop (length req) rest @ NUL # NUL # drop (length rest + 2) B" by (simp add: b1_def)
      moreover have "c_string (drop (length req) rest)" using assms(3) by (auto simp: c_string_def dest: in_set_dropD)
      ultimately show ?thesis using 2 assms(4) len1 by (simp add: cstr_at_def rest'_def s_def)
    next
      case 3
      then have "drop (length req) b1 = NUL # drop (length rest + 2) B" by (simp add: b1_def)
      then show ?thesis
        using 3 assms(4) len1 read_cstr_terminated [of "[]" "drop (length rest + 2) B"]
        by (simp add: cstr_at_def rest'_def s_def)
    qed
  qed
  have n: "n \<le> length rest" "length rest' = n" using assms(4) by (auto simp: rest'_def)
  have s: "s < 2 ^ 32" using unsigned_less [of "buffer_size c", where 'a = nat] assms(2) B(2) by (simp add: B_def)
  define m where "m = s - Suc n"
  have "unat (buffer_size c - word_of_nat (Suc n)) = m" unfolding m_def
    using word_minus_nat [of "Suc n" "buffer_size c"] assms(2) B(2) n by (simp add: B_def s_def)
  then have u0: "unat (buffer_size c - word_of_nat n - 1) = m" by (simp add: algebra_simps)
  then have u: "uint (buffer_size c - word_of_nat n - 1) = int m" by (simp only: uint_nat)
  have nm: "n + m = s - 1" using n by (simp add: m_def s_def)
  have "memcpy b1 (int n) (replicate m NUL) 0 (int m) = Inr (take n b1 @ replicate m NUL @ drop (n + m) b1)"
    using memcpy_nat [of n m b1 0 "replicate m NUL"] nm len1 by simp
  also have "drop (n + m) b1 = [NUL]"
  proof (cases "length rest + 2 \<le> s - 1")
    case True
    then obtain d where d: "s - 1 = length rest + 2 + d" using le_Suc_ex by blast
    have "drop (n + m) b1 = drop (s - 1) B" unfolding nm d by (simp add: b1_def add.commute)
    with last show ?thesis by simp
  next
    case False
    then have "length req = 0" "k = 0" unfolding s_def by linarith+
    then show ?thesis unfolding nm by (simp add: b1_def s_def B(1))
  qed
  also have "take n b1 = take n rest" using n by (simp add: b1_def)
  finally have b2: "memcpy b1 (int n) (replicate m NUL) 0 (int m) = Inr (take n rest @ replicate (Suc m) NUL)"
    by (simp only: rep append_assoc)
  have "Suc m = length (conn_buffer c) - n" using n B by (simp add: m_def s_def B_def [symmetric])
  then show ?thesis
    using r b1 r' u u0 b2 n by (simp add: discard_request_def B_def [symmetric] del: replicate.simps)
qed

section \<open>Requests and their answers\<close>

definition json_find :: "string \<Rightarrow> (string \<times> json) list \<Rightarrow> (string \<times> json) option" where
  "json_find k kvs = find (\<lambda>(k', v). map tolower k' = map tolower k) kvs"

definition json_get :: "string \<Rightarrow> (string \<times> json) list \<Rightarrow> json option" where
  "json_get k kvs = map_option snd (json_find k kvs)"

lemma get_tree:
  "cJSON_GetObjectItem (json_tree (JObj kvs)) k =
     map_option (\<lambda>(k', v). set_item_string (Some k') (json_tree v)) (json_find k kvs)"
  by (induction kvs) (auto simp: cJSON_GetObjectItem_def json_find_def strcasecmp_Some)

lemma add_tree:
  "cJSON_AddItemToObject (json_tree (JObj kvs)) k (Some (json_tree v)) = json_tree (JObj (kvs @ [(k, v)]))"
  by (simp add: cJSON_AddItemToObject_def cJSON_AddItemToArray_def)

lemma create_object_tree: "cJSON_CreateObject = json_tree (JObj [])"
  by (simp add: cJSON_CreateObject_def)

lemma item_set_simps [simp]:
  "item_type (set_item_string k c) = item_type c" "valuestring (set_item_string k c) = valuestring c"
  "valueint (set_item_string k c) = valueint c"
  by (cases c; simp)+

lemma create_number_tree: "in_int i \<Longrightarrow> cJSON_CreateNumber (d_of_int i) = Inr (json_tree (JInt i))"
  by (simp add: cJSON_CreateNumber_def d_of_int_value)

text \<open>The answer, and what is written for it.\<close>

definition json_id :: "json option \<Rightarrow> (string \<times> json) list" where
  "json_id idt = (case idt of None \<Rightarrow> [] | Some v \<Rightarrow> [(''id'', v)])"

definition rpc_reply :: "json \<Rightarrow> json option \<Rightarrow> json" where
  "rpc_reply r idt = JObj ((''result'', r) # json_id idt)"

definition rpc_failure :: "int \<Rightarrow> string \<Rightarrow> json option \<Rightarrow> json" where
  "rpc_failure code msg idt = JObj ((''error'', JObj [(''code'', JInt code), (''message'', JStr msg)]) # json_id idt)"

definition write_line :: "'w kernel \<Rightarrow> int \<Rightarrow> json \<Rightarrow> 'w \<Rightarrow> 'w" where
  "write_line K f v w =
     snd (k_write K f (str_bytes [CHR 0x0A]) (snd (k_write K f (str_bytes (json_text True 0 v)) w)))"

lemma send_response_line:
  "send_response K conn (Some (json_text True 0 v)) w = Inr (0, write_line K (conn_fd conn) v w)"
  by (simp add: send_response_def write_line_def Let_def case_prod_unfold)

lemma add_id_tree:
  "cJSON_AddItemToObject (json_tree (JObj kvs)) ''id'' (map_option json_tree idt) = json_tree (JObj (kvs @ json_id idt))"
  by (cases idt) (simp_all add: json_id_def add_tree del: json_tree.simps, simp add: cJSON_AddItemToObject_def)

lemma send_result_line:
  assumes "json_ok (rpc_reply r idt)"
  shows "send_result K conn (Some (json_tree r)) (map_option json_tree idt) w =
    Inr (0, write_line K (conn_fd conn) (rpc_reply r idt) w)"
proof -
  have "cJSON_Print (json_tree (rpc_reply r idt)) = Inr (Some (json_text True 0 (rpc_reply r idt)))"
    unfolding cJSON_Print_def using assms by (rule print_tree)
  then show ?thesis
    by (simp add: send_result_def create_object_tree add_tree add_id_tree Let_def send_response_line rpc_reply_def
        del: json_tree.simps json_text.simps)
qed

lemma send_error_line:
  assumes "json_ok (rpc_failure code msg idt)"
  shows "send_error K conn code (Some msg) (map_option json_tree idt) w =
    Inr (0, write_line K (conn_fd conn) (rpc_failure code msg idt) w)"
proof -
  have "cJSON_Print (json_tree (rpc_failure code msg idt)) = Inr (Some (json_text True 0 (rpc_failure code msg idt)))"
    unfolding cJSON_Print_def using assms by (rule print_tree)
  moreover have "in_int code" using assms by (simp add: rpc_failure_def)
  moreover have "cJSON_CreateString msg = json_tree (JStr msg)" by simp
  ultimately show ?thesis
    by (simp add: send_error_def create_number_tree create_object_tree add_tree add_id_tree Let_def send_response_line
        rpc_failure_def del: json_tree.simps json_text.simps)
qed

text \<open>A request: a string for the method, an array or object for the parameters, a string or number for the id.\<close>

definition rpc_request :: "(string \<times> json) list \<Rightarrow> string \<Rightarrow> json option \<Rightarrow> json option \<Rightarrow> bool" where
  "rpc_request kvs m ps idt \<longleftrightarrow>
     json_get ''method'' kvs = Some (JStr m) \<and> json_get ''params'' kvs = ps \<and> json_get ''id'' kvs = idt \<and>
     (case ps of Some (JArr _) \<Rightarrow> True | Some (JObj _) \<Rightarrow> True | None \<Rightarrow> True | _ \<Rightarrow> False) \<and>
     (case idt of Some (JStr _) \<Rightarrow> True | Some (JInt _) \<Rightarrow> True | None \<Rightarrow> True | _ \<Rightarrow> False)"

definition rpc_params :: "(string \<times> json) list \<Rightarrow> cjson option" where
  "rpc_params kvs = map_option (\<lambda>(k, v). set_item_string (Some k) (json_tree v)) (json_find ''params'' kvs)"

lemma json_find_ok: "json_ok (JObj kvs) \<Longrightarrow> json_get k kvs = Some v \<Longrightarrow> json_ok v"
proof -
  assume "json_ok (JObj kvs)" "json_get k kvs = Some v"
  moreover obtain k' where "(k', v) \<in> set kvs"
    using \<open>json_get k kvs = Some v\<close> by (auto simp: json_get_def json_find_def find_Some_iff) (metis nth_mem)
  ultimately show ?thesis by auto
qed

lemma eval_request_tree:
  assumes "rpc_request kvs m ps idt" "json_ok (JObj kvs)"
  shows "eval_request K call server conn (json_tree (JObj kvs)) w =
    invoke_procedure K call server conn m (rpc_params kvs) (map_option json_tree idt) w"
proof -
  obtain km where m: "json_find ''method'' kvs = Some (km, JStr m)"
    using assms(1) by (auto simp: rpc_request_def json_get_def)
  have p: "\<not> (case rpc_params kvs of None \<Rightarrow> False
      | Some p \<Rightarrow> item_type p \<noteq> cJSON_Array \<and> item_type p \<noteq> cJSON_Object)"
    using assms(1) by (auto simp: rpc_request_def json_get_def rpc_params_def split: option.splits json.splits)
  define im where "im = map_option (\<lambda>(k, v). set_item_string (Some k) (json_tree v)) (json_find ''id'' kvs)"
  have i: "\<not> (case im of None \<Rightarrow> False | Some i \<Rightarrow> item_type i \<noteq> cJSON_String \<and> item_type i \<noteq> cJSON_Number)"
    using assms(1) by (auto simp: rpc_request_def json_get_def im_def cJSON_CreateString_def split: option.splits json.splits)
  have c: "copy_id im = Inr (map_option json_tree idt)"
  proof (cases "json_find ''id'' kvs")
    case None
    then show ?thesis using assms(1) by (auto simp: rpc_request_def json_get_def im_def copy_id_def)
  next
    case (Some kv)
    obtain k v where kv: "kv = (k, v)" by (cases kv)
    then have v: "idt = Some v" "json_ok v"
      using assms Some json_find_ok [OF assms(2), of "''id''" v] by (auto simp: rpc_request_def json_get_def)
    then show ?thesis
      using assms(1) Some kv
      by (cases v)
        (auto simp: rpc_request_def im_def copy_id_def cJSON_CreateString_def json_types create_number_tree)
  qed
  show ?thesis
    using p i c
    by (simp add: eval_request_def get_tree m rpc_params_def [symmetric] im_def [symmetric] cJSON_CreateString_def
        Let_def del: json_tree.simps(6))
qed

lemma parse_request:
  assumes "json_ok (JObj kvs)" "pow10 E 0 = Num 1" "NUL \<in> set rest"
  shows "cJSON_Parse_Stream E (json_text fmt 0 (JObj kvs) @ rest) = Inr (Some (json_tree (JObj kvs)), rest)"
proof -
  let ?t = "json_text fmt 0 (JObj kvs)"
  obtain c r where r: "rest = c # r" using assms(3) by (cases rest) auto
  have "skip (?t @ rest) = Inr (?t @ rest)"
    using json_text_start [of fmt 0 "JObj kvs"] by (intro skip_text) simp_all
  moreover have "parse_value E (parse_fuel (?t @ rest)) (?t @ rest) = Inr (Some (json_tree (JObj kvs)), rest)"
    unfolding r using assms r by (intro parse_tree) (simp_all add: parse_fuel_def del: json_text.simps json_ok.simps)
  ultimately show ?thesis by (simp add: cJSON_Parse_Stream_def del: json_text.simps json_tree.simps)
qed

lemma process_request:
  assumes "json_ok (JObj kvs)" "pow10 E 0 = Num 1" "c_string rest"
    "conn_buffer c = json_text fmt 0 (JObj kvs) @ rest @ replicate (k + 2) NUL"
    "unat (buffer_size c) = length (conn_buffer c)"
    "n = (if length rest + 2 \<le> length (json_text fmt 0 (JObj kvs)) then length rest
      else length rest - length (json_text fmt 0 (JObj kvs)))"
  shows "process_buffer K E call server c w =
    bind_res (eval_request K call server c (json_tree (JObj kvs)) w) (\<lambda>(_, w).
      Inr (Some (c\<lparr>conn_buffer := take n rest @ replicate (length (conn_buffer c) - n) NUL, pos := int n\<rparr>), w))"
proof -
  have p: "cJSON_Parse_Stream E (conn_buffer c) = Inr (Some (json_tree (JObj kvs)), rest @ replicate (k + 2) NUL)"
    unfolding assms(4) by (rule parse_request [OF assms(1,2)]) simp
  have l: "length (conn_buffer c) - length (rest @ replicate (k + 2) NUL) = length (json_text fmt 0 (JObj kvs))"
    unfolding assms(4) by simp
  have o: "item_type (json_tree (JObj kvs)) = cJSON_Object" by simp
  show ?thesis
    unfolding process_buffer_def p
    by (simp only: bind_res.simps prod.case Let_def l option.case o simp_thms if_True discard_request_eq [OF assms(4,5,3,6)])
qed

text \<open>
  Property C12. A second request that arrives together with the first is not always kept. After a request has been answered, what
  follows it in the buffer is whole only if it is shorter than the request by two or more
  characters; otherwise as many characters as the request had are cut off its end, all of it when it has
  one less.
\<close>
theorem rpc_pipelined:
  assumes "json_ok (JObj kvs)" "pow10 E 0 = Num 1" "c_string rest"
    "conn_buffer c = json_text fmt 0 (JObj kvs) @ rest @ replicate (k + 2) NUL"
    "unat (buffer_size c) = length (conn_buffer c)"
    "eval_request K call server c (json_tree (JObj kvs)) w = Inr (r, w')"
  shows "\<exists>n. process_buffer K E call server c w = Inr (Some (c\<lparr>conn_buffer := take n rest @
      replicate (length (conn_buffer c) - n) NUL, pos := int n\<rparr>), w') \<and>
    n = (if length rest + 2 \<le> length (json_text fmt 0 (JObj kvs)) then length rest
      else length rest - length (json_text fmt 0 (JObj kvs)))"
  using process_request [OF assms(1-5) refl, of K call server w] assms(6) by simp

text \<open>
  The text of a request arrives on a connection that has nothing pending: the request is evaluated, and when that
  returns the connection is as before.
\<close>

lemma request_arrived:
  assumes "conn_ok c" "pos c = 0" "pow10 E 0 = Num 1" "json_ok (JObj kvs)" "t = json_text fmt 0 (JObj kvs)"
    "length t + 2 \<le> unat (buffer_size c)"
    "k_read K (conn_fd c) (unat (buffer_size c) - 1) w = (int (length t), str_bytes t, w1)"
  obtains c' where "conn_fd c' = conn_fd c"
    "connection_cb K N E call server c w =
      bind_res (eval_request K call server c' (json_tree (JObj kvs)) w1) (\<lambda>(_, w). Inr (Some c, w))"
proof -
  define s where "s = unat (buffer_size c)"
  have s: "even s" "s < 2 ^ 31" "length (conn_buffer c) = s" "0 < s"
    using assms(1) by (auto simp: conn_ok_def s_def)
  have zero: "conn_buffer c = replicate s NUL" using assms(1,2) by (simp add: conn_ok_def s_def)
  have one: "unat (buffer_size c - 1) = s - 1" using word_minus_nat [of 1 "buffer_size c"] s by (simp add: s_def)
  have "s - 1 \<noteq> 0" using s(1,4) by (metis One_nat_def Suc_pred odd_one)
  then have "buffer_size c - 1 \<noteq> 0" using one by (metis unat_0)
  then have g: "grow_buffer N c w = Inr (Some c, w)" using assms(2) by (simp add: grow_buffer_def)
  have "sint (buffer_size c - 1) = int (s - 1)" using one s(2) by (simp add: sint_eq_unat)
  moreover have "unat (word_of_int (int (s - 1)) :: size_t) = s - 1"
    using s(2) by (simp only: word_of_int_int) (rule word_of_nat_unat_small, simp)
  moreover have z: "(word_of_int (pos c) :: u32) = 0" by (simp add: assms(2))
  ultimately have room: "unat (word_of_int (sint (buffer_size c - word_of_int (pos c) - 1)) :: size_t) = s - 1"
    by (simp only: z diff_zero)
  from room have room': "unat (scast (buffer_size c - word_of_int (pos c) - 1) :: size_t) = s - 1" by simp
  define k where "k = s - length t - 2"
  define buf where "buf = t @ replicate (k + 2) NUL"
  have k: "s = length t + (k + 2)" using assms(6) by (simp add: k_def s_def)
  have mc: "memcpy (conn_buffer c) (pos c) (bytes_str (str_bytes t)) 0 (int (length (str_bytes t))) = Inr buf"
    using memcpy_nat [of 0 "length t" "conn_buffer c" 0 t] k
    by (simp add: assms(2) zero buf_def del: replicate.simps)
  define c2 where "c2 = c\<lparr>conn_buffer := buf, pos := pos c + int (length t)\<rparr>"
  have t: "0 < length t" using json_text_start [of fmt 0 "JObj kvs"] by (simp add: assms(5) del: json_text.simps)
  have c: "c2\<lparr>conn_buffer := replicate s NUL, pos := int 0\<rparr> = c" using zero assms(2) by (simp add: c2_def)
  have l: "length (conn_buffer c2) = s" using k by (simp add: c2_def buf_def)
  have "process_buffer K E call server c2 w1 =
      bind_res (eval_request K call server c2 (json_tree (JObj kvs)) w1) (\<lambda>(_, w).
        Inr (Some (c2\<lparr>conn_buffer := take 0 [] @ replicate (length (conn_buffer c2) - 0) NUL, pos := int 0\<rparr>), w))"
    by (rule process_request [OF assms(4,3), of "[]" c2 fmt k])
      (use k t in \<open>simp_all add: c2_def buf_def assms(5) s_def [symmetric] del: json_text.simps replicate.simps\<close>)
  then have p: "process_buffer K E call server c2 w1 =
      bind_res (eval_request K call server c2 (json_tree (JObj kvs)) w1) (\<lambda>(_, w). Inr (Some c, w))"
    by (simp only: l append_Nil take_Nil diff_zero c)
  have rd: "k_read K (conn_fd c) (s - 1) w = (int (length t), str_bytes t, w1)" using assms(7) by (simp add: s_def)
  have "connection_cb K N E call server c w = process_buffer K E call server c2 w1"
    unfolding connection_cb_def g
    using mc t rd by (simp add: room' Let_def c2_def del: replicate.simps)
  then show thesis using that [of c2] p by (simp add: c2_def del: json_tree.simps)
qed

text \<open>
  Property C7. A request in one piece is answered with its result. When a connection has nothing pending and the text
  of a request arrives, with or without layout and with any further members, and the last procedure registered
  under its method returns a tree, then exactly the text of the answer and a new line are
  written, in two writes, and the connection is as before.
\<close>
theorem rpc_call:
  assumes "conn_ok c" "pos c = 0" "pow10 E 0 = Num 1"
    "rpc_request kvs m ps idt" "json_ok (JObj kvs)" "t = json_text fmt 0 (JObj kvs)"
    "length t + 2 \<le> unat (buffer_size c)"
    "k_read K (conn_fd c) (unat (buffer_size c) - 1) w = (int (length t), str_bytes t, w1)"
    "find_procedure (procedures server) (nat (procedure_count server)) m = Inr (Some p)"
    "call server (proc_function p) (proc_data p) (rpc_params kvs) (map_option json_tree idt) w1 =
      Inr (0, e, Some (json_tree r), w2)" "json_ok (rpc_reply r idt)"
  shows "connection_cb K N E call server c w = Inr (Some c, write_line K (conn_fd c) (rpc_reply r idt) w2)"
proof -
  obtain c' where c: "conn_fd c' = conn_fd c" "connection_cb K N E call server c w =
      bind_res (eval_request K call server c' (json_tree (JObj kvs)) w1) (\<lambda>(_, w). Inr (Some c, w))"
    using request_arrived [OF assms(1-3,5-8)] .
  show ?thesis
    using send_result_line [OF assms(11), of K c' w2]
    unfolding c(2) eval_request_tree [OF assms(4,5)] by (simp add: invoke_procedure_def assms(9,10) c(1))
qed

text \<open>Examples: a system on which everything can be had, and a server with one procedure.\<close>

definition sample_os :: "nat rpc_os" where
  "sample_os = \<lparr>o_realloc = (\<lambda>n w. (n < 2 ^ 31, Suc w)), o_getenv = (\<lambda>_ _. None),
     o_getaddrinfo = (\<lambda>_ w. (0, [(2, 1, 6, [])], Suc w)), o_bind = (\<lambda>_ _ w. (0, Suc w)),
     o_getsockname = (\<lambda>_ w. (0, htons 1601, Suc w)), o_listen = (\<lambda>_ _ w. (0, Suc w)),
     o_accept = (\<lambda>_ w. (5, Suc w)), o_ev_break = Suc\<rparr>"

definition hello_server :: "unit jrpc_server" where
  "hello_server = \<lparr>port_number = 1601, procedure_count = 1,
     procedures = Some [Some \<lparr>proc_name = ''sayHello'', proc_function = (), proc_data = No_Data\<rparr>], debug_level = 0\<rparr>"

definition hello_call :: "(unit, nat) invoke" where
  "hello_call server f data params idt w = Inr (0, None, Some (json_tree (JStr ''Hello!'')), Suc w)"

definition new_connection :: jrpc_connection where
  "new_connection = \<lparr>conn_fd = 5, pos = 0, buffer_size = 1500, conn_buffer = replicate 1500 NUL, conn_debug_level = 0\<rparr>"

lemma new_connection_ok: "conn_ok new_connection"
  by (rule conn_okI [of _ "[]" 1499]) (simp_all add: new_connection_def)

definition hello_request :: "(string \<times> json) list" where
  "hello_request = [(''method'', JStr ''sayHello''), (''id'', JInt 7)]"

lemma hello_request_ok:
  "rpc_request hello_request ''sayHello'' None (Some (JInt 7))" "json_ok (JObj hello_request)"
  by (simp_all add: rpc_request_def json_get_def json_find_def hello_request_def tolower_def NUL_def in_int_def)

definition hello_text :: string where
  "hello_text = json_text False 0 (JObj hello_request)"

definition hello_kernel :: "nat kernel" where
  "hello_kernel = sample_kernel\<lparr>k_read := (\<lambda>_ n w. if n = 1499
     then (int (length hello_text), str_bytes hello_text, Suc w) else (- 1, [], w))\<rparr>"

lemma hello_length: "length hello_text \<le> 40"
  by (simp add: hello_text_def hello_request_def quoted_def print_d_def decimal.simps [of 7] escaped_def escape_char_def)

lemma hello_reads: "reads_ok hello_kernel" "memory_bounded sample_os"
proof -
  have "case k_read hello_kernel f n w of (ret, data, _) \<Rightarrow> reply_ok n ret data" for f n w
    using hello_length by (simp add: hello_kernel_def reply_ok_def)
  then show "reads_ok hello_kernel" by (simp add: reads_ok_def)
qed (simp add: memory_bounded_def sample_os_def)

lemma rpc_call_witness:
  "connection_cb hello_kernel sample_os sample_env hello_call hello_server new_connection 0 =
     Inr (Some new_connection, write_line hello_kernel 5 (rpc_reply (JStr ''Hello!'') (Some (JInt 7))) 2)"
proof -
  let ?t = hello_text
  have s: "unat (buffer_size new_connection) = 1500" "pos new_connection = 0" "conn_fd new_connection = 5"
    by (simp_all add: new_connection_def)
  have 1: "length ?t + 2 \<le> unat (buffer_size new_connection)" using hello_length s(1) by linarith
  have 2: "k_read hello_kernel (conn_fd new_connection) (unat (buffer_size new_connection) - 1) 0 =
      (int (length ?t), str_bytes ?t, 1)" unfolding s by (simp add: hello_kernel_def)
  have 3: "find_procedure (procedures hello_server) (nat (procedure_count hello_server)) ''sayHello'' =
      Inr (Some \<lparr>proc_name = ''sayHello'', proc_function = (), proc_data = No_Data\<rparr>)"
    by (simp add: hello_server_def)
  have 4: "json_ok (rpc_reply (JStr ''Hello!'') (Some (JInt 7)))"
    by (simp add: rpc_reply_def json_id_def NUL_def in_int_def)
  have 5: "pow10 sample_env 0 = Num 1" by (simp add: sample_env_def)
  show ?thesis
    using rpc_call [OF new_connection_ok s(2) 5 hello_request_ok hello_text_def 1 2 3 _ 4, of hello_call None 2]
    by (simp add: hello_call_def s)
qed

lemma rpc_buffers_witness:
  "length (conn_buffer new_connection) = 1500 \<and> pos new_connection = 0 \<and> conn_buffer new_connection ! 1499 = NUL"
proof -
  have "accept_cb sample_os hello_server 3 0 = (Some new_connection, 1)"
    by (simp add: accept_cb_def sample_os_def new_connection_def hello_server_def)
  then have "serve_step hello_kernel sample_os sample_env hello_call hello_server 3 ([], 0) ([] @ [new_connection], 1)"
    by (rule serve_step.accepted)
  then have "(serve_step hello_kernel sample_os sample_env hello_call hello_server 3)\<^sup>*\<^sup>* ([], 0) ([new_connection], 1)"
    by simp
  from rpc_buffers [OF this hello_reads, of new_connection]
  have "length (conn_buffer new_connection) = 1500" "\<forall>i. 0 \<le> i \<and> i < 1500 \<longrightarrow> conn_buffer new_connection ! i = NUL"
    by (simp_all add: new_connection_def)
  then show ?thesis by (simp add: new_connection_def)
qed

lemma rpc_pipelined_witness:
  "\<exists>n w. process_buffer hello_kernel sample_env hello_call hello_server
     (new_connection\<lparr>conn_buffer := ''{}'' @ ''{}'' @ replicate (1494 + 2) NUL, buffer_size := 1500, pos := 4\<rparr>) 0 =
     Inr (Some (new_connection\<lparr>conn_buffer := take n ''{}'' @ replicate (1500 - n) NUL, buffer_size := 1500, pos := int n\<rparr>), w) \<and>
     n = 0"
proof -
  let ?c = "new_connection\<lparr>conn_buffer := ''{}'' @ ''{}'' @ replicate (1494 + 2) NUL, buffer_size := 1500, pos := 4\<rparr>"
  have t: "json_text False 0 (JObj []) = ''{}''" by simp
  have b: "conn_buffer ?c = json_text False 0 (JObj []) @ ''{}'' @ replicate (1494 + 2) NUL"
    "unat (buffer_size ?c) = length (conn_buffer ?c)" "c_string ''{}''" "json_ok (JObj [])" "pow10 sample_env 0 = Num 1"
    by (simp_all add: t sample_env_def NUL_def del: json_text.simps)
  obtain r w where e: "eval_request hello_kernel hello_call hello_server ?c (json_tree (JObj [])) 0 = Inr (r, w)"
    using send_error_line [of JRPC_INVALID_REQUEST "''The JSON sent is not a valid Request object.''" None hello_kernel ?c 0]
    by (simp add: eval_request_def cJSON_GetObjectItem_def rpc_failure_def json_id_def JRPC_INVALID_REQUEST_def in_int_def NUL_def)
  from rpc_pipelined [OF b(4,5,3,1,2) e] show ?thesis by (simp add: t new_connection_def del: json_text.simps)
qed

section \<open>A request in two pieces\<close>

definition plain :: "string \<Rightarrow> bool" where
  "plain s \<longleftrightarrow> (\<forall>c \<in> set s. c \<noteq> QUOTE \<and> c \<noteq> BACKSLASH \<and> c \<noteq> NUL)"

lemma copy_plain:
  "plain s \<Longrightarrow> length out + length s \<le> room \<Longrightarrow>
     copy_unescaped room uc uc2 out (s @ t) = copy_unescaped room uc uc2 (out @ s) t"
  by (induction s arbitrary: out) (simp_all add: plain_def put_chars_def)

lemma room_plain: "plain s \<Longrightarrow> string_room (s @ t) = map_sum id (\<lambda>n. length s + n) (string_room t)"
  by (induction s) (cases "string_room t"; simp add: plain_def)+

text \<open>A string that ends after a backslash: the terminator is taken for the escaped character.\<close>

lemma parse_open_string:
  assumes "plain s"
  shows "parse_string E (QUOTE # s @ BACKSLASH # NUL # NUL # rest) = Inr (Some (cJSON_CreateString s), NUL # rest)"
proof -
  have r: "string_room (s @ BACKSLASH # NUL # NUL # rest) = Inr (length s + 1)"
    using assms by (simp add: room_plain NUL_def)
  have c: "copy_unescaped (length s + 2) uc uc2 [] (s @ BACKSLASH # NUL # NUL # rest) = Inr (s @ [NUL], NUL # rest)"
    for uc uc2
    using assms by (simp add: copy_plain put_chars_def unescape_def quote_not_NUL) (simp add: NUL_def)
  have "c_string s" using assms by (auto simp: plain_def c_string_def)
  then have k: "cstr (s @ [NUL, NUL]) = s" by simp
  have q: "NUL \<noteq> QUOTE" by (simp add: NUL_def)
  show ?thesis using r c k q by (simp add: parse_string_def put_chars_def cJSON_CreateString_def)
qed

text \<open>
  Property C16. A request whose first part ends right after a backslash in a name is not waited for. The parser takes the
  terminator for the escaped character and stops one behind the end of what has been received, which is
  taken for invalid JSON: a parse error is sent and the connection closed.
\<close>
theorem rpc_split_escape:
  assumes "plain s" "conn_buffer c = CHR ''{'' # QUOTE # s @ [BACKSLASH] @ replicate (k + 2) NUL"
    "pos c = int (length s) + 3"
  shows "process_buffer K E call server c w = Inr (close_connection K c (write_line K (conn_fd c)
    (rpc_failure JRPC_PARSE_ERROR ''Parse error. Invalid JSON was received by the server.'' None) w))"
proof -
  let ?t = "CHR ''{'' # QUOTE # s @ BACKSLASH # NUL # NUL # replicate k NUL"
  have n: "\<not> is_space NUL" by (simp add: is_space_def NUL_def)
  have sk: "skip ?t = Inr ?t" by (simp add: is_space_def)
  have "parse_object E pv n ?t = Inr (None, NUL # replicate k NUL)" for pv n
    using n by (simp add: parse_object_def parse_member_def parse_open_string [OF assms(1)] skip_after_def)
      (simp add: NUL_def)
  then have "parse_value E (parse_fuel ?t) ?t = Inr (None, NUL # replicate k NUL)"
    by (simp add: parse_fuel_def parse_value_other is_digit_def del: parse_value.simps)
  then have p: "cJSON_Parse_Stream E (conn_buffer c) = Inr (None, NUL # replicate k NUL)"
    using sk by (simp add: cJSON_Parse_Stream_def assms(2))
  have len: "int (length (conn_buffer c) - length (NUL # replicate k NUL)) \<noteq> pos c"
    using assms(3) by (simp add: assms(2))
  have "send_error K c JRPC_PARSE_ERROR (Some ''Parse error. Invalid JSON was received by the server.'') None w =
      Inr (0, write_line K (conn_fd c)
        (rpc_failure JRPC_PARSE_ERROR ''Parse error. Invalid JSON was received by the server.'' None) w)"
    using send_error_line [of JRPC_PARSE_ERROR _ None K c w]
    by (simp add: rpc_failure_def json_id_def JRPC_PARSE_ERROR_def in_int_def NUL_def)
  then show ?thesis using len unfolding process_buffer_def p by (simp only: bind_res.simps prod.case Let_def option.case if_True not_False_eq_True)
qed

lemma hello_calls:
  "k_write hello_kernel f bs w = (int (length bs), Suc w)" "k_close hello_kernel f w = (0, Suc w)"
  by (simp_all add: hello_kernel_def sample_kernel_def)

lemma rpc_split_escape_witness:
  "process_buffer hello_kernel sample_env hello_call hello_server
     (new_connection\<lparr>conn_buffer := CHR ''{'' # QUOTE # ''a'' @ [BACKSLASH] @ replicate (1494 + 2) NUL, pos := 4\<rparr>) 0 =
   Inr (None, 3)"
proof -
  let ?c = "new_connection\<lparr>conn_buffer := CHR ''{'' # QUOTE # ''a'' @ [BACKSLASH] @ replicate (1494 + 2) NUL, pos := 4\<rparr>"
  have c: "plain ''a''" "conn_buffer ?c = CHR ''{'' # QUOTE # ''a'' @ [BACKSLASH] @ replicate (1494 + 2) NUL"
    "pos ?c = int (length ''a'') + 3" by (simp_all add: plain_def NUL_def)
  have "close_connection hello_kernel ?c (write_line hello_kernel (conn_fd ?c)
      (rpc_failure JRPC_PARSE_ERROR ''Parse error. Invalid JSON was received by the server.'' None) 0) = (None, 3)"
    by (simp add: close_connection_def write_line_def hello_calls del: json_text.simps)
  then show ?thesis using rpc_split_escape [OF c, of hello_kernel sample_env hello_call hello_server 0] by (simp only:)
qed

section \<open>The table of procedures\<close>

text \<open>The table as a list, the oldest entry first.\<close>

definition table_ok :: "'f jrpc_server \<Rightarrow> 'f jrpc_procedure list \<Rightarrow> bool" where
  "table_ok server ps \<longleftrightarrow> procedure_count server = int (length ps) \<and>
     procedures server = (if ps = [] then None else Some (map Some ps))"

lemma find_procedure_list:
  "n \<le> length ps \<Longrightarrow>
     find_procedure (Some (map Some ps)) n nm = Inr (find (\<lambda>p. proc_name p = nm) (rev (take n ps)))"
  by (induction n) (simp_all add: take_Suc_conv_app_nth)

lemma find_table:
  assumes "table_ok server ps"
  shows "find_procedure (procedures server) (nat (procedure_count server)) nm =
    Inr (find (\<lambda>p. proc_name p = nm) (rev ps))"
  using assms find_procedure_list [of "length ps" ps nm] by (cases "ps = []") (auto simp: table_ok_def)

lemma register_table:
  assumes "table_ok server ps" "\<forall>n w. fst (o_realloc N n w)"
  shows "\<exists>server' w'. jrpc_register_procedure N server f nm data w = Inr (0, server', w') \<and>
    table_ok server' (ps @ [\<lparr>proc_name = nm, proc_function = f, proc_data = data\<rparr>])"
proof -
  have c: "nat (procedure_count server) = length ps" using assms(1) by (simp add: table_ok_def)
  obtain w1 where 1: "o_realloc N (24 * (length ps + 1)) w = (True, w1)" using assms(2) by (metis prod.collapse)
  obtain w2 where 2: "o_realloc N (length nm + 1) w1 = (True, w2)" using assms(2) by (metis prod.collapse)
  define qs where "qs = (case procedures server of None \<Rightarrow> [None]
      | Some ps' \<Rightarrow> take (Suc (length ps)) ps' @ replicate (Suc (length ps) - length ps') None)"
  have qs: "qs = map Some ps @ [None]" using assms(1) by (auto simp: qs_def table_ok_def split: if_splits)
  show ?thesis
    using assms(1) 1 2
    by (simp add: jrpc_register_procedure_def c qs_def [symmetric] Let_def) (simp add: qs table_ok_def list_update_append)
qed

text \<open>The loop shifts what follows the entry; the last one is left twice.\<close>

lemma deregister_shift:
  "length qs = k \<Longrightarrow>
   deregister_loop (us @ x # qs) nm (length us + Suc k) (length us + 1) True = Inr (True, us @ qs @ [last (x # qs)])"
proof (induction qs arbitrary: us x k)
  case Nil
  then show ?case by (subst deregister_loop.simps) simp
next
  case (Cons q qs)
  then show ?case using Cons.IH [of "k - 1" "us @ [q]" q]
    by (subst deregister_loop.simps) (auto simp: nth_append list_update_append)
qed

lemma deregister_found:
  assumes "\<forall>p \<in> set us. proc_name p \<noteq> nm" "proc_name x = nm" "\<forall>s. proc_data x \<noteq> Static_Data s" "i \<le> length us"
  shows "deregister_loop (map Some (us @ x # qs)) nm (length us + Suc (length qs)) i False =
    Inr (True, map Some us @ map Some qs @ [last (map Some (x # qs))])"
  using assms(4)
proof (induction "length us - i" arbitrary: i)
  case 0
  then have i: "i = length us" by simp
  have "jrpc_procedure_destroy (Some x) = Inr ()"
    using assms(3) by (cases "proc_data x") (auto simp: jrpc_procedure_destroy_def)
  then show ?case
    using deregister_shift [of "map Some qs" "length qs" "map Some us" "Some x" nm] assms(2)
    by (subst deregister_loop.simps) (simp add: i nth_append)
next
  case (Suc d)
  then have i: "i < length us" by simp
  then have "proc_name (us ! i) \<noteq> nm" using assms(1) by simp
  then show ?case
    using Suc(1) [of "Suc i"] Suc(2) i by (subst deregister_loop.simps) (simp add: nth_append eq_commute)
qed

lemma deregister_absent:
  assumes "\<forall>p \<in> set ps. proc_name p \<noteq> nm" "i \<le> length ps"
  shows "deregister_loop (map Some ps) nm (length ps) i False = Inr (False, map Some ps)"
  using assms(2)
proof (induction "length ps - i" arbitrary: i)
  case 0
  then show ?case by (subst deregister_loop.simps) simp
next
  case (Suc d)
  then have i: "i < length ps" by simp
  then have "proc_name (ps ! i) \<noteq> nm" using assms(1) by simp
  then show ?case using Suc(1) [of "Suc i"] Suc(2) i by (subst deregister_loop.simps) (simp add: eq_commute)
qed

text \<open>
  Property C11. The table of procedures is a list, as long as memory can be had. Registering appends; a call finds the
  procedure registered last under the name, but deregistering a name removes the one registered
  first, so that a name registered twice stays callable; and deregistering a name that is not in the
  table is reported as done, unless the table is empty.
\<close>
theorem rpc_table:
  assumes "table_ok server ps" "\<forall>n w. fst (o_realloc N n w)"
    "us @ x # qs = ps" "\<forall>p \<in> set us. proc_name p \<noteq> nm" "proc_name x = nm" "\<forall>s. proc_data x \<noteq> Static_Data s"
    "\<forall>p \<in> set ps. proc_name p \<noteq> absent"
  shows "(\<exists>server' w'. jrpc_register_procedure N server f new data w = Inr (0, server', w') \<and>
      table_ok server' (ps @ [\<lparr>proc_name = new, proc_function = f, proc_data = data\<rparr>])) \<and>
    find_procedure (procedures server) (nat (procedure_count server)) nm = Inr (find (\<lambda>p. proc_name p = nm) (rev ps)) \<and>
    (\<exists>server' w'. jrpc_deregister_procedure N server nm w = Inr (0, server', w') \<and> table_ok server' (us @ qs)) \<and>
    jrpc_deregister_procedure N server absent w = Inr (0, server, w)"
proof (intro conjI)
  have p: "procedures server = Some (map Some ps)" "nat (procedure_count server) = length ps"
    "procedure_count server = int (length ps)"
    using assms(1,3) by (auto simp: table_ok_def)
  show "\<exists>server' w'. jrpc_register_procedure N server f new data w = Inr (0, server', w') \<and>
      table_ok server' (ps @ [\<lparr>proc_name = new, proc_function = f, proc_data = data\<rparr>])"
    by (rule register_table [OF assms(1,2)])
  show "find_procedure (procedures server) (nat (procedure_count server)) nm = Inr (find (\<lambda>p. proc_name p = nm) (rev ps))"
    by (rule find_table [OF assms(1)])
  show "jrpc_deregister_procedure N server absent w = Inr (0, server, w)"
    using deregister_absent [OF assms(7), of 0] p by (simp add: jrpc_deregister_procedure_def)
  define m L where "m = length (us @ qs)" and "L = map Some us @ map Some qs @ [last (map Some (x # qs))]"
  have l: "deregister_loop (map Some ps) nm (length ps) 0 False = Inr (True, L)"
    using deregister_found [OF assms(4-6), of 0 qs] by (simp add: assms(3) [symmetric] L_def)
  have n: "length ps = Suc m" by (simp add: assms(3) [symmetric] m_def)
  have t: "take m L = map Some (us @ qs)" by (simp add: L_def m_def)
  obtain w1 where 1: "o_realloc N (24 * m) w = (True, w1)" using assms(2) by (metis prod.collapse)
  show "\<exists>server' w'. jrpc_deregister_procedure N server nm w = Inr (0, server', w') \<and> table_ok server' (us @ qs)"
  proof (cases "m = 0")
    case True
    then have "us @ qs = []" by (simp add: m_def)
    then show ?thesis using l n p True by (simp add: jrpc_deregister_procedure_def table_ok_def)
  next
    case False
    then have "us @ qs \<noteq> []" by (simp add: m_def)
    then show ?thesis
      using l n p t 1 False by (simp add: jrpc_deregister_procedure_def table_ok_def) (simp add: m_def)
  qed
qed

lemma rpc_table_witness:
  "\<exists>server' w'. jrpc_deregister_procedure (sample_os\<lparr>o_realloc := \<lambda>_ w. (True, w)\<rparr>) hello_server ''sayHello'' 0 =
     Inr (0, server', w') \<and> table_ok server' []"
proof -
  let ?p = "\<lparr>proc_name = ''sayHello'', proc_function = (), proc_data = No_Data\<rparr>"
  have t: "table_ok hello_server [?p]" by (simp add: table_ok_def hello_server_def)
  have N: "\<forall>n w. fst (o_realloc (sample_os\<lparr>o_realloc := \<lambda>_ w. (True, w)\<rparr>) n w)" by simp
  show ?thesis
    using rpc_table [OF t N, of "[]" ?p "[]" "''sayHello''" "''add''" "()" "''x''" No_Data 0] by simp
qed

end
