(* ===== verification/Server.thy ===== *)
theory Server
  imports Json_Rpc Ldal_Registry
begin

text \<open>
  The monitor server of LDAL, \<open>src/server.c\<close>: the eight procedures that are registered with the JSON-RPC server and the
  thread that runs it.
\<close>

section \<open>Surroundings\<close>

text \<open>
  The calls that only this file makes: \<open>sysinfo\<close> (result and seconds of uptime), \<open>system\<close>, the lock of
  \<open>/proc\<close>, the creation of the server's thread, what local variables hold before they are written, and the registry
  of devices as the other threads have left it.
\<close>

record ('p, 'v, 'w) serve_os =
  s_sysinfo :: "'w \<Rightarrow> int \<times> int \<times> 'w"
  s_system :: "string \<Rightarrow> 'w \<Rightarrow> int \<times> 'w"
  s_lock :: "'w \<Rightarrow> 'w result"
  s_unlock :: "'w \<Rightarrow> 'w"
  s_thread :: "'w \<Rightarrow> 'w"
  s_stack :: "nat \<Rightarrow> 'w \<Rightarrow> char list"
  s_registry :: "'w \<Rightarrow> ('p, 'v) ldal"

definition PORT :: int where "PORT = 1601"
definition PROC_BUFF :: nat where "PROC_BUFF = 8192"
definition CMD_BUFF :: nat where "CMD_BUFF = 16384"
definition LOOKUP_TABLE_COUNT :: nat where "LOOKUP_TABLE_COUNT = 32"

text \<open>The functions whose addresses are registered.\<close>

datatype handler =
    Say_Hello | Get_Uptime | List_All | List_Device | Read_Proc | Add | Download | Exit_Server

section \<open>Strings\<close>

text \<open>\<open>strcat\<close> and \<open>strncat\<close> to a buffer, and \<open>snprintf\<close> of at most \<open>n\<close> characters with the terminator.\<close>

definition strcat :: "char list \<Rightarrow> string \<Rightarrow> char list result" where
  "strcat buf s =
     bind_res (read_cstr buf) (\<lambda>t. memcpy buf (int (length t)) (s @ [NUL]) 0 (int (length s) + 1))"

definition strncat :: "char list \<Rightarrow> string \<Rightarrow> nat \<Rightarrow> char list result" where
  "strncat buf s n = strcat buf (take n s)"

definition snprintf :: "char list \<Rightarrow> nat \<Rightarrow> string \<Rightarrow> char list result" where
  "snprintf buf n s = (if n = 0 then Inr buf else copy_string buf (take (n - 1) s))"

text \<open>Division of a \<open>long\<close> by a positive constant, towards zero, and a product of two \<open>int\<close>s.\<close>

definition c_div :: "int \<Rightarrow> int \<Rightarrow> int" where
  "c_div a b = sgn a * (\<bar>a\<bar> div b)"

definition c_mul :: "int \<Rightarrow> int \<Rightarrow> int result" where
  "c_mul a b = (if in_int (a * b) then Inr (a * b) else Inl Int_Overflow)"

section \<open>The procedures\<close>

definition endstring :: string where
  "endstring = ''eastendstring''"

definition say_hello :: "cjson option" where
  "say_hello = Some (cJSON_CreateString ''Hello!'')"

text \<open>\<open>p->valueint\<close>.\<close>

definition int_of :: "cjson option \<Rightarrow> int result" where
  "int_of p = (case p of None \<Rightarrow> Inl Null_Pointer | Some i \<Rightarrow> Inr (valueint i))"

definition add :: "cjson option \<Rightarrow> cjson option result" where
  "add params =
     bind_res (cJSON_GetArrayItem params 0) (\<lambda>a.
     bind_res (cJSON_GetArrayItem params 1) (\<lambda>b.
     bind_res (int_of a) (\<lambda>x.
     bind_res (int_of b) (\<lambda>y.
     bind_res (c_add x y) (\<lambda>s.
     bind_res (cJSON_CreateNumber (d_of_int s)) (\<lambda>n. Inr (Some n)))))))"

definition get_uptime :: "('p, 'v, 'w) serve_os \<Rightarrow> 'w \<Rightarrow> (cjson option \<times> 'w) result" where
  "get_uptime S w =
     (let (ret, up, w) = s_sysinfo S w in
      if ret \<noteq> 0 then Inr (Some (cJSON_CreateString ''null''), w)
      else let days = to_int (c_div up 86400) in
        bind_res (c_mul days 24) (\<lambda>day_hours.
        let hours = to_int (c_div up 3600 - day_hours) in
        bind_res (c_mul days 1440) (\<lambda>day_mins.
        bind_res (c_mul hours 60) (\<lambda>hour_mins.
        let mins = to_int (c_div up 60 - day_mins - hour_mins) in
        bind_res (cJSON_CreateIntArray [days, hours, mins] 3) (\<lambda>a. Inr (Some a, w))))))"

text \<open>
  The debug output, which would look at the other two parameters, is compiled out. The command has room for ten characters besides the URL.
\<close>

definition download :: "('p, 'v, 'w) serve_os \<Rightarrow> cjson option \<Rightarrow> 'w \<Rightarrow> (cjson option \<times> 'w) result" where
  "download S params w =
     bind_res (cJSON_GetArrayItem params 0) (\<lambda>url.
     bind_res (cJSON_GetArrayItem params 1) (\<lambda>md5.
     bind_res (cJSON_GetArrayItem params 2) (\<lambda>path.
     case Option.bind url valuestring of
       None \<Rightarrow> Inl Null_Pointer
     | Some u \<Rightarrow>
         let cmd = take (length u + 10 - 1) (''wget '' @ u); (_, w) = s_system S cmd w
         in Inr (Some (cJSON_CreateString ''Ok''), w))))"

text \<open>
  The table of commands: one entry, and 31 that are zero. An entry is its name, its type and whether it has a lock.
\<close>

record builtin_func_info =
  cmd_name :: "string option"
  cmd_type :: nat
  cmd_lock :: bool

definition lookup_table :: "builtin_func_info list" where
  "lookup_table = \<lparr>cmd_name = Some ''proc'', cmd_type = 2, cmd_lock = True\<rparr> #
     replicate (LOOKUP_TABLE_COUNT - 1) \<lparr>cmd_name = None, cmd_type = 0, cmd_lock = False\<rparr>"

fun lookup_loop :: "string \<Rightarrow> builtin_func_info list \<Rightarrow> builtin_func_info option result" where
  "lookup_loop nm [] = Inl Out_Of_Bounds"
| "lookup_loop nm (p # ps) =
     (case cmd_name p of
        None \<Rightarrow> Inr None
      | Some s \<Rightarrow> if nm = s then Inr (Some p) else lookup_loop nm ps)"

definition lookup_func :: "string \<Rightarrow> builtin_func_info option result" where
  "lookup_func nm = lookup_loop nm lookup_table"

text \<open>The string a procedure was registered with.\<close>

definition data_string :: "proc_data \<Rightarrow> string option" where
  "data_string data = (case data of No_Data \<Rightarrow> None | Heap_Data s \<Rightarrow> Some s | Static_Data s \<Rightarrow> Some s)"

text \<open>
  A read fills the whole buffer if the file is long enough, and \<open>endstring\<close> is then added behind it.
\<close>

definition read_proc ::
    "'w kernel \<Rightarrow> ('p, 'v, 'w) serve_os \<Rightarrow> proc_data \<Rightarrow> 'w \<Rightarrow> (cjson option \<times> 'w) result" where
  "read_proc K S data w =
     (case data_string data of
        None \<Rightarrow> Inr (None, w)
      | Some d \<Rightarrow>
          bind_res (lookup_func ''proc'') (\<lambda>info.
          bind_res (snprintf (replicate 50 NUL) 50 (''/proc/'' @ d)) (\<lambda>proc_path.
          bind_res (read_cstr proc_path) (\<lambda>path.
          case info of
            None \<Rightarrow> Inl Null_Pointer
          | Some _ \<Rightarrow>
              bind_res (s_lock S w) (\<lambda>w.
              let (f, w) = k_open K path O_RDONLY 0 w in
              if f < 0 then Inr (None, s_unlock S w)
              else let (ret, data, w) = k_read K f PROC_BUFF w; (_, w) = k_close K f w in
                bind_res (memcpy (replicate PROC_BUFF NUL) 0 (bytes_str data) 0 (max 0 ret)) (\<lambda>proc_buff.
                bind_res (strcat proc_buff endstring) (\<lambda>proc_buff.
                bind_res (read_cstr proc_buff) (\<lambda>s.
                Inr (Some (cJSON_CreateString s), s_unlock S w)))))))))"

text \<open>Half of the buffer is cleared.\<close>

fun list_names :: "'f jrpc_procedure option list option \<Rightarrow> nat \<Rightarrow> nat \<Rightarrow> char list \<Rightarrow> char list result" where
  "list_names ps i 0 buf = Inr buf"
| "list_names ps i (Suc n) buf =
     (case ps of
        None \<Rightarrow> Inl Null_Pointer
      | Some xs \<Rightarrow>
          if length xs \<le> i then Inl Out_Of_Bounds
          else case xs ! i of
              None \<Rightarrow> Inl Indeterminate
            | Some p \<Rightarrow>
                bind_res (strcat buf (proc_name p)) (\<lambda>buf.
                bind_res (strcat buf '' '') (\<lambda>buf. list_names ps (Suc i) n buf)))"

definition list_all ::
    "('p, 'v, 'w) serve_os \<Rightarrow> 'f jrpc_server \<Rightarrow> 'w \<Rightarrow> cjson option result" where
  "list_all S my_server w =
     bind_res (list_names (procedures my_server) 0 (nat (procedure_count my_server))
       (replicate PROC_BUFF NUL @ drop PROC_BUFF (s_stack S CMD_BUFF w))) (\<lambda>proc_buff.
     bind_res (strcat proc_buff endstring) (\<lambda>proc_buff.
     bind_res (read_cstr proc_buff) (\<lambda>s. Inr (Some (cJSON_CreateString s)))))"

definition device_line :: "('p, 'v) ldal \<Rightarrow> addr \<Rightarrow> string result" where
  "device_line s a =
     bind_res (load_device s a) (\<lambda>d.
     bind_res (label_of s d) (\<lambda>label.
     bind_res (read_cstr (name d)) (\<lambda>nm.
     bind_res (read_cstr (filename d)) (\<lambda>fnm.
     Inr (label @ '': '' @ nm @ '', '' @ fnm @ '', '' @ print_d (uint (ref d)) @ [CHR 0x0A])))))"

definition add_line ::
    "('p, 'v) ldal \<Rightarrow> char list \<times> char list \<Rightarrow> addr \<Rightarrow> (char list \<times> char list) result" where
  "add_line s = (\<lambda>(buffer, res) a.
     bind_res (device_line s a) (\<lambda>line.
     bind_res (snprintf buffer 128 line) (\<lambda>buffer.
     bind_res (read_cstr buffer) (\<lambda>t.
     bind_res (strncat res t (length t)) (\<lambda>res. Inr (buffer, res))))))"

text \<open>No lock of the registry is taken.\<close>

definition list_device :: "('p, 'v) ldal \<Rightarrow> cjson option result" where
  "list_device s =
     bind_res (list_for_each (nodes s) ldal_device_list (add_line s) (replicate 128 NUL, replicate 4096 NUL))
       (\<lambda>(buffer, res). bind_res (read_cstr res) (\<lambda>t. Inr (Some (cJSON_CreateString t))))"

definition exit_server :: "'w rpc_os \<Rightarrow> 'w \<Rightarrow> cjson option \<times> 'w" where
  "exit_server N w = (let (_, w) = jrpc_server_stop N w in (Some (cJSON_CreateString ''Bye!''), w))"

text \<open>A call through a function pointer. None of the procedures sets an error code.\<close>

fun serve_call ::
    "'w kernel \<Rightarrow> 'w rpc_os \<Rightarrow> ('p, 'v, 'w) serve_os \<Rightarrow> (handler, 'w) invoke" where
  "serve_call K N S server Say_Hello data params idt w = Inr (0, None, say_hello, w)"
| "serve_call K N S server Get_Uptime data params idt w =
     bind_res (get_uptime S w) (\<lambda>(r, w). Inr (0, None, r, w))"
| "serve_call K N S server List_All data params idt w = bind_res (list_all S server w) (\<lambda>r. Inr (0, None, r, w))"
| "serve_call K N S server List_Device data params idt w =
     bind_res (list_device (s_registry S w)) (\<lambda>r. Inr (0, None, r, w))"
| "serve_call K N S server Read_Proc data params idt w =
     bind_res (read_proc K S data w) (\<lambda>(r, w). Inr (0, None, r, w))"
| "serve_call K N S server Add data params idt w = bind_res (add params) (\<lambda>r. Inr (0, None, r, w))"
| "serve_call K N S server Download data params idt w =
     bind_res (download S params w) (\<lambda>(r, w). Inr (0, None, r, w))"
| "serve_call K N S server Exit_Server data params idt w = (let (r, w) = exit_server N w in Inr (0, None, r, w))"

section \<open>The thread of the server\<close>

text \<open>The procedures in the order of registration; only the data of the fifth is not null, and it is a literal.\<close>

definition serve_procedures :: "(handler \<times> string \<times> proc_data) list" where
  "serve_procedures =
     [(Say_Hello, ''sayHello'', No_Data), (Get_Uptime, ''getUptime'', No_Data), (List_All, ''listAllMethod'', No_Data),
      (List_Device, ''listAllDevice'', No_Data), (Read_Proc, ''getProcVersion'', Static_Data ''version''),
      (Add, ''add'', No_Data), (Download, ''download'', No_Data), (Exit_Server, ''exit'', No_Data)]"

text \<open>The results of the calls are not looked at.\<close>

fun register_all ::
    "'w rpc_os \<Rightarrow> (handler \<times> string \<times> proc_data) list \<Rightarrow> handler jrpc_server \<Rightarrow> 'w
       \<Rightarrow> (handler jrpc_server \<times> 'w) result" where
  "register_all N [] server w = Inr (server, w)"
| "register_all N ((f, nm, data) # ps) server w =
     bind_res (jrpc_register_procedure N server f nm data w) (\<lambda>(_, server, w). register_all N ps server w)"

text \<open>
  \<open>run\<close> is \<open>jrpc_server_run\<close>: libev's loop, which calls the callbacks of \<open>Json_Rpc\<close> until it is asked to stop. Neither it nor
  any procedure changes the table.
\<close>

definition serve_thread_entry ::
    "'w kernel \<Rightarrow> 'w rpc_os \<Rightarrow> (handler jrpc_server \<Rightarrow> int option \<Rightarrow> 'w \<Rightarrow> 'w result) \<Rightarrow> 'w \<Rightarrow> 'w result" where
  "serve_thread_entry K N run w =
     bind_res (jrpc_server_init_with_ev_loop K N PORT w) (\<lambda>(_, listen_fd, server, w).
     bind_res (register_all N serve_procedures server w) (\<lambda>(server, w).
     bind_res (run server listen_fd w) (\<lambda>w.
     bind_res (jrpc_server_destroy server) (\<lambda>_. Inr w))))"

definition establish_serve :: "('p, 'v, 'w) serve_os \<Rightarrow> 'w \<Rightarrow> int \<times> 'w" where
  "establish_serve S w = (0, s_thread S w)"

section \<open>Strings in buffers\<close>

lemma read_cstr_eqI: "c_string t \<Longrightarrow> read_cstr (t @ NUL # junk) = Inr t"
  by simp

lemma strcat_ok:
  assumes "c_string t" "length t + length s < n" "buf = t @ NUL # junk" "length buf = n"
  shows "strcat buf s = Inr (t @ s @ NUL # drop (length s) junk)"
  using assms memcpy_nat [of "length t" "length s + 1" buf 0 "s @ [NUL]"]
  by (simp add: strcat_def add.commute)

lemma strcat_overrun:
  assumes "c_string t" "length buf \<le> length t + length s" "buf = t @ NUL # junk"
  shows "strcat buf s = Inl Out_Of_Bounds"
  using assms by (simp add: strcat_def memcpy_def)

text \<open>A buffer of \<open>n\<close> characters that holds the string \<open>t\<close>.\<close>

definition holds :: "nat \<Rightarrow> char list \<Rightarrow> string \<Rightarrow> bool" where
  "holds n buf t \<longleftrightarrow> length buf = n \<and> c_string t \<and> (\<exists>junk. buf = t @ NUL # junk)"

lemma holds_read: "holds n buf t \<Longrightarrow> read_cstr buf = Inr t"
  by (auto simp: holds_def)

lemma holds_strcat:
  assumes "holds n buf t" "c_string s"
  shows "if length t + length s < n then \<exists>buf'. strcat buf s = Inr buf' \<and> holds n buf' (t @ s)
    else strcat buf s = Inl Out_Of_Bounds"
proof -
  obtain junk where b: "buf = t @ NUL # junk" "length buf = n" "c_string t" using assms(1) by (auto simp: holds_def)
  show ?thesis
  proof (cases "length t + length s < n")
    case True
    then have "strcat buf s = Inr (t @ s @ NUL # drop (length s) junk)"
      using strcat_ok [OF b(3) _ b(1,2)] by simp
    moreover have "holds n (t @ s @ NUL # drop (length s) junk) (t @ s)"
      using b True assms(2) by (auto simp: holds_def)
    ultimately show ?thesis using True by simp
  next
    case False
    then show ?thesis using strcat_overrun [OF b(3) _ b(1), of s] b(2) by simp
  qed
qed

lemma holds_fits:
  assumes "holds n buf t" "c_string s" "length t + length s < n"
  obtains buf' where "strcat buf s = Inr buf'" "holds n buf' (t @ s)"
  using holds_strcat [OF assms(1,2)] assms(3) by auto

lemma holds_empty: "0 < n \<Longrightarrow> length buf = n \<Longrightarrow> buf ! 0 = NUL \<Longrightarrow> holds n buf []"
  by (cases buf) (auto simp: holds_def)

lemma snprintf_holds:
  assumes "length buf = n" "0 < n" "c_string s"
  shows "\<exists>buf'. snprintf buf n s = Inr buf' \<and> holds n buf' (take (n - 1) s)"
proof -
  have "c_string (take (n - 1) s)" using assms(3) by (auto simp: c_string_def dest: in_set_takeD)
  then show ?thesis
    using assms copy_string_ok [of "take (n - 1) s" buf] by (auto simp: snprintf_def holds_def)
qed

section \<open>The table of the server\<close>

definition entry :: "'f \<times> string \<times> proc_data \<Rightarrow> 'f jrpc_procedure" where
  "entry p = (case p of (f, nm, data) \<Rightarrow> \<lparr>proc_name = nm, proc_function = f, proc_data = data\<rparr>)"

definition served :: "handler jrpc_server \<Rightarrow> bool" where
  "served server \<longleftrightarrow> table_ok server (map entry serve_procedures)"

lemma register_all_table:
  assumes "\<forall>n w. fst (o_realloc N n w)" "table_ok server ps"
  shows "\<exists>server' w'. register_all N qs server w = Inr (server', w') \<and> table_ok server' (ps @ map entry qs)"
  using assms(2)
proof (induction qs arbitrary: server ps w)
  case (Cons q qs)
  obtain f nm data where q: "q = (f, nm, data)" by (cases q)
  obtain s1 w1 where 1: "jrpc_register_procedure N server f nm data w = Inr (0, s1, w1)"
    "table_ok s1 (ps @ [entry q])"
    using register_table [OF Cons.prems assms(1), of f nm data w] unfolding q entry_def by auto
  from Cons.IH [OF 1(2), of w1] show ?case by (simp add: q 1(1))
qed simp

lemma start_table:
  "jrpc_server_start K N server w = Inr (r, f, server', w') \<Longrightarrow>
     procedure_count server' = procedure_count server \<and> procedures server' = procedures server"
  by (auto simp: jrpc_server_start_def Let_def case_prod_unfold split: if_splits option.splits)
    fastforce+

lemma init_table:
  "jrpc_server_init_with_ev_loop K N port w = Inr (r, f, server, w') \<Longrightarrow> table_ok server []"
  unfolding jrpc_server_init_with_ev_loop_def by (drule start_table) (simp add: table_ok_def)

lemma serve_start:
  fixes server :: "handler jrpc_server"
  assumes "jrpc_server_init_with_ev_loop K N PORT w = Inr (r, f, server, w1)" "\<forall>n w. fst (o_realloc N n w)"
  obtains server' w2 where "served server'"
    "serve_thread_entry K N run w = bind_res (run server' f w2) (\<lambda>w. bind_res (jrpc_server_destroy server') (\<lambda>_. Inr w))"
proof -
  obtain server' w2 where "register_all N serve_procedures server w1 = Inr (server', w2)" "served server'"
    using register_all_table [OF assms(2) init_table [OF assms(1)], of serve_procedures w1] by (auto simp: served_def)
  with assms(1) that show thesis by (simp add: serve_thread_entry_def)
qed

lemma served_procedures:
  assumes "served server"
  shows "procedures server = Some (map (Some \<circ> entry) serve_procedures)" "procedure_count server = 8"
  using assms by (auto simp: served_def table_ok_def serve_procedures_def)

lemma served_destroy: "served server \<Longrightarrow> jrpc_server_destroy server = Inl Invalid_Free"
  by (simp add: jrpc_server_destroy_def served_procedures serve_procedures_def entry_def
      jrpc_procedure_destroy_def eval_nat_numeral)

lemma served_find:
  assumes "served server" "(f, nm, data) \<in> set serve_procedures"
  shows "find_procedure (procedures server) (nat (procedure_count server)) nm = Inr (Some (entry (f, nm, data)))"
proof -
  have "\<forall>x \<in> set serve_procedures.
      find (\<lambda>p. proc_name p = fst (snd x)) (rev (map entry serve_procedures)) = Some (entry x)"
    by (simp add: serve_procedures_def entry_def)
  then show ?thesis using find_table [OF assms(1) [unfolded served_def], of nm] assms(2) by fastforce
qed

section \<open>Adding two numbers\<close>

text \<open>The number \<open>valueint\<close> of a value that was parsed, and the values among the parameters.\<close>

fun json_int :: "json \<Rightarrow> int" where
  "json_int (JInt i) = i"
| "json_int (JBool b) = (if b then 1 else 0)"
| "json_int _ = 0"

fun json_values :: "json option \<Rightarrow> json list" where
  "json_values (Some (JArr vs)) = vs"
| "json_values (Some (JObj kvs)) = map snd kvs"
| "json_values _ = []"

lemma set_item_fields [simp]:
  "children (set_item_string k t) = children t" "valueint (set_item_string k t) = valueint t"
  "valuestring (set_item_string k t) = valuestring t"
  by (cases t; simp)+

lemma valueint_tree: "valueint (json_tree v) = json_int v"
  by (cases v) (simp_all add: cJSON_CreateNull_def cJSON_CreateFalse_def cJSON_CreateString_def)

lemma params_values:
  assumes "rpc_request kvs m ps idt" "rpc_params kvs = Some p"
  shows "length (children p) = length (json_values ps) \<and>
    (\<forall>i < length (children p). valueint (children p ! i) = json_int (json_values ps ! i) \<and>
       valuestring (children p ! i) = valuestring (json_tree (json_values ps ! i)))"
  using assms
  by (auto simp: rpc_request_def json_get_def rpc_params_def valueint_tree case_prod_unfold
      split: option.splits json.splits simp del: json_tree.simps)
    (auto simp: valueint_tree case_prod_unfold)

lemma nth_item_nth: "0 \<le> i \<Longrightarrow> nth_item cs i = (if nat i < length cs then Some (cs ! nat i) else None)"
proof (induction cs arbitrary: i)
  case (Cons c cs)
  show ?case
  proof (cases "0 < i")
    case True
    then have "nat i = Suc (nat (i - 1))" by simp
    then show ?thesis using Cons.IH [of "i - 1"] True by simp
  next
    case False
    then show ?thesis using Cons.prems by simp
  qed
qed simp

lemma add_params:
  assumes "rpc_request kvs m ps idt"
  shows "add (rpc_params kvs) =
    (if length (json_values ps) < 2 then Inl Null_Pointer
     else let s = json_int (json_values ps ! 0) + json_int (json_values ps ! 1) in
       if in_int s then Inr (Some (json_tree (JInt s))) else Inl Int_Overflow)"
proof (cases "rpc_params kvs")
  case None
  then have "ps = None" using assms by (auto simp: rpc_params_def rpc_request_def json_get_def)
  with None show ?thesis by (simp add: add_def cJSON_GetArrayItem_def)
next
  case (Some p)
  note v = params_values [OF assms Some]
  show ?thesis
  proof (cases "length (json_values ps) < 2")
    case True
    then have "length (children p) = 0 \<or> length (children p) = 1" using v by linarith
    then show ?thesis using True v
      by (auto simp: Some add_def cJSON_GetArrayItem_def nth_item_nth int_of_def split: option.splits)
  next
    case False
    then have l: "1 < length (children p)" "0 < length (children p)" using v by auto
    then have i: "valueint (children p ! 0) = json_int (json_values ps ! 0)"
      "valueint (children p ! 1) = json_int (json_values ps ! 1)" using v by blast+
    show ?thesis
      using l i False
      by (simp add: Some add_def cJSON_GetArrayItem_def nth_item_nth int_of_def Let_def c_add_def create_number_tree
          del: json_tree.simps)
  qed
qed

section \<open>A request for a procedure of the server\<close>

text \<open>What follows the call of a procedure.\<close>

definition answer ::
    "'w kernel \<Rightarrow> jrpc_connection \<Rightarrow> cjson option \<Rightarrow> int \<times> string option \<times> cjson option \<times> 'w \<Rightarrow> (int \<times> 'w) result" where
  "answer K c idt = (\<lambda>(code, msg, r, w). if code \<noteq> 0 then send_error K c code msg idt w else send_result K c r idt w)"

lemma serve_request:
  assumes "conn_ok c" "pos c = 0" "pow10 E 0 = Num 1" "served server" "(f, m, data) \<in> set serve_procedures"
    "rpc_request kvs m ps idt" "json_ok (JObj kvs)" "t = json_text fmt 0 (JObj kvs)"
    "length t + 2 \<le> unat (buffer_size c)"
    "k_read K (conn_fd c) (unat (buffer_size c) - 1) w = (int (length t), str_bytes t, w1)"
  obtains c' where "conn_fd c' = conn_fd c" "connection_cb K N E (serve_call K N S) server c w =
      bind_res (serve_call K N S server f data (rpc_params kvs) (map_option json_tree idt) w1) (\<lambda>x.
      bind_res (answer K c' (map_option json_tree idt) x) (\<lambda>(_, w). Inr (Some c, w)))"
proof -
  obtain c' where c: "conn_fd c' = conn_fd c" "connection_cb K N E (serve_call K N S) server c w =
      bind_res (eval_request K (serve_call K N S) server c' (json_tree (JObj kvs)) w1) (\<lambda>(_, w). Inr (Some c, w))"
    using request_arrived [OF assms(1-3,7-10)] .
  have "connection_cb K N E (serve_call K N S) server c w =
      bind_res (serve_call K N S server f data (rpc_params kvs) (map_option json_tree idt) w1) (\<lambda>x.
      bind_res (answer K c' (map_option json_tree idt) x) (\<lambda>(_, w). Inr (Some c, w)))"
    unfolding c(2) eval_request_tree [OF assms(6,7)]
    by (simp add: invoke_procedure_def served_find [OF assms(4,5)] entry_def answer_def bind_res_assoc)
  with c(1) show thesis by (rule that)
qed

lemma reply_ok_id:
  assumes "rpc_request kvs m ps idt" "json_ok (JObj kvs)" "json_ok v"
  shows "json_ok (rpc_reply v idt)"
  using assms(1,3) json_find_ok [OF assms(2), of "''id''"]
  by (cases idt) (auto simp: rpc_reply_def json_id_def rpc_request_def NUL_def)

lemma answer_tree:
  assumes "json_ok (rpc_reply v idt)"
  shows "answer K c (map_option json_tree idt) (0, msg, Some (json_tree v), w) =
    Inr (0, write_line K (conn_fd c) (rpc_reply v idt) w)"
  using send_result_line [OF assms] by (simp add: answer_def)

text \<open>
  Property C3. The remote addition, from the bytes of a request to those of the answer. When a request for the method
  \<open>add\<close> arrives on a connection of the server with its eight procedures, the answer carries the sum of the first
  two parameters, where a string, null or structure counts as 0 and true as 1, whether the parameters are an array or an object.
  With fewer than two parameters the server dereferences a null pointer, and a sum outside the range of \<open>int\<close> is
  a signed overflow.
\<close>
theorem serve_add:
  assumes "conn_ok c" "pos c = 0" "pow10 E 0 = Num 1" "served server"
    "rpc_request kvs ''add'' ps idt" "json_ok (JObj kvs)" "t = json_text fmt 0 (JObj kvs)"
    "length t + 2 \<le> unat (buffer_size c)"
    "k_read K (conn_fd c) (unat (buffer_size c) - 1) w = (int (length t), str_bytes t, w1)"
  shows "connection_cb K N E (serve_call K N S) server c w =
    (if length (json_values ps) < 2 then Inl Null_Pointer
     else let s = json_int (json_values ps ! 0) + json_int (json_values ps ! 1) in
       if in_int s then Inr (Some c, write_line K (conn_fd c) (rpc_reply (JInt s) idt) w1) else Inl Int_Overflow)"
proof -
  have p: "(Add, ''add'', No_Data) \<in> set serve_procedures" by (simp add: serve_procedures_def)
  obtain c' where c: "conn_fd c' = conn_fd c" "connection_cb K N E (serve_call K N S) server c w =
      bind_res (serve_call K N S server Add No_Data (rpc_params kvs) (map_option json_tree idt) w1) (\<lambda>x.
      bind_res (answer K c' (map_option json_tree idt) x) (\<lambda>(_, w). Inr (Some c, w)))"
    using serve_request [OF assms(1-4) p assms(5-9)] .
  show ?thesis
    using reply_ok_id [OF assms(5,6)]
    by (simp add: c add_params [OF assms(5)] Let_def answer_tree del: json_tree.simps)
qed

section \<open>Arrays of numbers\<close>

lemma to_int_range: "in_int (to_int v)"
  using signed_take_bit_int_less_exp [of 31 v] signed_take_bit_int_greater_eq_minus_exp [of 31 v]
  by (simp add: in_int_def to_int_def)

lemma create_int_array:
  "\<forall>x \<in> set xs. in_int x \<Longrightarrow>
     cJSON_CreateIntArray xs (int (length xs)) = Inr (json_tree (JArr (map JInt xs)))"
proof -
  have "\<forall>x \<in> set xs. in_int x \<Longrightarrow> create_items (\<lambda>n. cJSON_CreateNumber (d_of_int n)) xs (length xs) =
      Inr (map (json_tree \<circ> JInt) xs)" for xs
    by (induction xs) (simp_all add: create_number_tree)
  moreover assume "\<forall>x \<in> set xs. in_int x"
  ultimately show ?thesis by (simp add: cJSON_CreateIntArray_def cJSON_CreateArray_def)
qed

lemma create_three:
  "cJSON_CreateIntArray [to_int a, to_int b, to_int c] 3 =
     Inr (json_tree (JArr [JInt (to_int a), JInt (to_int b), JInt (to_int c)]))"
  using create_int_array [of "[to_int a, to_int b, to_int c]"] by (simp add: to_int_range)

section \<open>Texts that are put together in a buffer\<close>

text \<open>A step that makes the text \<open>t\<close> in a buffer of \<open>n\<close> characters, or overruns it when there is no room.\<close>

definition fits :: "nat \<Rightarrow> char list result \<Rightarrow> string \<Rightarrow> bool" where
  "fits n r t \<longleftrightarrow> (if length t < n then \<exists>buf. r = Inr buf \<and> holds n buf t else r = Inl Out_Of_Bounds)"

lemma fits_holds: "holds n buf t \<Longrightarrow> fits n (Inr buf) t"
  by (auto simp: fits_def holds_def)

lemma fits_strcat: "holds n buf t \<Longrightarrow> c_string s \<Longrightarrow> fits n (strcat buf s) (t @ s)"
  using holds_strcat [of n buf t s] by (simp add: fits_def)

lemma fits_bind:
  assumes "fits n r t" "\<And>buf. holds n buf t \<Longrightarrow> fits n (k buf) (t @ u)"
  shows "fits n (bind_res r k) (t @ u)"
  using assms by (auto simp: fits_def split: if_splits)

lemma fits_read:
  "fits n r t \<Longrightarrow> bind_res r (\<lambda>buf. bind_res (read_cstr buf) k) = (if length t < n then k t else Inl Out_Of_Bounds)"
  by (auto simp: fits_def holds_read split: if_splits)

lemma fits_names:
  assumes "holds n buf t" "\<forall>p \<in> set ps. c_string (proc_name p)"
  shows "fits n (list_names (Some (map Some (qs @ ps))) (length qs) (length ps) buf)
    (t @ concat (map (\<lambda>p. proc_name p @ '' '') ps))"
  using assms
proof (induction ps arbitrary: qs buf t)
  case Nil
  then show ?case by (simp add: fits_holds)
next
  case (Cons p ps)
  let ?u = "concat (map (\<lambda>p. proc_name p @ '' '') ps)"
  let ?L = "list_names (Some (map Some ((qs @ [p]) @ ps))) (length (qs @ [p])) (length ps)"
  have s: "c_string '' ''" by (simp add: NUL_def)
  have c: "c_string (proc_name p)" "\<forall>p \<in> set ps. c_string (proc_name p)" using Cons.prems(2) by auto
  have i: "fits n (bind_res (strcat b '' '') ?L) ((t @ proc_name p) @ ('' '' @ ?u))" if "holds n b (t @ proc_name p)" for b
  proof -
    have "fits n (?L buf) (((t @ proc_name p) @ '' '') @ ?u)" if "holds n buf ((t @ proc_name p) @ '' '')" for buf
      using Cons.IH [OF that c(2)] .
    from fits_bind [OF fits_strcat [OF that s] this] show ?thesis by (simp only: append_assoc)
  qed
  have "fits n (bind_res (strcat buf (proc_name p)) (\<lambda>b. bind_res (strcat b '' '') ?L))
      ((t @ proc_name p) @ ('' '' @ ?u))"
    by (rule fits_bind [OF fits_strcat [OF Cons.prems(1) c(1)] i])
  moreover have "(map Some qs @ Some p # map Some ps) ! length qs = Some p" by (simp add: nth_append)
  ultimately show ?case by simp
qed

lemma list_all_names:
  fixes server :: "'f jrpc_server"
  assumes "table_ok server ps" "ps \<noteq> []" "\<forall>p \<in> set ps. c_string (proc_name p)" "length (s_stack S CMD_BUFF w) = CMD_BUFF"
  shows "list_all S server w =
    (let t = concat (map (\<lambda>p. proc_name p @ '' '') ps) @ endstring in
     if length t < CMD_BUFF then Inr (Some (cJSON_CreateString t)) else Inl Out_Of_Bounds)"
proof -
  let ?b = "replicate PROC_BUFF NUL @ drop PROC_BUFF (s_stack S CMD_BUFF w)"
  have "length ?b = CMD_BUFF" "?b ! 0 = NUL" using assms(4) by (simp_all add: PROC_BUFF_def CMD_BUFF_def nth_append)
  then have h: "holds CMD_BUFF ?b []" by (intro holds_empty) (simp_all add: CMD_BUFF_def)
  have e: "c_string endstring" by (simp add: endstring_def NUL_def)
  let ?r = "bind_res (list_names (Some (map Some ([] @ ps))) (length ([] :: 'f jrpc_procedure list)) (length ps) ?b)
      (\<lambda>b. strcat b endstring)"
  have f: "fits CMD_BUFF ?r ([] @ concat (map (\<lambda>p. proc_name p @ '' '') ps) @ endstring)"
    using fits_bind [OF fits_names [OF h assms(3), of "[]"] fits_strcat [OF _ e]] by simp
  have "list_all S server w = bind_res ?r (\<lambda>b. bind_res (read_cstr b) (\<lambda>s. Inr (Some (cJSON_CreateString s))))"
    using assms(1,2) by (simp add: list_all_def bind_res_assoc table_ok_def)
  then show ?thesis by (simp only: fits_read [OF f, unfolded append_Nil] Let_def append_Nil)
qed

lemma served_names:
  assumes "served server" "length (s_stack S CMD_BUFF w) = CMD_BUFF"
  shows "list_all S server w = Inr (Some (json_tree (JStr
    ''sayHello getUptime listAllMethod listAllDevice getProcVersion add download exit eastendstring'')))"
  using list_all_names [OF assms(1) [unfolded served_def] _ _ assms(2)]
  by (simp add: serve_procedures_def entry_def endstring_def CMD_BUFF_def NUL_def)

section \<open>The list of devices\<close>

text \<open>The line of a device.\<close>

definition device_text :: "('p, 'v) ldal \<Rightarrow> addr \<Rightarrow> string" where
  "device_text s a =
     (let d = the (devices s a); c = the (classes s (the (dclass d)))
      in class_label ! unat (class_id c) @ '': '' @ cstr (name d) @ '', '' @ cstr (filename d) @ '', '' @
         print_d (uint (ref d)) @ [CHR 0x0A])"

text \<open>A device whose structure is as in the code: its arrays are of their size and terminated, its class is one of the twelve.\<close>

definition sized_device :: "('p, 'v) ldal \<Rightarrow> addr \<Rightarrow> bool" where
  "sized_device s a \<longleftrightarrow>
     (\<exists>d c k. devices s a = Some d \<and> dclass d = Some c \<and> classes s c = Some k \<and> unat (class_id k) < 12 \<and>
        length (name d) = LDAL_NAME_MAX \<and> NUL \<in> set (name d) \<and>
        length (filename d) = LDAL_FILENAME_MAX \<and> NUL \<in> set (filename d))"

lemma label_facts:
  assumes "i < 12"
  shows "c_string (class_label ! i)" "length (class_label ! i) \<le> 16"
proof -
  have "i < length class_label" using assms by (simp add: class_label_def)
  then have "class_label ! i \<in> set class_label" by (rule nth_mem)
  moreover have "\<forall>l \<in> set class_label. c_string l \<and> length l \<le> 16" by (simp add: class_label_def NUL_def)
  ultimately show "c_string (class_label ! i)" "length (class_label ! i) \<le> 16" by blast+
qed

lemma cstr_shorter: "NUL \<in> set buf \<Longrightarrow> length (cstr buf) < length buf"
proof -
  assume "NUL \<in> set buf"
  then obtain ys zs where "buf = ys @ NUL # zs" "NUL \<notin> set ys" by (blast dest: split_list_first)
  then show ?thesis by (simp add: c_string_def [symmetric])
qed

lemma sized_deviceE:
  assumes "sized_device s a"
  obtains d c k where "devices s a = Some d" "dclass d = Some c" "classes s c = Some k" "unat (class_id k) < 12"
    "load_device s a = Inr d" "label_of s d = Inr (class_label ! unat (class_id k))"
    "read_cstr (name d) = Inr (cstr (name d))" "read_cstr (filename d) = Inr (cstr (filename d))"
    "length (cstr (name d)) < 32" "length (cstr (filename d)) < 64"
proof -
  obtain d c k where d: "devices s a = Some d" "dclass d = Some c" "classes s c = Some k" "unat (class_id k) < 12"
    "length (name d) = 32" "NUL \<in> set (name d)" "length (filename d) = 64" "NUL \<in> set (filename d)"
    using assms by (auto simp: sized_device_def)
  have "length class_label = 12" by (simp add: class_label_def)
  then have "label_of s d = Inr (class_label ! unat (class_id k))" using d by (simp add: label_of_def load_class_def)
  with that [of d c k] d cstr_shorter [OF d(6)] cstr_shorter [OF d(8)] show thesis
    by (simp add: load_device_def read_cstr_def)
qed

lemma device_line_ok:
  assumes "sized_device s a"
  shows "device_line s a = Inr (device_text s a)" "c_string (device_text s a)" "length (device_text s a) \<le> 122"
proof -
  obtain d c k where d: "devices s a = Some d" "dclass d = Some c" "classes s c = Some k" "unat (class_id k) < 12"
    "load_device s a = Inr d" "label_of s d = Inr (class_label ! unat (class_id k))"
    "read_cstr (name d) = Inr (cstr (name d))" "read_cstr (filename d) = Inr (cstr (filename d))"
    "length (cstr (name d)) < 32" "length (cstr (filename d)) < 64"
    using sized_deviceE [OF assms] .
  show "device_line s a = Inr (device_text s a)"
    by (simp add: device_line_def device_text_def d Let_def)
  have p: "print_d (uint (ref d)) = decimal (unat (ref d))" by (simp add: print_d_def)
  show "c_string (device_text s a)"
    using d label_facts(1) [OF d(4)] by (simp add: device_text_def p NUL_def Let_def)
  have "unat (ref d) < 2 ^ 16" by (rule order_less_le_trans [OF unsigned_less]) simp
  then have "length (decimal (unat (ref d))) \<le> 5" by (intro decimal_length) simp_all
  then show "length (device_text s a) \<le> 122"
    using label_facts(2) [OF d(4)] d by (simp add: device_text_def p Let_def)
qed

text \<open>What is printed when the library is unloaded: the same devices in the same order, and the lock is released.\<close>

lemma shown_devices:
  assumes "registry E s ds cs" "\<forall>a \<in> set ds. sized_device s a"
  shows "ldal_show_device_list s = Inr (concat (map (\<lambda>a.
    let d = the (devices s a); c = the (classes s (the (dclass d)))
    in ''!_ '' @ class_label ! unat (class_id c) @ '': '' @ cstr (name d) @ '' -> '' @ cstr (filename d) @ [CHR 0x0A]) ds), s)"
proof -
  let ?l = "\<lambda>a. let d = the (devices s a); c = the (classes s (the (dclass d)))
    in ''!_ '' @ class_label ! unat (class_id c) @ '': '' @ cstr (name d) @ '' -> '' @ cstr (filename d) @ [CHR 0x0A]"
  have "sized_device s a \<Longrightarrow> show_line s out a = Inr (out @ ?l a)" for out a
    by (erule sized_deviceE) (simp add: show_line_def Let_def)
  then have "\<forall>a \<in> set as. sized_device s a \<Longrightarrow> each_res (show_line s) out as = Inr (out @ concat (map ?l as))" for out as
    by (induction as arbitrary: out) simp_all
  from this [OF assms(2), of "[]"] have e: "each_res (show_line s) [] ds = Inr (concat (map ?l ds))" by simp
  have l: "dlist (nodes s) ldal_device_list ds" "rwlock_dev s = Unlocked" using assms(1) by (simp_all add: registry_def)
  have "list_for_each (nodes s) ldal_device_list (show_line s) [] = Inr (concat (map ?l ds))"
    by (simp only: list_for_each_ok [OF l(1)] e)
  moreover have "s\<lparr>rwlock_dev := Unlocked\<rparr> = s" using l(2) by simp
  ultimately show ?thesis by (simp add: ldal_show_device_list_def show_line_lock l(2))
qed

lemma snprintf_whole:
  assumes "length buf = 128" "sized_device s a"
  obtains buf' where "snprintf buf 128 (device_text s a) = Inr buf'" "length buf' = 128"
    "read_cstr buf' = Inr (device_text s a)"
  using snprintf_holds [OF assms(1) _ device_line_ok(2) [OF assms(2)]] device_line_ok(3) [OF assms(2)]
  by (auto simp: holds_def)

lemma add_lines:
  assumes "holds 4096 res t" "length buffer = 128" "\<forall>a \<in> set as. sized_device s a"
  shows "fits 4096 (map_sum id snd (each_res (add_line s) (buffer, res) as)) (t @ concat (map (device_text s) as))"
  using assms
proof (induction as arbitrary: buffer res t)
  case Nil
  then show ?case by (simp add: fits_holds)
next
  case (Cons a as)
  have a: "sized_device s a" "\<forall>a \<in> set as. sized_device s a" using Cons.prems(3) by auto
  obtain b where b: "snprintf buffer 128 (device_text s a) = Inr b" "length b = 128" "read_cstr b = Inr (device_text s a)"
    using snprintf_whole [OF Cons.prems(2) a(1)] .
  have eq: "map_sum id snd (each_res (add_line s) (buffer, res) (a # as)) =
      bind_res (strcat res (device_text s a)) (\<lambda>res. map_sum id snd (each_res (add_line s) (b, res) as))"
    by (cases "strcat res (device_text s a)") (simp_all add: add_line_def device_line_ok(1) [OF a(1)] b strncat_def)
  have "fits 4096 (map_sum id snd (each_res (add_line s) (b, res') as))
      ((t @ device_text s a) @ concat (map (device_text s) as))" if "holds 4096 res' (t @ device_text s a)" for res'
    by (rule Cons.IH [OF that b(2) a(2)])
  from fits_bind [OF fits_strcat [OF Cons.prems(1) device_line_ok(2) [OF a(1)]] this]
  show ?case unfolding eq by simp
qed

lemma list_device_text:
  assumes "dlist (nodes s) ldal_device_list ds" "\<forall>a \<in> set ds. sized_device s a"
  shows "list_device s =
    (let t = concat (map (device_text s) ds) in
     if length t < 4096 then Inr (Some (cJSON_CreateString t)) else Inl Out_Of_Bounds)"
proof -
  let ?r = "each_res (add_line s) (replicate 128 NUL, replicate 4096 NUL) ds"
  have "holds 4096 (replicate 4096 NUL) []" by (intro holds_empty) simp_all
  from add_lines [OF this _ assms(2), of "replicate 128 NUL"]
  have f: "fits 4096 (map_sum id snd ?r) (concat (map (device_text s) ds))" by simp
  have "list_device s = bind_res (map_sum id snd ?r) (\<lambda>b. bind_res (read_cstr b) (\<lambda>t. Inr (Some (cJSON_CreateString t))))"
    by (cases ?r) (auto simp: list_device_def list_for_each_ok [OF assms(1)])
  then show ?thesis by (simp only: fits_read [OF f] Let_def)
qed

lemma device_text_total:
  "\<forall>a \<in> set ds. sized_device s a \<Longrightarrow> length (concat (map (device_text s) ds)) \<le> 122 * length ds"
  by (induction ds) (auto dest: device_line_ok(3))

text \<open>
  Property C4. The list of devices that the server sends. For a registry whose devices have terminated names and paths in arrays of
  the declared size, the answer has one line for each device, in the order of registration, and no line is cut off. The text is
  collected in 4096 characters without a test: up to 33 devices always fit, and a longer text overruns the stack.
\<close>
theorem device_listing:
  assumes "registry E s ds cs" "\<forall>a \<in> set ds. sized_device s a"
  shows "list_device s =
      (if length (concat (map (device_text s) ds)) < 4096
       then Inr (Some (json_tree (JStr (concat (map (device_text s) ds))))) else Inl Out_Of_Bounds) \<and>
    (length ds \<le> 33 \<longrightarrow> length (concat (map (device_text s) ds)) < 4096)"
proof -
  have "dlist (nodes s) ldal_device_list ds" using assms(1) by (simp add: registry_def)
  from list_device_text [OF this assms(2)] device_text_total [OF assms(2)] show ?thesis by (simp add: Let_def)
qed

section \<open>The other procedures\<close>

text \<open>The uptime in days, hours and minutes, for every uptime of less than 4000 years.\<close>

lemma get_uptime_value:
  assumes "s_sysinfo S w = (0, up, w')" "0 \<le> up" "up < 60 * 2 ^ 31"
  shows "get_uptime S w =
    Inr (Some (json_tree (JArr [JInt (up div 86400), JInt (up div 3600 mod 24), JInt (up div 60 mod 60)])), w')"
proof -
  have c: "c_div up k = up div k" if "0 < k" for k
    using assms(2) that by (cases "up = 0") (simp_all add: c_div_def)
  have d: "up div 86400 = up div 3600 div 24" "up div 3600 = up div 60 div 60" by (simp_all add: zdiv_zmult2_eq [symmetric])
  define m where "m = up div 60"
  have m: "0 \<le> m" "m < 2 ^ 31" using assms(2,3) by (simp_all add: m_def)
  have e: "up div 3600 = m div 60" "up div 86400 = m div 60 div 24" by (simp_all only: d m_def)
  have h: "m div 60 - m div 60 div 24 * 24 = m div 60 mod 24" "m - m div 60 div 24 * 1440 - m div 60 mod 24 * 60 = m mod 60"
    using m by presburger+
  have q: "0 \<le> m div 60" "m div 60 * 60 \<le> m" using m(1) by presburger+
  have "x div 24 * 24 \<le> x" "x mod 24 \<le> x" if "0 \<le> x" for x :: int using that by presburger+
  note d = this [OF q(1)]
  have b: "0 \<le> m div 60 div 24" "m div 60 div 24 * 1440 \<le> m" "0 \<le> m div 60 mod 24"
    "0 \<le> m mod 60" "m mod 60 \<le> m"
    using d q m(1) by (simp_all add: zmod_le_nonneg_dividend)
  have b': "m div 60 mod 24 * 60 \<le> m" using d(2) q(2) by linarith
  have r: "in_int x" if "0 \<le> x" "x \<le> m" for x using that m(2) by (simp add: in_int_def)
  have i: "in_int (m div 60 div 24)" "in_int (m div 60 div 24 * 24)" "in_int (m div 60 div 24 * 1440)"
    "in_int (m div 60 mod 24)" "in_int (m div 60 mod 24 * 60)" "in_int (m mod 60)"
    by (rule r; use b b' in linarith)+
  show ?thesis
    using create_three [of "m div 60 div 24" "m div 60 mod 24" "m mod 60"]
    by (simp add: get_uptime_def assms(1) Let_def c e m_def [symmetric] c_mul_def i h del: json_tree.simps)
qed

lemma uptime_range:
  assumes "0 \<le> up" "up < 60 * 2 ^ 31"
  shows "json_ok (JArr [JInt (up div 86400), JInt (up div 3600 mod 24), JInt (up div 60 mod 60)])"
proof -
  have "0 \<le> up div 86400" "up div 86400 < 2 ^ 31" using assms by (simp_all add: pos_imp_zdiv_nonneg_iff)
  moreover have "0 \<le> x mod 24 \<and> x mod 24 < 24" "0 \<le> x mod 60 \<and> x mod 60 < 60" for x :: int by simp_all
  from this(1) [of "up div 3600"] this(2) [of "up div 60"]
  have "in_int (up div 3600 mod 24)" "in_int (up div 60 mod 60)" by (auto simp: in_int_def)
  ultimately show ?thesis by (simp add: in_int_def)
qed

text \<open>What is given to the shell is the URL behind \<open>wget\<close>, whatever characters it has.\<close>

lemma download_command:
  assumes "rpc_request kvs m ps idt"
  shows "download S (rpc_params kvs) w =
    (case json_values ps of
       JStr u # _ \<Rightarrow> Inr (Some (json_tree (JStr ''Ok'')), snd (s_system S (''wget '' @ u) w))
     | _ \<Rightarrow> Inl Null_Pointer)"
proof (cases "rpc_params kvs")
  case None
  then have "ps = None" using assms by (auto simp: rpc_params_def rpc_request_def json_get_def)
  with None show ?thesis by (simp add: download_def cJSON_GetArrayItem_def)
next
  case (Some p)
  note v = params_values [OF assms Some]
  show ?thesis
  proof (cases "json_values ps")
    case Nil
    then show ?thesis using v by (simp add: download_def Some cJSON_GetArrayItem_def nth_item_nth)
  next
    case (Cons x xs)
    then have "0 < length (children p)" "valuestring (children p ! 0) = valuestring (json_tree x)" using v by auto
    then show ?thesis
      unfolding Cons
      by (cases x) (simp_all add: download_def Some cJSON_GetArrayItem_def nth_item_nth case_prod_unfold Let_def
          cJSON_CreateString_def cJSON_CreateNull_def cJSON_CreateFalse_def)
  qed
qed

text \<open>
  A file of \<open>/proc\<close> whose path is not cut is returned with \<open>endstring\<close> behind it when both fit into the buffer with their terminator;
  what does not overruns the buffer.
\<close>

lemma read_proc_file:
  assumes "data_string data = Some d" "c_string d" "length d < 44" "s_lock S w = Inr w1"
    "k_open K (''/proc/'' @ d) O_RDONLY 0 w1 = (f, w2)" "0 \<le> f"
    "k_read K f PROC_BUFF w2 = (int (length bs), bs, w3)" "c_string (bytes_str bs)" "length bs < PROC_BUFF"
  shows "read_proc K S data w =
    (if length bs + length endstring < PROC_BUFF
     then Inr (Some (cJSON_CreateString (bytes_str bs @ endstring)), s_unlock S (snd (k_close K f w3)))
     else Inl Out_Of_Bounds)"
proof -
  have l: "lookup_func ''proc'' = Inr (Some \<lparr>cmd_name = Some ''proc'', cmd_type = 2, cmd_lock = True\<rparr>)"
    by (simp add: lookup_func_def lookup_table_def)
  have c: "c_string (''/proc/'' @ d)" using assms(2) by (simp add: NUL_def)
  obtain pp where "snprintf (replicate 50 NUL) 50 (''/proc/'' @ d) = Inr pp" "holds 50 pp (''/proc/'' @ d)"
    using snprintf_holds [OF _ _ c, of "replicate 50 NUL" 50] assms(3) by (auto simp del: replicate.simps)
  then have pp: "snprintf (replicate 50 NUL) 50 (''/proc/'' @ d) = Inr pp" "read_cstr pp = Inr (''/proc/'' @ d)"
    by (simp_all only: holds_read)
  let ?b = "bytes_str bs @ replicate (PROC_BUFF - length bs) NUL"
  have n: "length (bytes_str bs) = length bs" by (simp add: bytes_str_def)
  have m: "memcpy (replicate PROC_BUFF NUL) 0 (bytes_str bs) 0 (int (length bs)) = Inr ?b"
    using memcpy_nat [of 0 "length bs" "replicate PROC_BUFF NUL" 0 "bytes_str bs"] assms(9) n by simp
  have "holds PROC_BUFF ?b (bytes_str bs)"
    using assms(8,9) n by (auto simp: holds_def intro!: exI [of _ "replicate (PROC_BUFF - length bs - 1) NUL"]
        simp flip: replicate_Suc)
  moreover have "c_string endstring" by (simp add: endstring_def NUL_def)
  ultimately have "fits PROC_BUFF (strcat ?b endstring) (bytes_str bs @ endstring)" by (rule fits_strcat)
  note fr = fits_read [OF this]
  have f: "max 0 (int (length bs)) = int (length bs)" "(f < 0) = False" using assms(6) by simp_all
  show ?thesis
    unfolding read_proc_def
    by (simp only: assms(1,4,5,7) option.case l bind_res.simps pp Let_def prod.case if_False f m case_prod_unfold fst_conv snd_conv fr)
      (simp add: n)
qed

text \<open>A procedure that returns a tree is answered with it.\<close>

lemma serve_reply:
  assumes r: "conn_ok c" "pos c = 0" "pow10 E 0 = Num 1" "served server" "rpc_request kvs m ps idt" "json_ok (JObj kvs)"
      "t = json_text fmt 0 (JObj kvs)" "length t + 2 \<le> unat (buffer_size c)"
      "k_read K (conn_fd c) (unat (buffer_size c) - 1) w = (int (length t), str_bytes t, w1)"
    and f: "(f, m, data) \<in> set serve_procedures"
  shows "serve_call K N S server f data (rpc_params kvs) (map_option json_tree idt) w1 =
      Inr (0, None, Some (json_tree v), w2) \<Longrightarrow> json_ok v \<Longrightarrow>
    connection_cb K N E (serve_call K N S) server c w = Inr (Some c, write_line K (conn_fd c) (rpc_reply v idt) w2)"
    "serve_call K N S server f data (rpc_params kvs) (map_option json_tree idt) w1 = Inl x \<Longrightarrow>
    connection_cb K N E (serve_call K N S) server c w = Inl x"
proof -
  obtain c' where c: "conn_fd c' = conn_fd c" "connection_cb K N E (serve_call K N S) server c w =
      bind_res (serve_call K N S server f data (rpc_params kvs) (map_option json_tree idt) w1) (\<lambda>x.
      bind_res (answer K c' (map_option json_tree idt) x) (\<lambda>(_, w). Inr (Some c, w)))"
    using serve_request [OF r(1-4) f r(5-9)] .
  show "connection_cb K N E (serve_call K N S) server c w = Inr (Some c, write_line K (conn_fd c) (rpc_reply v idt) w2)"
    if "serve_call K N S server f data (rpc_params kvs) (map_option json_tree idt) w1 =
      Inr (0, None, Some (json_tree v), w2)" "json_ok v"
    using reply_ok_id [OF r(5,6) that(2)] by (simp add: c that(1) answer_tree del: json_tree.simps)
  show "connection_cb K N E (serve_call K N S) server c w = Inl x"
    if "serve_call K N S server f data (rpc_params kvs) (map_option json_tree idt) w1 = Inl x"
    by (simp add: c that)
qed

text \<open>
  Property C5. What the server answers to requests for its other procedures, from the bytes of the request to those of the answer.
  \<open>sayHello\<close> answers with a greeting. \<open>getUptime\<close> answers with the days, hours and minutes of the uptime, for every uptime
  of less than 4000 years, and with the text \<open>null\<close> if the system refuses. \<open>listAllMethod\<close> answers with the names of the eight procedures.
  \<open>getProcVersion\<close> answers with the text of \<open>/proc/version\<close> and \<open>endstring\<close> behind it, and overruns its
  buffer when the two with their terminator are longer than it. \<open>download\<close> gives \<open>wget\<close> and the first parameter to the shell
  whatever characters that has, and stops the process when there is no first parameter or it is no string. \<open>exit\<close> asks the event
  loop to end before the answer is sent.
\<close>
theorem serve_methods:
  assumes r: "conn_ok c" "pos c = 0" "pow10 E 0 = Num 1" "served server" "rpc_request kvs m ps idt" "json_ok (JObj kvs)"
      "t = json_text fmt 0 (JObj kvs)" "length t + 2 \<le> unat (buffer_size c)"
      "k_read K (conn_fd c) (unat (buffer_size c) - 1) w = (int (length t), str_bytes t, w1)"
    and stack: "length (s_stack S CMD_BUFF w1) = CMD_BUFF"
  defines "reply \<equiv> \<lambda>v w. Inr (Some c, write_line K (conn_fd c) (rpc_reply v idt) w)"
  shows "(m = ''sayHello'' \<longrightarrow> connection_cb K N E (serve_call K N S) server c w = reply (JStr ''Hello!'') w1) \<and>
    (m = ''getUptime'' \<and> s_sysinfo S w1 = (res, up, wu) \<and> 0 \<le> up \<and> up < 60 * 2 ^ 31 \<longrightarrow>
      connection_cb K N E (serve_call K N S) server c w =
      reply (if res = 0 then JArr [JInt (up div 86400), JInt (up div 3600 mod 24), JInt (up div 60 mod 60)]
        else JStr ''null'') wu) \<and>
    (m = ''listAllMethod'' \<longrightarrow> connection_cb K N E (serve_call K N S) server c w =
      reply (JStr ''sayHello getUptime listAllMethod listAllDevice getProcVersion add download exit eastendstring'') w1) \<and>
    (m = ''getProcVersion'' \<and> s_lock S w1 = Inr w2 \<and> k_open K ''/proc/version'' O_RDONLY 0 w2 = (f, w3) \<and> 0 \<le> f \<and>
      k_read K f PROC_BUFF w3 = (int (length bs), bs, w4) \<and> c_string (bytes_str bs) \<and> length bs < PROC_BUFF \<longrightarrow>
      connection_cb K N E (serve_call K N S) server c w =
      (if length bs + length endstring < PROC_BUFF
       then reply (JStr (bytes_str bs @ endstring)) (s_unlock S (snd (k_close K f w4))) else Inl Out_Of_Bounds)) \<and>
    (m = ''download'' \<longrightarrow> connection_cb K N E (serve_call K N S) server c w =
      (case json_values ps of
         JStr u # _ \<Rightarrow> reply (JStr ''Ok'') (snd (s_system S (''wget '' @ u) w1)) | _ \<Rightarrow> Inl Null_Pointer)) \<and>
    (m = ''exit'' \<longrightarrow> connection_cb K N E (serve_call K N S) server c w = reply (JStr ''Bye!'') (o_ev_break N w1))"
proof (intro conjI impI)
  note go = serve_reply [OF r]
  have ok: "json_ok (JStr ''Hello!'')" "json_ok (JStr ''null'')" "json_ok (JStr ''Ok'')" "json_ok (JStr ''Bye!'')"
    "json_ok (JStr ''sayHello getUptime listAllMethod listAllDevice getProcVersion add download exit eastendstring'')"
    by (simp_all add: NUL_def)
  show "connection_cb K N E (serve_call K N S) server c w = reply (JStr ''Hello!'') w1" if "m = ''sayHello''"
    unfolding reply_def by (rule go(1) [OF _ _ ok(1), of Say_Hello No_Data])
      (simp_all add: that serve_procedures_def say_hello_def)
  show "connection_cb K N E (serve_call K N S) server c w =
      reply (JStr ''sayHello getUptime listAllMethod listAllDevice getProcVersion add download exit eastendstring'') w1"
    if "m = ''listAllMethod''"
    unfolding reply_def by (rule go(1) [OF _ _ ok(5), of List_All No_Data])
      (simp_all add: that serve_procedures_def served_names [OF r(4) stack])
  show "connection_cb K N E (serve_call K N S) server c w = reply (JStr ''Bye!'') (o_ev_break N w1)" if "m = ''exit''"
    unfolding reply_def by (rule go(1) [OF _ _ ok(4), of Exit_Server No_Data])
      (simp_all add: that serve_procedures_def exit_server_def jrpc_server_stop_def)
  show "connection_cb K N E (serve_call K N S) server c w =
      reply (if res = 0 then JArr [JInt (up div 86400), JInt (up div 3600 mod 24), JInt (up div 60 mod 60)]
        else JStr ''null'') wu" if u: "m = ''getUptime'' \<and> s_sysinfo S w1 = (res, up, wu) \<and> 0 \<le> up \<and> up < 60 * 2 ^ 31"
  proof (cases "res = 0")
    case True
    from u have up: "s_sysinfo S w1 = (0, up, wu)" "0 \<le> up" "up < 60 * 2 ^ 31" using True by simp_all
    then show ?thesis
      unfolding reply_def if_P [OF True]
      by (intro go(1) [of Get_Uptime No_Data])
        (simp_all add: u serve_procedures_def get_uptime_value [OF up]
          uptime_range [OF up(2,3)] del: json_ok.simps)
  next
    case False
    then show ?thesis
      unfolding reply_def if_not_P [OF False]
      by (intro go(1) [OF _ _ ok(2), of Get_Uptime No_Data]) (simp_all add: u serve_procedures_def get_uptime_def)
  qed
  show "connection_cb K N E (serve_call K N S) server c w =
      (case json_values ps of
         JStr u # _ \<Rightarrow> reply (JStr ''Ok'') (snd (s_system S (''wget '' @ u) w1)) | _ \<Rightarrow> Inl Null_Pointer)"
    if "m = ''download''"
  proof -
    have p: "(Download, m, No_Data) \<in> set serve_procedures" by (simp add: that serve_procedures_def)
    show ?thesis
      using go(1) [OF p _ ok(3)] go(2) [OF p]
      by (auto simp: download_command [OF r(5)] reply_def split: list.split json.split)
  qed
  show "connection_cb K N E (serve_call K N S) server c w =
      (if length bs + length endstring < PROC_BUFF
       then reply (JStr (bytes_str bs @ endstring)) (s_unlock S (snd (k_close K f w4))) else Inl Out_Of_Bounds)"
    if u: "m = ''getProcVersion'' \<and> s_lock S w1 = Inr w2 \<and> k_open K ''/proc/version'' O_RDONLY 0 w2 = (f, w3) \<and> 0 \<le> f \<and>
      k_read K f PROC_BUFF w3 = (int (length bs), bs, w4) \<and> c_string (bytes_str bs) \<and> length bs < PROC_BUFF"
  proof -
    from u have proc: "s_lock S w1 = Inr w2" "k_open K ''/proc/version'' O_RDONLY 0 w2 = (f, w3)" "0 \<le> f"
      "k_read K f PROC_BUFF w3 = (int (length bs), bs, w4)" "c_string (bytes_str bs)" "length bs < PROC_BUFF" by simp_all
    have p: "(Read_Proc, m, Static_Data ''version'') \<in> set serve_procedures" by (simp add: u serve_procedures_def)
    have "json_ok (JStr (bytes_str bs @ endstring))" using proc(5) by (simp add: endstring_def NUL_def)
    note q = go(1) [OF p _ this] go(2) [OF p]
    have v: "data_string (Static_Data ''version'') = Some ''version''" "c_string ''version''" "length ''version'' < 44"
      by (simp_all add: data_string_def NUL_def)
    have "read_proc K S (Static_Data ''version'') w1 =
        (if length bs + length endstring < PROC_BUFF
         then Inr (Some (cJSON_CreateString (bytes_str bs @ endstring)), s_unlock S (snd (k_close K f w4)))
         else Inl Out_Of_Bounds)"
      by (rule read_proc_file [OF v proc(1) _ proc(3-6)]) (simp add: proc(2))
    then show ?thesis
      by (cases "length bs + length endstring < PROC_BUFF")
        (simp_all add: reply_def q(1) [of N S] q(2) [of N S])
  qed
qed

section \<open>The end of the server\<close>

text \<open>
  Property C6. The thread of the server never ends properly. However the server starts, whatever its clients ask and whenever
  its loop returns, as it does after the request \<open>exit\<close>, the destruction of the table frees the literal \<open>version\<close> that one procedure
  was registered with, which is not memory from the heap.
\<close>
theorem server_exit:
  assumes "jrpc_server_init_with_ev_loop K N PORT w = Inr (r, f, (server :: handler jrpc_server), w1)"
    "\<forall>n w. fst (o_realloc N n w)" "\<forall>server w. \<exists>w'. run server f w = Inr w'"
  shows "serve_thread_entry K N run w = Inl Invalid_Free"
proof -
  obtain server' w2 where s: "served server'"
    "serve_thread_entry K N run w = bind_res (run server' f w2) (\<lambda>w. bind_res (jrpc_server_destroy server') (\<lambda>_. Inr w))"
    using serve_start [OF assms(1,2)] .
  moreover obtain w3 where "run server' f w2 = Inr w3" using assms(3) by blast
  ultimately show ?thesis by (simp add: served_destroy)
qed

section \<open>Examples\<close>

definition sample_server :: "handler jrpc_server" where
  "sample_server = \<lparr>port_number = 1601, procedure_count = 8,
     procedures = Some (map (Some \<circ> entry) serve_procedures), debug_level = 0\<rparr>"

lemma sample_served: "served sample_server"
  by (simp add: served_def table_ok_def sample_server_def serve_procedures_def)

definition sample_serve_os :: "(unit, nat, nat) serve_os" where
  "sample_serve_os = \<lparr>s_sysinfo = (\<lambda>w. (0, 90061, Suc w)), s_system = (\<lambda>_ w. (0, Suc w)), s_lock = Inr, s_unlock = id,
     s_thread = Suc, s_stack = (\<lambda>n w. replicate n NUL), s_registry = (\<lambda>w. two_devices)\<rparr>"

definition add_request :: "(string \<times> json) list" where
  "add_request = [(''method'', JStr ''add''), (''params'', JArr [JInt 2, JInt 3]), (''id'', JInt 7)]"

definition add_text :: string where
  "add_text = json_text False 0 (JObj add_request)"

definition add_kernel :: "nat kernel" where
  "add_kernel = sample_kernel\<lparr>k_read := (\<lambda>_ n w. (int (length add_text), str_bytes add_text, Suc w))\<rparr>"

lemma serve_add_witness:
  "connection_cb add_kernel sample_os sample_env (serve_call add_kernel sample_os sample_serve_os) sample_server
      new_connection 0 =
     Inr (Some new_connection, write_line add_kernel 5 (rpc_reply (JInt 5) (Some (JInt 7))) 1)"
proof -
  have r: "rpc_request add_request ''add'' (Some (JArr [JInt 2, JInt 3])) (Some (JInt 7))" "json_ok (JObj add_request)"
    by (simp_all add: rpc_request_def json_get_def json_find_def add_request_def tolower_def NUL_def in_int_def)
  have l: "length add_text \<le> 60"
    by (simp add: add_text_def add_request_def quoted_def print_d_def decimal.simps escaped_def escape_char_def)
  have s: "unat (buffer_size new_connection) = 1500" "pos new_connection = 0" "conn_fd new_connection = 5"
    by (simp_all add: new_connection_def)
  have e: "pow10 sample_env 0 = Num 1" by (simp add: sample_env_def)
  have 1: "length add_text + 2 \<le> unat (buffer_size new_connection)" using l s(1) by linarith
  have 2: "k_read add_kernel (conn_fd new_connection) (unat (buffer_size new_connection) - 1) 0 =
      (int (length add_text), str_bytes add_text, 1)" by (simp add: add_kernel_def)
  show ?thesis
    using serve_add [OF new_connection_ok s(2) e sample_served r add_text_def 1 2, of sample_os sample_serve_os]
    by (simp add: s(3) in_int_def Let_def)
qed

definition uptime_request :: "(string \<times> json) list" where
  "uptime_request = [(''method'', JStr ''getUptime''), (''id'', JInt 7)]"

definition uptime_text :: string where
  "uptime_text = json_text False 0 (JObj uptime_request)"

definition uptime_kernel :: "nat kernel" where
  "uptime_kernel = sample_kernel\<lparr>k_read := (\<lambda>_ n w. (int (length uptime_text), str_bytes uptime_text, Suc w))\<rparr>"

lemma serve_methods_witness:
  "connection_cb uptime_kernel sample_os sample_env (serve_call uptime_kernel sample_os sample_serve_os) sample_server
      new_connection 0 =
     Inr (Some new_connection, write_line uptime_kernel 5 (rpc_reply (JArr [JInt 1, JInt 1, JInt 1]) (Some (JInt 7))) 2)"
proof -
  have r: "rpc_request uptime_request ''getUptime'' None (Some (JInt 7))" "json_ok (JObj uptime_request)"
    by (simp_all add: rpc_request_def json_get_def json_find_def uptime_request_def tolower_def NUL_def in_int_def)
  have l: "length uptime_text \<le> 60"
    by (simp add: uptime_text_def uptime_request_def quoted_def print_d_def decimal.simps escaped_def escape_char_def)
  have s: "unat (buffer_size new_connection) = 1500" "pos new_connection = 0" "conn_fd new_connection = 5"
    by (simp_all add: new_connection_def)
  have e: "pow10 sample_env 0 = Num 1" by (simp add: sample_env_def)
  have 1: "length uptime_text + 2 \<le> unat (buffer_size new_connection)" using l s(1) by linarith
  have 2: "k_read uptime_kernel (conn_fd new_connection) (unat (buffer_size new_connection) - 1) 0 =
      (int (length uptime_text), str_bytes uptime_text, 1)" by (simp add: uptime_kernel_def)
  have 3: "length (s_stack sample_serve_os CMD_BUFF 1) = CMD_BUFF" "s_sysinfo sample_serve_os (Suc 0) = (0, 90061, 2)"
    by (simp_all add: sample_serve_os_def)
  note m = serve_methods [OF new_connection_ok s(2) e sample_served r uptime_text_def 1 2 3(1), THEN conjunct2,
      THEN conjunct1, rule_format, of 0 90061 2]
  show ?thesis using m [of sample_os] 3(2) s(3) by simp
qed

lemma device_listing_witness:
  "list_device two_devices = Inr (Some (json_tree (JStr
     (''GPIO Device: AI10, /dev/x, 0'' @ [CHR 0x0A] @ ''GPIO Device: AI1, /dev/x, 0'' @ [CHR 0x0A]))))"
proof -
  have n: "cstr (name (listed_device s)) = s" "cstr (filename (listed_device s)) = ''/dev/x''"
    "length (name (listed_device s)) = 32" "length (filename (listed_device s)) = 64"
    "NUL \<in> set (name (listed_device s))" "NUL \<in> set (filename (listed_device s))"
    if "s \<in> {''AI10'', ''AI1''}" for s
    using that cstr_padded [of s 32] cstr_padded [of "''/dev/x''" 64]
    by (auto simp: listed_device_def fresh_device_def NUL_def simp del: replicate.simps)
  have d: "\<forall>a \<in> set [2, 3]. sized_device two_devices a"
    using n by (simp add: sized_device_def two_devices_def) (simp add: listed_device_def)
  have z: "digit_char 0 = CHR ''0''" by (simp add: digit_char_def char_of_eq_iff)
  have t: "device_text two_devices 2 = ''GPIO Device: AI10, /dev/x, 0'' @ [CHR 0x0A]"
    "device_text two_devices 3 = ''GPIO Device: AI1, /dev/x, 0'' @ [CHR 0x0A]"
    using n by (simp_all add: device_text_def two_devices_def class_label_def Let_def)
      (simp_all add: listed_device_def fresh_device_def print_d_def decimal.simps z)
  show ?thesis using device_listing [OF two_devices_registry d] by (simp add: t)
qed

lemma server_exit_witness:
  "serve_thread_entry sample_kernel (sample_os\<lparr>o_realloc := \<lambda>_ w. (True, w)\<rparr>) (\<lambda>_ _ w. Inr w) 0 = Inl Invalid_Free"
proof -
  let ?N = "sample_os\<lparr>o_realloc := \<lambda>_ w. (True, w)\<rparr>"
  have "\<exists>r f w1. jrpc_server_init_with_ev_loop sample_kernel ?N PORT 0 =
      Inr (r, f, \<lparr>port_number = 1601, procedure_count = 0, procedures = None, debug_level = 0\<rparr> :: handler jrpc_server, w1)"
    by (simp add: jrpc_server_init_with_ev_loop_def jrpc_server_start_def sample_os_def sample_kernel_def PORT_def
        heap_string_def print_d_def decimal.simps digit_char_def htons_htons)
  then obtain r f w1 where "jrpc_server_init_with_ev_loop sample_kernel ?N PORT 0 =
      Inr (r, f, \<lparr>port_number = 1601, procedure_count = 0, procedures = None, debug_level = 0\<rparr> :: handler jrpc_server, w1)"
    by blast
  from server_exit [OF this] show ?thesis by simp
qed

section \<open>The list of devices while it changes\<close>

text \<open>
  The listing takes no lock. When the device at which its loop stands is unlinked by another thread, as unregistering does, the
  next step of the loop dereferences the null link that is left in the device.
\<close>

lemma unlinked_null: "list_del h a = Inr h' \<Longrightarrow> follow h' a = Inl Null_Pointer"
  by (auto simp: list_del_def set_next_def set_prev_def follow_def load_def split: option.splits if_splits)

lemma listing_race:
  assumes "list_del (nodes s) a = Inr h'" "a \<noteq> ldal_device_list" "add_line s x a = Inr y"
  shows "walk_each h' ldal_device_list (add_line s) x a = Some (Inl Null_Pointer)"
  using assms unlinked_null [OF assms(1)] by (simp add: walk_each.simps [of h' ldal_device_list "add_line s" x a])

end
