(* ===== verification/Netdev.thy ===== *)
theory Netdev
  imports Ldal_Device
begin

text \<open>
  The network interface settings of \<open>src/netdev.c\<close>: hardware address, address, mask, gateway, name server and link state of an
  interface. Each call opens a socket, makes one or two \<open>ioctl\<close>s and closes the socket.
\<close>

section \<open>Surroundings\<close>

text \<open>
  The calls that only this file makes. An \<open>ioctl\<close> takes the descriptor, the name of the interface and what is set, and
  gives its result and what was read. \<open>n_fgets\<close> is the string in the buffer after the call, and \<open>n_res_ninit\<close> tells whether the memory for the
  resolver's state could be had, the number of name servers and the first of them.
\<close>

record rtentry =
  rt_gateway :: u32
  rt_dst :: u32
  rt_genmask :: u32
  rt_flags :: nat
  rt_dev :: string
  rt_metric :: int

record 'w netdev_os =
  n_getuid :: "'w \<Rightarrow> int"
  n_geteuid :: "'w \<Rightarrow> int"
  n_gifhwaddr :: "int \<Rightarrow> string \<Rightarrow> 'w \<Rightarrow> int \<times> byte list \<times> 'w"
  n_sifhwaddr :: "int \<Rightarrow> string \<Rightarrow> byte list \<Rightarrow> 'w \<Rightarrow> int \<times> 'w"
  n_gifaddr :: "int \<Rightarrow> string \<Rightarrow> 'w \<Rightarrow> int \<times> u32 \<times> 'w"
  n_sifaddr :: "int \<Rightarrow> string \<Rightarrow> u32 \<Rightarrow> 'w \<Rightarrow> int \<times> 'w"
  n_gifnetmask :: "int \<Rightarrow> string \<Rightarrow> 'w \<Rightarrow> int \<times> u32 \<times> 'w"
  n_sifnetmask :: "int \<Rightarrow> string \<Rightarrow> u32 \<Rightarrow> 'w \<Rightarrow> int \<times> 'w"
  n_addrt :: "int \<Rightarrow> rtentry \<Rightarrow> 'w \<Rightarrow> int \<times> 'w"
  n_gifflags :: "int \<Rightarrow> string \<Rightarrow> 'w \<Rightarrow> int \<times> u16 \<times> 'w"
  n_sifflags :: "int \<Rightarrow> string \<Rightarrow> u16 \<Rightarrow> 'w \<Rightarrow> int \<times> 'w"
  n_glink :: "int \<Rightarrow> string \<Rightarrow> 'w \<Rightarrow> int \<times> u32 \<times> 'w"
  n_popen :: "string \<Rightarrow> 'w \<Rightarrow> int option \<times> 'w"
  n_fgets :: "int \<Rightarrow> nat \<Rightarrow> 'w \<Rightarrow> string option \<times> 'w"
  n_pclose :: "int \<Rightarrow> 'w \<Rightarrow> 'w"
  n_res_ninit :: "'w \<Rightarrow> bool \<times> int \<times> u32 \<times> 'w"
  n_res_nclose :: "'w \<Rightarrow> 'w"
  n_inet_aton :: "string \<Rightarrow> u32 option"
  n_system :: "string \<Rightarrow> 'w \<Rightarrow> int \<times> 'w"

definition MAC_SIZE :: nat where "MAC_SIZE = 18"
definition IP_SIZE :: nat where "IP_SIZE = 16"
definition IFNAMSIZ :: nat where "IFNAMSIZ = 16"
definition NONE_IP :: string where "NONE_IP = ''0.0.0.0''"
definition NETDEV_MAX :: nat where "NETDEV_MAX = 2"
definition IFF_UP :: u16 where "IFF_UP = 1"

record netdev_attr =
  ipaddr :: "char list"
  netmask :: "char list"
  gateway :: "char list"
  dns :: "char list"

text \<open>The static array of the file, as it is initialised.\<close>

definition none_ip :: "char list" where
  "none_ip = NONE_IP @ replicate (IP_SIZE - length NONE_IP) NUL"

definition initial_netdev_attr :: "netdev_attr list" where
  "initial_netdev_attr = replicate NETDEV_MAX \<lparr>ipaddr = none_ip, netmask = none_ip, gateway = none_ip, dns = none_ip\<rparr>"

section \<open>Names and addresses as text\<close>

text \<open>\<open>strncpy(dst, s, n)\<close>: at most \<open>n\<close> characters, filled up with terminators; \<open>snprintf\<close> of at most \<open>n\<close> characters.\<close>

definition strncpy :: "char list \<Rightarrow> string \<Rightarrow> nat \<Rightarrow> char list result" where
  "strncpy dst s n = memcpy dst 0 (take n (s @ replicate n NUL)) 0 (int n)"

definition put_text :: "char list \<Rightarrow> nat \<Rightarrow> string \<Rightarrow> char list result" where
  "put_text dst n s = copy_string dst (take (n - 1) s)"

text \<open>The name in a cleared \<open>ifr_name\<close>: copied and cut to 15 characters, or with \<open>strcpy\<close>, which may overrun it.\<close>

definition if_name :: "string \<Rightarrow> string" where
  "if_name ifname = take (IFNAMSIZ - 1) ifname"

definition if_strcpy :: "string \<Rightarrow> string result" where
  "if_strcpy ifname = (if length ifname < IFNAMSIZ then Inr ifname else Inl Out_Of_Bounds)"

text \<open>\<open>inet_ntoa\<close>: the bytes of the address in the order of the memory of a little-endian machine.\<close>

definition inet_ntoa :: "u32 \<Rightarrow> string" where
  "inet_ntoa a =
     decimal (unat a mod 256) @ ''.'' @ decimal (unat a div 256 mod 256) @ ''.'' @
     decimal (unat a div 65536 mod 256) @ ''.'' @ decimal (unat a div 16777216 mod 256)"

text \<open>\<open>inet_pton(AF_INET, s, _)\<close>: four decimal numbers of at most 255 without leading zeros.\<close>

definition octet :: "string \<Rightarrow> nat option" where
  "octet s =
     (if s \<noteq> [] \<and> length s \<le> 3 \<and> list_all is_digit s \<and> (s ! 0 = CHR ''0'' \<longrightarrow> s = ''0'') \<and> digits_value 0 s \<le> 255
      then Some (digits_value 0 s) else None)"

fun split_dots :: "string \<Rightarrow> string list" where
  "split_dots [] = [[]]"
| "split_dots (c # s) =
     (if c = CHR ''.'' then [] # split_dots s
      else case split_dots s of [] \<Rightarrow> [[c]] | x # xs \<Rightarrow> (c # x) # xs)"

definition inet_pton :: "string \<Rightarrow> u32 option" where
  "inet_pton s =
     (case map octet (split_dots s) of
        [Some a, Some b, Some c, Some d] \<Rightarrow> Some (word_of_nat (a + 256 * b + 65536 * c + 16777216 * d))
      | _ \<Rightarrow> None)"

text \<open>\<open>%02x\<close> of a byte, and the six of them with colons.\<close>

definition hex2 :: "byte \<Rightarrow> string" where
  "hex2 b = [hex_char (unat b div 16), hex_char (unat b mod 16)]"

fun mac_text :: "byte list \<Rightarrow> string" where
  "mac_text [] = []"
| "mac_text [b] = hex2 b"
| "mac_text (b # bs) = hex2 b @ CHR '':'' # mac_text bs"

text \<open>
  \<open>%x\<close> of \<open>sscanf\<close>: white space, a sign, \<open>0x\<close>, digits. The value and the rest of the input, or nothing; a value out of the range of
  \<open>unsigned int\<close> is undefined.
\<close>

definition scan_x :: "string \<Rightarrow> (u32 \<times> string) option result" where
  "scan_x s =
     (let s = dropWhile is_space s;
          neg = (s \<noteq> [] \<and> s ! 0 = CHR ''-'');
          s = (if s \<noteq> [] \<and> (s ! 0 = CHR ''-'' \<or> s ! 0 = CHR ''+'') then tl s else s);
          s = (if 2 \<le> length s \<and> s ! 0 = CHR ''0'' \<and> (s ! 1 = CHR ''x'' \<or> s ! 1 = CHR ''X'') then drop 2 s else s)
      in if s = [] \<or> hex_value (s ! 0) = None then Inr None
         else let v = hex_digits 0 s; t = dropWhile (\<lambda>c. hex_value c \<noteq> None) s in
           if 2 ^ 32 \<le> v then Inl Int_Overflow
           else Inr (Some (if neg then - word_of_nat v else word_of_nat v, t)))"

text \<open>The values \<open>sscanf\<close> stores for \<open>n\<close> conversions \<open>%x\<close> with colons between them.\<close>

fun scan_mac :: "nat \<Rightarrow> string \<Rightarrow> u32 list result" where
  "scan_mac 0 s = Inr []"
| "scan_mac (Suc n) s =
     bind_res (scan_x s) (\<lambda>r.
       case r of
         None \<Rightarrow> Inr []
       | Some (v, t) \<Rightarrow>
           if n = 0 \<or> t = [] \<or> t ! 0 \<noteq> CHR '':'' then Inr [v]
           else bind_res (scan_mac n (tl t)) (\<lambda>vs. Inr (v # vs)))"

section \<open>Hardware address\<close>

definition get_local_mac ::
    "'w kernel \<Rightarrow> 'w netdev_os \<Rightarrow> string \<Rightarrow> char list \<Rightarrow> 'w \<Rightarrow> (bool \<times> char list \<times> 'w) result" where
  "get_local_mac K N ifname mac w =
     (let (sd, w) = k_socket K (int AF_INET) SOCK_STREAM 0 w in
      if sd < 0 then Inr (False, mac, w)
      else let (ret, sa_data, w) = n_gifhwaddr N sd (if_name ifname) w in
        if ret < 0 then let (_, w) = k_close K sd w in Inr (False, mac, w)
        else bind_res (put_text mac MAC_SIZE (mac_text (take 6 sa_data))) (\<lambda>mac.
          let (_, w) = k_close K sd w in Inr (True, mac, w)))"

text \<open>The loop stores the same six bytes six times. The socket is not closed when the text is no address.\<close>

definition set_local_mac ::
    "'w kernel \<Rightarrow> 'w netdev_os \<Rightarrow> string \<Rightarrow> string \<Rightarrow> 'w \<Rightarrow> (bool \<times> 'w) result" where
  "set_local_mac K N ifname mac w =
     (if n_getuid N w \<noteq> 0 \<and> n_geteuid N w \<noteq> 0 then Inr (False, w)
      else let (sd, w) = k_socket K (int AF_INET) SOCK_DGRAM 0 w in
        if sd < 0 then Inr (False, w)
        else bind_res (if_strcpy ifname) (\<lambda>ifr_name.
          bind_res (scan_mac 6 mac) (\<lambda>vs.
          if length vs < 6 then Inr (False, w)
          else let (ret, w) = n_sifhwaddr N sd ifr_name (map ucast vs) w; (_, w) = k_close K sd w
            in Inr (\<not> ret < 0, w))))"

section \<open>Address and mask\<close>

definition get_local_ip ::
    "'w kernel \<Rightarrow> 'w netdev_os \<Rightarrow> string \<Rightarrow> char list \<Rightarrow> 'w \<Rightarrow> (bool \<times> char list \<times> 'w) result" where
  "get_local_ip K N ifname ip w =
     (let (sd, w) = k_socket K (int AF_INET) SOCK_DGRAM 0 w in
      if sd = - 1 then Inr (False, ip, w)
      else let (ret, addr, w) = n_gifaddr N sd (if_name ifname) w in
        if ret < 0 then let (_, w) = k_close K sd w in Inr (False, ip, w)
        else bind_res (put_text ip IP_SIZE (inet_ntoa addr)) (\<lambda>ip.
          let (_, w) = k_close K sd w in Inr (True, ip, w)))"

definition set_local_ip ::
    "'w kernel \<Rightarrow> 'w netdev_os \<Rightarrow> string \<Rightarrow> string \<Rightarrow> 'w \<Rightarrow> bool \<times> 'w" where
  "set_local_ip K N ifname ip w =
     (let (sd, w) = k_socket K (int AF_INET) SOCK_DGRAM 0 w in
      if sd = - 1 then (False, w)
      else let (ret, w) = n_sifaddr N sd (if_name ifname) (k_inet_addr K ip) w; (_, w) = k_close K sd w
        in (\<not> ret < 0, w))"

definition get_local_netmask ::
    "'w kernel \<Rightarrow> 'w netdev_os \<Rightarrow> string \<Rightarrow> char list \<Rightarrow> 'w \<Rightarrow> (bool \<times> char list \<times> 'w) result" where
  "get_local_netmask K N ifname netmask_addr w =
     (let (sd, w) = k_socket K (int AF_INET) SOCK_STREAM 0 w in
      if sd = - 1 then Inr (False, netmask_addr, w)
      else let (ret, addr, w) = n_gifnetmask N sd (if_name ifname) w in
        if ret < 0 then let (_, w) = k_close K sd w in Inr (False, netmask_addr, w)
        else bind_res (strncpy netmask_addr (inet_ntoa addr) IP_SIZE) (\<lambda>netmask_addr.
          let (_, w) = k_close K sd w in Inr (True, netmask_addr, w)))"

text \<open>A mask that cannot be read leaves the cleared address, so that 0.0.0.0 is set.\<close>

definition set_local_netmask ::
    "'w kernel \<Rightarrow> 'w netdev_os \<Rightarrow> string \<Rightarrow> string \<Rightarrow> 'w \<Rightarrow> bool \<times> 'w" where
  "set_local_netmask K N ifname netmask_addr w =
     (let (sd, w) = k_socket K (int AF_INET) SOCK_STREAM 0 w in
      if sd = - 1 then (False, w)
      else let addr = (case inet_pton netmask_addr of None \<Rightarrow> 0 | Some a \<Rightarrow> a);
               (ret, w) = n_sifnetmask N sd (if_name ifname) addr w; (_, w) = k_close K sd w
        in (\<not> ret < 0, w))"

section \<open>Gateway and name server\<close>

definition gateway_command :: "string \<Rightarrow> string" where
  "gateway_command ifname = ''route -n | grep '' @ ifname @ ''  | grep '' @ [CHR 0x27] @ ''UG['' @ [CHR '' '', CHR 0x09] @
     '']'' @ [CHR 0x27] @ '' | awk '' @ [CHR 0x27] @ ''{print $2}'' @ [CHR 0x27]"

text \<open>A pipe from which nothing can be read is not closed. An empty line would be indexed in front of its start.\<close>

definition get_local_gateway ::
    "'w netdev_os \<Rightarrow> string \<Rightarrow> char list option \<Rightarrow> 'w \<Rightarrow> (bool \<times> char list \<times> 'w) result" where
  "get_local_gateway N ifname gw w =
     assert_ptr gw (\<lambda>gw.
     bind_res (copy_string (replicate 1000 NUL) (gateway_command ifname)) (\<lambda>cmd.
     bind_res (read_cstr cmd) (\<lambda>cmd.
     let (fp, w) = n_popen N cmd w in
     case fp of
       None \<Rightarrow> Inr (False, gw, w)
     | Some fp \<Rightarrow>
         let (line, w) = n_fgets N fp 256 w in
         case line of
           None \<Rightarrow> Inr (False, gw, w)
         | Some line \<Rightarrow>
             let w = n_pclose N fp w in
             if line = [] then Inl Out_Of_Bounds
             else let line = (if last line = CHR 0x0A then butlast line else line) in
               bind_res (copy_string gw line) (\<lambda>gw. Inr (True, gw, w)))))"

text \<open>\<open>inet_aton\<close> returns 0 for a text that is no address, and never a negative number: the gateway is then 0.0.0.0.\<close>

definition set_local_gateway ::
    "'w kernel \<Rightarrow> 'w netdev_os \<Rightarrow> string \<Rightarrow> string \<Rightarrow> 'w \<Rightarrow> (bool \<times> 'w) result" where
  "set_local_gateway K N ifname gw w =
     (let (sd, w) = k_socket K (int AF_INET) SOCK_STREAM 0 w in
      if sd = - 1 then Inr (False, w)
      else bind_res (if_strcpy ifname) (\<lambda>_.
        let (ret, addr) = (case n_inet_aton N gw of None \<Rightarrow> (0, 0) | Some a \<Rightarrow> (1 :: int, a)) in
        if ret < 0 then let (_, w) = k_close K sd w in Inr (False, w)
        else let (ret, w) = n_addrt N sd \<lparr>rt_gateway = addr, rt_dst = 0, rt_genmask = 0, rt_flags = 3,
                rt_dev = ifname, rt_metric = 5\<rparr> w;
              (_, w) = k_close K sd w
          in Inr (\<not> ret < 0, w)))"

text \<open>The state of the resolver is neither closed nor freed when there is no name server.\<close>

definition get_local_dns ::
    "'w netdev_os \<Rightarrow> string \<Rightarrow> char list \<Rightarrow> 'w \<Rightarrow> (bool \<times> char list \<times> 'w) result" where
  "get_local_dns N ifname dns_addr w =
     (let (ok, nscount, addr, w) = n_res_ninit N w in
      if \<not> ok then Inl Null_Pointer
      else if nscount < 1 then Inr (False, dns_addr, w)
      else bind_res (put_text dns_addr IP_SIZE (inet_ntoa addr)) (\<lambda>dns_addr.
        Inr (True, dns_addr, n_res_nclose N w)))"

definition dns_command :: "string \<Rightarrow> string \<Rightarrow> string" where
  "dns_command redirect dns_addr =
     take 99 (''echo '' @ [CHR 0x27] @ ''nameserver '' @ dns_addr @ [CHR 0x27] @ '' '' @ redirect @ '' /etc/resolv.conf'')"

text \<open>Stores the name server of one of the two interfaces.\<close>

definition store_dns :: "netdev_attr list \<Rightarrow> nat \<Rightarrow> string \<Rightarrow> netdev_attr list result" where
  "store_dns attrs i dns_addr =
     (if length attrs \<le> i then Inl Out_Of_Bounds
      else bind_res (strncpy (dns (attrs ! i)) dns_addr (length dns_addr + 1)) (\<lambda>d.
        Inr (attrs[i := (attrs ! i)\<lparr>dns := d\<rparr>])))"

definition is_none_ip :: "netdev_attr list \<Rightarrow> nat \<Rightarrow> bool result" where
  "is_none_ip attrs i =
     (if length attrs \<le> i then Inl Out_Of_Bounds else strncmp_eq (dns (attrs ! i)) (NONE_IP @ [NUL]) IP_SIZE)"

definition set_local_dns ::
    "'w netdev_os \<Rightarrow> netdev_attr list \<Rightarrow> string \<Rightarrow> string \<Rightarrow> 'w \<Rightarrow> (bool \<times> netdev_attr list \<times> 'w) result" where
  "set_local_dns N attrs ifname dns_addr w =
     bind_res (strncmp_eq (ifname @ [NUL]) (''eth0'' @ [NUL]) IP_SIZE) (\<lambda>eth0.
     bind_res (if eth0 then Inr False else strncmp_eq (ifname @ [NUL]) (''eth1'' @ [NUL]) IP_SIZE) (\<lambda>eth1.
     bind_res (if eth0 then store_dns attrs 0 dns_addr else if eth1 then store_dns attrs 1 dns_addr else Inr attrs) (\<lambda>attrs.
     let (_, w) = n_system N (dns_command ''>'' dns_addr) w in
     bind_res (is_none_ip attrs 0) (\<lambda>none0.
     bind_res (if none0 then is_none_ip attrs 1 else Inr False) (\<lambda>none.
     let (_, w) = (if \<not> none then n_system N (dns_command ''>>'' dns_addr) w else (0, w))
     in Inr (True, attrs, w))))))"

section \<open>All settings of an interface\<close>

text \<open>What cannot be read becomes 0.0.0.0.\<close>

definition or_none_ip :: "(bool \<times> char list \<times> 'w) result \<Rightarrow> (char list \<times> 'w) result" where
  "or_none_ip r = bind_res r (\<lambda>(ok, buf, w). if ok then Inr (buf, w) else bind_res (strncpy buf NONE_IP IP_SIZE) (\<lambda>buf. Inr (buf, w)))"

definition ldal_get_ip_attr ::
    "'w kernel \<Rightarrow> 'w netdev_os \<Rightarrow> string \<Rightarrow> netdev_attr \<Rightarrow> 'w \<Rightarrow> (int \<times> netdev_attr \<times> 'w) result" where
  "ldal_get_ip_attr K N ifname attr w =
     bind_res (or_none_ip (get_local_ip K N ifname (ipaddr attr) w)) (\<lambda>(ip, w).
     bind_res (or_none_ip (get_local_netmask K N ifname (netmask attr) w)) (\<lambda>(mask, w).
     bind_res (or_none_ip (get_local_gateway N ifname (Some (gateway attr)) w)) (\<lambda>(gw, w).
     bind_res (or_none_ip (get_local_dns N ifname (dns attr) w)) (\<lambda>(d, w).
     Inr (LDAL_EOK, \<lparr>ipaddr = ip, netmask = mask, gateway = gw, dns = d\<rparr>, w)))))"

text \<open>The results of the four calls are ignored.\<close>

definition ldal_set_ip_attr ::
    "'w kernel \<Rightarrow> 'w netdev_os \<Rightarrow> netdev_attr list \<Rightarrow> string \<Rightarrow> netdev_attr \<Rightarrow> 'w
       \<Rightarrow> (int \<times> netdev_attr list \<times> 'w) result" where
  "ldal_set_ip_attr K N attrs ifname attr w =
     bind_res (read_cstr (ipaddr attr)) (\<lambda>ip.
     let (_, w) = set_local_ip K N ifname ip w in
     bind_res (read_cstr (netmask attr)) (\<lambda>mask.
     let (_, w) = set_local_netmask K N ifname mask w in
     bind_res (read_cstr (gateway attr)) (\<lambda>gw.
     bind_res (set_local_gateway K N ifname gw w) (\<lambda>(_, w).
     bind_res (read_cstr (dns attr)) (\<lambda>d.
     bind_res (set_local_dns N attrs ifname d w) (\<lambda>(_, attrs, w).
     Inr (LDAL_EOK, attrs, w)))))))"

section \<open>Link state\<close>

definition LINK_UP :: u32 where "LINK_UP = 0"
definition LINK_DOWN :: u32 where "LINK_DOWN = 1"

definition set_netdev_status ::
    "'w kernel \<Rightarrow> 'w netdev_os \<Rightarrow> string \<Rightarrow> u32 \<Rightarrow> 'w \<Rightarrow> (int \<times> 'w) result" where
  "set_netdev_status K N ifname status w =
     (let (sockfd, w) = k_socket K (int AF_INET) SOCK_STREAM 0 w in
      if sockfd < 0 then Inr (- LDAL_ERROR, w)
      else bind_res (if_strcpy ifname) (\<lambda>ifr_name.
        let (ret, flags, w) = n_gifflags N sockfd ifr_name w in
        if ret < 0 then let (_, w) = k_close K sockfd w in Inr (- LDAL_ERROR, w)
        else let flags = (if status = LINK_UP then flags OR IFF_UP
                          else if status = LINK_DOWN then flags AND NOT IFF_UP else flags);
                 (ret, w) = n_sifflags N sockfd ifr_name flags w; (_, w) = k_close K sockfd w
          in if ret < 0 then Inr (- LDAL_ERROR, w) else Inr (LDAL_EOK, w)))"

text \<open>\<open>link_status_t\<close> has no negative enumerator and is unsigned.\<close>

definition check_netdev_status ::
    "'w kernel \<Rightarrow> 'w netdev_os \<Rightarrow> string \<Rightarrow> 'w \<Rightarrow> u32 \<times> 'w" where
  "check_netdev_status K N ifname w =
     (let (skfd, w) = k_socket K (int AF_INET) SOCK_DGRAM 0 w in
      if skfd < 0 then (word_of_int (- LDAL_ERROR), w)
      else let (ret, edata, w) = n_glink N skfd (if_name ifname) w; (_, w) = k_close K skfd w
        in if ret = - 1 then (word_of_int (- LDAL_ERROR), w)
           else (if edata \<noteq> 0 then LINK_UP else LINK_DOWN, w))"

section \<open>Hardware addresses as text\<close>

lemma hex_char_other: "d < 16 \<Longrightarrow> (of_char c :: nat) \<noteq> (if d < 10 then 48 + d else 87 + d) \<Longrightarrow> hex_char d \<noteq> c"
  using of_char_hex by metis

lemma hex_char_plain:
  assumes "d < 16"
  shows "\<not> is_space (hex_char d)" "hex_char d \<noteq> CHR ''-''" "hex_char d \<noteq> CHR ''+''" "hex_char d \<noteq> CHR ''x''"
    "hex_char d \<noteq> CHR ''X''" "hex_char d \<noteq> NUL"
  using assms hex_char_other [OF assms]
  by (auto simp: is_space_def of_char_hex NUL_def)

lemma byte_bound: "unat (b :: byte) < 256"
  by (rule order_less_le_trans [OF unsigned_less]) simp

lemma byte_digits: "unat (b :: byte) div 16 < 16" "unat b mod 16 < 16" "16 * (unat b div 16) + unat b mod 16 = unat b"
proof -
  show "unat b div 16 < 16" using byte_bound [of b] by simp
qed simp_all

lemma scan_hex2:
  assumes "t = [] \<or> t ! 0 = CHR '':''"
  shows "scan_x (hex2 b @ t) = Inr (Some (ucast b, t))"
proof -
  have t: "hex_digits v t = v" "dropWhile (\<lambda>c. \<exists>v. hex_value c = Some v) t = t" for v
    using assms by (cases t; simp add: hex_value_def)+
  have "(4294967296 \<le> unat b) = False" using byte_bound [of b] by simp
  moreover have "word_of_nat (unat b) = (ucast b :: u32)" by (simp add: unsigned_of_nat)
  ultimately show ?thesis
    using byte_digits [of b]
    by (simp add: scan_x_def hex2_def hex_char_plain hex_value_char t Let_def)
qed

lemma scan_mac_text: "scan_mac (length bs) (mac_text bs) = Inr (map ucast bs)"
proof (induction bs rule: mac_text.induct)
  case (2 b)
  then show ?case using scan_hex2 [of "[]" b] by simp
next
  case (3 b c bs)
  then show ?case using scan_hex2 [of "CHR '':'' # mac_text (c # bs)" b] by simp
qed simp

lemma mac_text_length: "bs \<noteq> [] \<Longrightarrow> length (mac_text bs) = 3 * length bs - 1"
  by (induction bs rule: mac_text.induct) (simp_all add: hex2_def)

lemma mac_text_c_string: "c_string (mac_text bs)"
  by (induction bs rule: mac_text.induct) (simp_all add: hex2_def hex_char_plain byte_digits, simp_all add: NUL_def)

lemma put_text_ok:
  assumes "length s < n" "n \<le> length buf" "c_string s"
  obtains buf' where "put_text buf n s = Inr buf'" "read_cstr buf' = Inr s" "length buf' = length buf"
  using assms copy_string_ok [of s buf] that by (auto simp: put_text_def)

text \<open>
  Property C13. The hardware address of an interface survives as text. When the kernel gives the six bytes of an address, the
  caller's buffer holds their text, and giving this text to \<open>set_local_mac\<close> as root sets exactly these bytes; both close the sockets they open.
\<close>
theorem mac_roundtrip:
  assumes "length bs = 6" "MAC_SIZE \<le> length mac" "length ifname < IFNAMSIZ" "n_getuid N v = 0"
    "k_socket K (int AF_INET) SOCK_STREAM 0 w = (sd, w1)" "0 \<le> sd"
    "n_gifhwaddr N sd ifname w1 = (r, bs @ unused, w2)" "0 \<le> r"
    "k_socket K (int AF_INET) SOCK_DGRAM 0 v = (sd', v1)" "0 \<le> sd'"
  shows "\<exists>buf text. get_local_mac K N ifname mac w = Inr (True, buf, snd (k_close K sd w2)) \<and> read_cstr buf = Inr text \<and>
    set_local_mac K N ifname text v = (let (ret, v2) = n_sifhwaddr N sd' ifname bs v1
      in Inr (\<not> ret < 0, snd (k_close K sd' v2)))"
proof -
  have "length (mac_text bs) = 17" using mac_text_length [of bs] assms(1) by (cases bs) auto
  then obtain buf where b: "put_text mac MAC_SIZE (mac_text bs) = Inr buf" "read_cstr buf = Inr (mac_text bs)"
    using put_text_ok [OF _ assms(2) mac_text_c_string [of bs]] by (auto simp: MAC_SIZE_def)
  have n: "if_name ifname = ifname" "if_strcpy ifname = Inr ifname"
    using assms(3) by (simp_all add: if_name_def if_strcpy_def IFNAMSIZ_def)
  have "scan_mac 6 (mac_text bs) = Inr (map ucast bs)" using scan_mac_text [of bs] assms(1) by simp
  moreover have "map (ucast \<circ> (ucast :: byte \<Rightarrow> u32)) bs = bs"
    by (rule map_idI) (auto intro!: bit_word_eqI simp: bit_simps)
  ultimately have "set_local_mac K N ifname (mac_text bs) v = (let (ret, v2) = n_sifhwaddr N sd' ifname bs v1
      in Inr (\<not> ret < 0, snd (k_close K sd' v2)))"
    using assms by (simp add: set_local_mac_def n case_prod_unfold Let_def)
  moreover have "get_local_mac K N ifname mac w = Inr (True, buf, snd (k_close K sd w2))"
    using assms b by (simp add: get_local_mac_def n case_prod_unfold Let_def)
  ultimately show ?thesis using b by blast
qed

section \<open>Addresses as text\<close>

lemma digit_char_zero: "d < 10 \<Longrightarrow> digit_char d = CHR ''0'' \<longleftrightarrow> d = 0"
  by (auto simp: digit_char_def char_of_eq_iff take_bit_eq_mod)

lemma decimal_start: "decimal n ! 0 = CHR ''0'' \<Longrightarrow> n = 0"
proof (induction n rule: decimal.induct)
  case (1 n)
  show ?case
  proof (cases "n < 10")
    case True
    then show ?thesis using 1(2) by (simp add: decimal.simps [of n] digit_char_zero)
  next
    case False
    then have "decimal (n div 10) ! 0 = CHR ''0''"
      using 1(2) by (simp add: decimal.simps [of n] nth_append)
    with 1(1) False show ?thesis by simp
  qed
qed

lemma decimal_all_digits: "list_all is_digit (decimal n)"
  using decimal_digits [of n] digit_char_facts(1) by (fastforce simp: list_all_iff)

lemma octet_decimal: "n < 256 \<Longrightarrow> octet (decimal n) = Some n"
  using decimal_length [of n 3] decimal_start [of n]
  by (auto simp: octet_def decimal_all_digits digits_value_decimal decimal.simps [of 0] digit_char_zero)

lemma no_dot_decimal: "CHR ''.'' \<notin> set (decimal n)"
  using decimal_all_digits [of n] by (auto simp: list_all_iff is_digit_def)

lemma split_dots_one: "CHR ''.'' \<notin> set s \<Longrightarrow> split_dots s = [s]"
  by (induction s) auto

lemma split_dots_cons: "CHR ''.'' \<notin> set s \<Longrightarrow> split_dots (s @ CHR ''.'' # t) = s # split_dots t"
  by (induction s) auto

lemma four_bytes:
  fixes n :: nat
  assumes "n < 2 ^ 32"
  shows "n mod 256 + 256 * (n div 256 mod 256) + 65536 * (n div 65536 mod 256) + 16777216 * (n div 16777216 mod 256) = n"
proof -
  define q where "q = n div 256"
  define r where "r = q div 256"
  have d: "n div 65536 = r" "n div 16777216 = r div 256" by (simp_all add: q_def r_def div_mult2_eq [symmetric])
  have "n = 256 * q + n mod 256" "q = 256 * r + q mod 256" "r = 256 * (r div 256) + r mod 256" by (simp_all add: q_def r_def)
  moreover have "r div 256 mod 256 = r div 256" using assms by (simp add: q_def r_def div_mult2_eq [symmetric] less_mult_imp_div_less)
  ultimately show ?thesis unfolding d q_def [symmetric] by linarith
qed

lemma pton_bytes:
  assumes "a < 256" "b < 256" "c < 256" "d < 256"
  shows "inet_pton (decimal a @ ''.'' @ decimal b @ ''.'' @ decimal c @ ''.'' @ decimal d) =
    Some (word_of_nat (a + 256 * b + 65536 * c + 16777216 * d))"
  using assms by (simp add: inet_pton_def split_dots_cons split_dots_one no_dot_decimal octet_decimal del: of_nat_add)

lemma pton_ntoa: "inet_pton (inet_ntoa a) = Some a"
proof -
  have l: "unat a < 2 ^ 32" by (rule order_less_le_trans [OF unsigned_less]) simp
  have m: "n mod 256 < 256" for n :: nat by simp
  have "(word_of_nat (unat a) :: u32) = a" by simp
  then show ?thesis unfolding inet_ntoa_def pton_bytes [OF m m m m] four_bytes [OF l] by (simp only:)
qed

lemma octet_length: "length (decimal (n mod 256)) \<le> 3"
  by (rule decimal_length) (simp_all add: order_less_le_trans [OF mod_less_divisor])

lemma ntoa_length: "length (inet_ntoa a) < IP_SIZE"
  using octet_length [of "unat a"] octet_length [of "unat a div 256"] octet_length [of "unat a div 65536"]
    octet_length [of "unat a div 16777216"]
  by (simp add: inet_ntoa_def IP_SIZE_def)

lemma ntoa_c_string: "c_string (inet_ntoa a)"
  by (simp add: inet_ntoa_def NUL_def)

lemma no_newline_decimal: "CHR 0x0A \<notin> set (decimal n)"
  using decimal_all_digits [of n] by (auto simp: list_all_iff is_digit_def)

lemma ntoa_line: "takeWhile (\<lambda>c. c \<noteq> CHR 0x0A) (inet_ntoa a @ [CHR 0x0A]) = inet_ntoa a"
proof -
  have "CHR 0x0A \<notin> set (inet_ntoa a)" by (simp add: inet_ntoa_def no_newline_decimal)
  then show ?thesis by (intro takeWhile_tail [THEN trans] takeWhile_eq_all_conv [THEN iffD2]) auto
qed

lemma strncpy_ok:
  assumes "length s < n" "n \<le> length dst" "c_string s"
  obtains buf where "strncpy dst s n = Inr buf" "read_cstr buf = Inr s" "length buf = length dst"
proof -
  obtain k where k: "n = length s + Suc k" using assms(1) less_iff_Suc_add [of "length s" n] by auto
  have "take n (s @ replicate n NUL) = s @ replicate (Suc k) NUL" by (simp add: k del: replicate.simps)
  then show thesis
    using that memcpy_nat [of 0 n dst 0 "take n (s @ replicate n NUL)"] assms k
    by (simp add: strncpy_def)
qed

text \<open>The mask that is read from one interface can be set for another.\<close>

lemma netmask_roundtrip:
  assumes "IP_SIZE \<le> length buf" "k_socket K (int AF_INET) SOCK_STREAM 0 w = (sd, w1)" "sd \<noteq> - 1"
    "n_gifnetmask N sd (if_name ifname) w1 = (r, a, w2)" "0 \<le> r"
    "k_socket K (int AF_INET) SOCK_STREAM 0 v = (sd', v1)" "sd' \<noteq> - 1"
  shows "\<exists>buf' text. get_local_netmask K N ifname buf w = Inr (True, buf', snd (k_close K sd w2)) \<and>
    read_cstr buf' = Inr text \<and>
    set_local_netmask K N other text v = (let (ret, v2) = n_sifnetmask N sd' (if_name other) a v1
      in (\<not> ret < 0, snd (k_close K sd' v2)))"
proof -
  obtain buf' where "strncpy buf (inet_ntoa a) IP_SIZE = Inr buf'" "read_cstr buf' = Inr (inet_ntoa a)"
    using strncpy_ok [OF ntoa_length assms(1) ntoa_c_string] .
  then show ?thesis
    using assms by (simp add: get_local_netmask_def set_local_netmask_def case_prod_unfold Let_def pton_ntoa)
qed

section \<open>Reading all settings\<close>

text \<open>
  What the system answers: to a request on a new socket of the given kind, which is closed again, to the routing command in its first
  line, and the resolver with its first name server. \<open>None\<close> is a call that failed or no server.
\<close>

definition ioctl_answer ::
    "'w kernel \<Rightarrow> int \<Rightarrow> (int \<Rightarrow> string \<Rightarrow> 'w \<Rightarrow> int \<times> u32 \<times> 'w) \<Rightarrow> string \<Rightarrow> 'w \<Rightarrow> u32 option \<times> 'w" where
  "ioctl_answer K kind request ifname w =
     (let (sd, w) = k_socket K (int AF_INET) kind 0 w in
      if sd = -1 then (None, w)
      else let (r, a, w) = request sd (if_name ifname) w in (if r < 0 then None else Some a, snd (k_close K sd w)))"

definition gateway_answer :: "'w netdev_os \<Rightarrow> string \<Rightarrow> 'w \<Rightarrow> u32 option \<times> 'w" where
  "gateway_answer N ifname w =
     (case n_popen N (gateway_command ifname) w of
        (None, w) \<Rightarrow> (None, w)
      | (Some fp, w) \<Rightarrow>
          (case n_fgets N fp 256 w of
             (None, w) \<Rightarrow> (None, w)
           | (Some line, w) \<Rightarrow> (inet_pton (takeWhile (\<lambda>c. c \<noteq> CHR 0x0A) line), n_pclose N fp w)))"

definition dns_answer :: "'w netdev_os \<Rightarrow> 'w \<Rightarrow> u32 option \<times> 'w" where
  "dns_answer N w =
     (let (_, servers, a, w) = n_res_ninit N w in if servers < 1 then (None, w) else (Some a, n_res_nclose N w))"

text \<open>The routing command prints an address in its first line, or nothing.\<close>

definition route_output :: "'w netdev_os \<Rightarrow> string \<Rightarrow> 'w \<Rightarrow> bool" where
  "route_output N ifname w \<longleftrightarrow>
     (case n_popen N (gateway_command ifname) w of
        (None, _) \<Rightarrow> True
      | (Some fp, w) \<Rightarrow>
          (case fst (n_fgets N fp 256 w) of None \<Rightarrow> True | Some line \<Rightarrow> \<exists>a. line = inet_ntoa a @ [CHR 0x0A]))"

text \<open>The text of an answer, and an array of the size of an address that holds it.\<close>

definition address_text :: "u32 option \<Rightarrow> string" where
  "address_text x = (case x of None \<Rightarrow> ''0.0.0.0'' | Some a \<Rightarrow> inet_ntoa a)"

definition holds_address :: "char list \<Rightarrow> u32 option \<Rightarrow> bool" where
  "holds_address buf x \<longleftrightarrow> length buf = IP_SIZE \<and> read_cstr buf = Inr (address_text x)"

lemma none_ip_text: "NONE_IP = inet_ntoa 0"
proof -
  have "digit_char 0 = CHR ''0''" by (simp add: digit_char_zero)
  then show ?thesis by (simp add: inet_ntoa_def NONE_IP_def decimal.simps [of 0])
qed

lemma address_text_simps [simp]: "address_text None = inet_ntoa 0" "address_text (Some a) = inet_ntoa a"
  using none_ip_text by (simp_all add: address_text_def NONE_IP_def)

lemma address_text_pton: "inet_pton (address_text x) = Some (case x of None \<Rightarrow> 0 | Some a \<Rightarrow> a)"
  by (cases x) (simp_all add: pton_ntoa)

lemma put_address:
  assumes "length buf = IP_SIZE"
  obtains buf' where "put_text buf IP_SIZE (inet_ntoa a) = Inr buf'" "holds_address buf' (Some a)"
  using put_text_ok [OF ntoa_length [of a] _ ntoa_c_string, of buf] assms that by (auto simp: holds_address_def)

lemma strncpy_address:
  assumes "length buf = IP_SIZE"
  obtains buf' where "strncpy buf (inet_ntoa a) IP_SIZE = Inr buf'" "holds_address buf' (Some a)"
  using strncpy_ok [OF ntoa_length [of a] _ ntoa_c_string, of buf] assms that by (auto simp: holds_address_def)

text \<open>Of a call that failed \<open>or_none_ip\<close> makes 0.0.0.0.\<close>

lemma or_none_ip_failed:
  assumes "length buf = IP_SIZE"
  shows "\<exists>buf'. or_none_ip (Inr (False, buf, w)) = Inr (buf', w) \<and> holds_address buf' None"
  using strncpy_address [OF assms, of 0] by (auto simp: or_none_ip_def none_ip_text holds_address_def)

lemma or_none_ip_read: "or_none_ip (Inr (True, buf, w)) = Inr (buf, w)"
  by (simp add: or_none_ip_def)

lemma get_local_ip_answer:
  assumes "length buf = IP_SIZE" "ioctl_answer K SOCK_DGRAM (n_gifaddr N) ifname w = (x, w')"
  shows "\<exists>buf'. or_none_ip (get_local_ip K N ifname buf w) = Inr (buf', w') \<and> holds_address buf' x"
proof -
  obtain sd w1 where s: "k_socket K (int AF_INET) SOCK_DGRAM 0 w = (sd, w1)" by (metis surj_pair)
  obtain r a w2 where q: "n_gifaddr N sd (if_name ifname) w1 = (r, a, w2)" by (rule prod_cases3)
  obtain c w3 where k: "k_close K sd w2 = (c, w3)" by (metis surj_pair)
  obtain b where b: "put_text buf IP_SIZE (inet_ntoa a) = Inr b" "holds_address b (Some a)" using put_address [OF assms(1)] .
  from assms(2) show ?thesis
    using or_none_ip_failed [OF assms(1)] b
    by (auto simp: get_local_ip_def ioctl_answer_def s q k Let_def or_none_ip_read split: if_splits)
qed

lemma get_local_netmask_answer:
  assumes "length buf = IP_SIZE" "ioctl_answer K SOCK_STREAM (n_gifnetmask N) ifname w = (x, w')"
  shows "\<exists>buf'. or_none_ip (get_local_netmask K N ifname buf w) = Inr (buf', w') \<and> holds_address buf' x"
proof -
  obtain sd w1 where s: "k_socket K (int AF_INET) SOCK_STREAM 0 w = (sd, w1)" by (metis surj_pair)
  obtain r a w2 where q: "n_gifnetmask N sd (if_name ifname) w1 = (r, a, w2)" by (rule prod_cases3)
  obtain c w3 where k: "k_close K sd w2 = (c, w3)" by (metis surj_pair)
  obtain b where b: "strncpy buf (inet_ntoa a) IP_SIZE = Inr b" "holds_address b (Some a)" using strncpy_address [OF assms(1)] .
  from assms(2) show ?thesis
    using or_none_ip_failed [OF assms(1)] b
    by (auto simp: get_local_netmask_def ioctl_answer_def s q k Let_def or_none_ip_read split: if_splits)
qed

lemma get_local_dns_answer:
  assumes "length buf = IP_SIZE" "fst (n_res_ninit N w)" "dns_answer N w = (x, w')"
  shows "\<exists>buf'. or_none_ip (get_local_dns N ifname buf w) = Inr (buf', w') \<and> holds_address buf' x"
proof -
  obtain n a w1 where q: "n_res_ninit N w = (True, n, a, w1)" using assms(2) by (cases "n_res_ninit N w") auto
  obtain b where b: "put_text buf IP_SIZE (inet_ntoa a) = Inr b" "holds_address b (Some a)" using put_address [OF assms(1)] .
  from assms(3) show ?thesis
    using or_none_ip_failed [OF assms(1)] b
    by (auto simp: get_local_dns_def dns_answer_def q or_none_ip_read split: if_splits)
qed

lemma get_local_gateway_answer:
  assumes "length buf = IP_SIZE" "route_output N ifname w" "c_string ifname" "length ifname < 900"
    "gateway_answer N ifname w = (x, w')"
  shows "\<exists>buf'. or_none_ip (get_local_gateway N ifname (Some buf) w) = Inr (buf', w') \<and> holds_address buf' x"
proof -
  have "c_string (gateway_command ifname)" "length (gateway_command ifname) < 1000"
    using assms(3,4) by (simp_all add: gateway_command_def NUL_def)
  then obtain cmd where c: "copy_string (replicate 1000 NUL) (gateway_command ifname) = Inr cmd"
      "read_cstr cmd = Inr (gateway_command ifname)"
    using copy_string_ok [of "gateway_command ifname" "replicate 1000 NUL"] by (auto simp del: replicate.simps)
  obtain fp w1 where p: "n_popen N (gateway_command ifname) w = (fp, w1)" by (metis surj_pair)
  show ?thesis
  proof (cases fp)
    case None
    then show ?thesis using assms(5) or_none_ip_failed [OF assms(1)] by (simp add: get_local_gateway_def gateway_answer_def c p)
  next
    case (Some f)
    obtain line w2 where l: "n_fgets N f 256 w1 = (line, w2)" by (metis surj_pair)
    show ?thesis
    proof (cases line)
      case None
      then show ?thesis
        using assms(5) or_none_ip_failed [OF assms(1)] by (simp add: get_local_gateway_def gateway_answer_def c p Some l)
    next
      case line: (Some t)
      then obtain a where t: "t = inet_ntoa a @ [CHR 0x0A]" using assms(2) by (auto simp: route_output_def p Some l)
      have "takeWhile (\<lambda>c. c \<noteq> CHR 0x0A) t = inet_ntoa a" by (simp add: t ntoa_line)
      then have x: "x = Some a" "w' = n_pclose N f w2"
        using assms(5) by (simp_all add: gateway_answer_def p Some l line pton_ntoa)
      have "copy_string buf (inet_ntoa a) = put_text buf IP_SIZE (inet_ntoa a)" using ntoa_length [of a] by (simp add: put_text_def)
      then obtain b where "copy_string buf (inet_ntoa a) = Inr b" "holds_address b (Some a)"
        using put_address [OF assms(1), of a] by metis
      then show ?thesis by (simp add: get_local_gateway_def c p Some l line t x or_none_ip_read)
    qed
  qed
qed

text \<open>
  Property C14. \<open>ldal_get_ip_attr\<close> asks for the address, the mask, the gateway and the name server in this order and always succeeds. Each
  member then holds the text of the answer to its own question, terminated within its array, and 0.0.0.0 where the call failed or there was
  none; what was in the members before is gone. As 0.0.0.0 is also the text of the address 0, the caller cannot tell a failure from an unset
  address. The routing command has to print an address or nothing, and the memory for the resolver must be there.
\<close>
theorem ip_attr_addresses:
  assumes "length (ipaddr attr) = IP_SIZE" "length (netmask attr) = IP_SIZE" "length (gateway attr) = IP_SIZE" "length (dns attr) = IP_SIZE"
    "c_string ifname" "length ifname < 900"
    and answers: "ioctl_answer K SOCK_DGRAM (n_gifaddr N) ifname w = (ip, w1)"
      "ioctl_answer K SOCK_STREAM (n_gifnetmask N) ifname w1 = (nmask, w2)" "gateway_answer N ifname w2 = (gw, w3)"
      "dns_answer N w3 = (server, w4)"
    and "route_output N ifname w2" "fst (n_res_ninit N w3)"
  shows "\<exists>attr'. ldal_get_ip_attr K N ifname attr w = Inr (LDAL_EOK, attr', w4) \<and>
    read_cstr (ipaddr attr') = Inr (address_text ip) \<and> read_cstr (netmask attr') = Inr (address_text nmask) \<and>
    read_cstr (gateway attr') = Inr (address_text gw) \<and> read_cstr (dns attr') = Inr (address_text server) \<and>
    (\<forall>buf \<in> {ipaddr attr', netmask attr', gateway attr', dns attr'}. length buf = IP_SIZE) \<and>
    (\<forall>x \<in> {ip, nmask, gw, server}. inet_pton (address_text x) = Some (case x of None \<Rightarrow> 0 | Some a \<Rightarrow> a))"
proof -
  obtain b1 where 1: "or_none_ip (get_local_ip K N ifname (ipaddr attr) w) = Inr (b1, w1)" "holds_address b1 ip"
    using get_local_ip_answer [OF assms(1) answers(1)] by blast
  obtain b2 where 2: "or_none_ip (get_local_netmask K N ifname (netmask attr) w1) = Inr (b2, w2)" "holds_address b2 nmask"
    using get_local_netmask_answer [OF assms(2) answers(2)] by blast
  obtain b3 where 3: "or_none_ip (get_local_gateway N ifname (Some (gateway attr)) w2) = Inr (b3, w3)" "holds_address b3 gw"
    using get_local_gateway_answer [OF assms(3,11,5,6) answers(3)] by blast
  obtain b4 where 4: "or_none_ip (get_local_dns N ifname (dns attr) w3) = Inr (b4, w4)" "holds_address b4 server"
    using get_local_dns_answer [OF assms(4,12) answers(4)] by blast
  show ?thesis
    using 1 2 3 4 by (simp add: ldal_get_ip_attr_def holds_address_def address_text_pton del: address_text_simps)
qed

section \<open>The name server and the link\<close>

lemma strncmp_same: "c_string s \<Longrightarrow> length s < n \<Longrightarrow> strncmp_eq (s @ NUL # x) (s @ [NUL]) n = Inr True"
proof (induction s arbitrary: n)
  case Nil
  then obtain k where "n = Suc k" by (cases n) auto
  then show ?case by simp
next
  case (Cons c s)
  then obtain k where "n = Suc k" by (cases n) auto
  with Cons show ?case by simp
qed

lemma strncmp_other: "c_string s \<Longrightarrow> c_string t \<Longrightarrow> s \<noteq> t \<Longrightarrow> length s < n \<Longrightarrow> strncmp_eq (s @ NUL # x) (t @ [NUL]) n = Inr False"
proof (induction s arbitrary: t n)
  case Nil
  then obtain k where "n = Suc k" by (cases n) auto
  with Nil show ?case by (cases t) auto
next
  case (Cons c s)
  then obtain k where n: "n = Suc k" by (cases n) auto
  show ?case
  proof (cases t)
    case Nil
    then show ?thesis using Cons.prems n by auto
  next
    case t: (Cons d t')
    then show ?thesis using Cons n by auto
  qed
qed

text \<open>
  Property C15. A name server is entered twice. Setting the name server of \<open>eth0\<close> to an address other than 0.0.0.0 stores it, replaces
  the file of the resolver by it, and then adds the same server to the file once more: the server stored for the other interface, which
  the second command was meant for, is never written.
\<close>
theorem dns_twice:
  assumes "length attrs = NETDEV_MAX" "\<forall>a \<in> set attrs. length (dns a) = IP_SIZE"
    "c_string d" "length d < IP_SIZE" "d \<noteq> NONE_IP"
  shows "\<exists>attrs'. set_local_dns N attrs ''eth0'' d w =
      Inr (True, attrs', snd (n_system N (dns_command ''>>'' d) (snd (n_system N (dns_command ''>'' d) w)))) \<and>
    read_cstr (dns (attrs' ! 0)) = Inr d \<and> attrs' ! 1 = attrs ! 1"
proof -
  obtain a b where ab: "attrs = [a, b]" using assms(1) by (auto simp: NETDEV_MAX_def length_Suc_conv eval_nat_numeral)
  have l: "length (dns a) = IP_SIZE" using assms(2) by (simp add: ab)
  let ?n = "length d + 1"
  have m: "take ?n (d @ replicate ?n NUL) = d @ [NUL]" by simp
  have s: "strncpy (dns a) d ?n = Inr (d @ NUL # drop ?n (dns a))"
    using memcpy_nat [of 0 ?n "dns a" 0 "d @ [NUL]"] assms(4) l unfolding strncpy_def m by simp
  define buf where "buf = d @ NUL # drop ?n (dns a)"
  have e: "strncmp_eq (''eth0'' @ [NUL]) (''eth0'' @ [NUL]) IP_SIZE = Inr True"
    by (rule strncmp_same) (simp_all add: IP_SIZE_def NUL_def)
  have "c_string NONE_IP" by (simp add: NONE_IP_def NUL_def)
  then have n: "strncmp_eq buf (NONE_IP @ [NUL]) IP_SIZE = Inr False"
    unfolding buf_def using assms(3-5) by (intro strncmp_other) auto
  have r: "read_cstr buf = Inr d" using assms(3) by (simp add: buf_def)
  have st: "store_dns attrs 0 d = Inr [a\<lparr>dns := buf\<rparr>, b]"
    using s by (simp add: store_dns_def ab buf_def)
  have "set_local_dns N attrs ''eth0'' d w =
      Inr (True, [a\<lparr>dns := buf\<rparr>, b], snd (n_system N (dns_command ''>>'' d) (snd (n_system N (dns_command ''>'' d) w))))"
    unfolding set_local_dns_def e
    by (simp only: bind_res.simps if_True st is_none_ip_def) (simp add: n case_prod_unfold Let_def)
  then show ?thesis using r ab by (intro exI [of _ "[a\<lparr>dns := buf\<rparr>, b]"]) simp
qed

text \<open>
  What a failed query gives is not negative, as the documentation says, but 4294967295; bringing a link up or down changes its flag alone.
\<close>

lemma check_failed:
  "n_glink N (fst (k_socket K (int AF_INET) SOCK_DGRAM 0 w)) (if_name ifname) (snd (k_socket K (int AF_INET) SOCK_DGRAM 0 w)) = (- 1, x, w') \<Longrightarrow>
     uint (fst (check_netdev_status K N ifname w)) = 4294967295"
  by (simp add: check_netdev_status_def case_prod_unfold Let_def unsigned_minus_1_eq_mask mask_eq_exp_minus_1)

lemma status_flags:
  assumes "length ifname < IFNAMSIZ" "k_socket K (int AF_INET) SOCK_STREAM 0 w = (sd, w1)" "0 \<le> sd"
    "n_gifflags N sd ifname w1 = (0, flags, w2)" "status \<in> {LINK_UP, LINK_DOWN}"
  shows "\<exists>flags'. set_netdev_status K N ifname status w = (let (ret, w3) = n_sifflags N sd ifname flags' w2
      in Inr (if ret < 0 then - LDAL_ERROR else LDAL_EOK, snd (k_close K sd w3))) \<and>
    (bit flags' 0 \<longleftrightarrow> status = LINK_UP) \<and> (\<forall>i > 0. bit flags' i = bit flags i)"
proof -
  define flags' where "flags' = (if status = LINK_UP then flags OR IFF_UP else flags AND NOT IFF_UP)"
  have "set_netdev_status K N ifname status w = (let (ret, w3) = n_sifflags N sd ifname flags' w2
      in Inr (if ret < 0 then - LDAL_ERROR else LDAL_EOK, snd (k_close K sd w3)))"
    using assms by (auto simp: set_netdev_status_def if_strcpy_def case_prod_unfold Let_def flags'_def LINK_UP_def LINK_DOWN_def)
  moreover have "(bit flags' 0 \<longleftrightarrow> status = LINK_UP) \<and> (\<forall>i > 0. bit flags' i = bit flags i)"
    by (auto simp: flags'_def IFF_UP_def bit_simps dest: bit_imp_le_length)
  ultimately show ?thesis by blast
qed

section \<open>Examples\<close>

text \<open>A system on which every call succeeds, with the address 10.0.0.1.\<close>

definition sample_netdev :: "nat netdev_os" where
  "sample_netdev = \<lparr>n_getuid = (\<lambda>_. 0), n_geteuid = (\<lambda>_. 0),
     n_gifhwaddr = (\<lambda>_ _ w. (0, [0, 0x1A, 0x2B, 0x3C, 0x4D, 0xFF, 0, 0], Suc w)), n_sifhwaddr = (\<lambda>_ _ _ w. (0, Suc w)),
     n_gifaddr = (\<lambda>_ _ w. (0, 0x0100000A, Suc w)), n_sifaddr = (\<lambda>_ _ _ w. (0, Suc w)),
     n_gifnetmask = (\<lambda>_ _ w. (0, 0x00FFFFFF, Suc w)), n_sifnetmask = (\<lambda>_ _ _ w. (0, Suc w)),
     n_addrt = (\<lambda>_ _ w. (0, Suc w)), n_gifflags = (\<lambda>_ _ w. (0, 0, Suc w)), n_sifflags = (\<lambda>_ _ _ w. (0, Suc w)),
     n_glink = (\<lambda>_ _ w. (0, 1, Suc w)), n_popen = (\<lambda>_ w. (Some 5, Suc w)),
     n_fgets = (\<lambda>_ n w. (Some (take (n - 1) (inet_ntoa 0x0200000A @ [CHR 0x0A])), Suc w)), n_pclose = (\<lambda>_ w. Suc w),
     n_res_ninit = (\<lambda>w. (True, 0, 0, Suc w)), n_res_nclose = Suc, n_inet_aton = (\<lambda>_. Some 0x0100000A),
     n_system = (\<lambda>_ w. (0, Suc w))\<rparr>"

lemma mac_roundtrip_witness:
  "\<exists>buf text. get_local_mac sample_kernel sample_netdev ''eth0'' (replicate 18 NUL) 0 = Inr (True, buf, 3) \<and>
     read_cstr buf = Inr text \<and> set_local_mac sample_kernel sample_netdev ''eth0'' text 10 = Inr (True, 13)"
proof -
  let ?bs = "[0, 0x1A, 0x2B, 0x3C, 0x4D, 0xFF] :: byte list"
  have k: "k_socket sample_kernel (int AF_INET) t 0 w = (4, Suc w)" "snd (k_close sample_kernel 4 w) = Suc w" for t w
    by (simp_all add: sample_kernel_def)
  have g: "n_gifhwaddr sample_netdev 4 ''eth0'' (Suc 0) = (0, ?bs @ [0, 0], 2)" by (simp add: sample_netdev_def)
  have u: "n_getuid sample_netdev 10 = 0" by (simp add: sample_netdev_def)
  have "n_sifhwaddr sample_netdev 4 ''eth0'' ?bs (Suc 10) = (0, 12)" by (simp add: sample_netdev_def)
  then show ?thesis
    using mac_roundtrip [OF _ _ _ u k(1) _ g _ k(1), of "replicate 18 NUL"]
    by (simp add: MAC_SIZE_def IFNAMSIZ_def k(2) del: replicate.simps)
qed

definition blank_attr :: netdev_attr where
  "blank_attr = \<lparr>ipaddr = replicate 16 NUL, netmask = replicate 16 NUL, gateway = replicate 16 NUL, dns = replicate 16 NUL\<rparr>"

text \<open>An interface with the address 10.0.0.1, the mask 255.255.255.0 and the gateway 10.0.0.2; there is no name server.\<close>

lemma ip_attr_addresses_witness:
  "\<exists>attr'. ldal_get_ip_attr sample_kernel sample_netdev ''eth0'' blank_attr 0 = Inr (LDAL_EOK, attr', 10) \<and>
    read_cstr (ipaddr attr') = Inr (inet_ntoa 0x0100000A) \<and> read_cstr (netmask attr') = Inr (inet_ntoa 0x00FFFFFF) \<and>
    read_cstr (gateway attr') = Inr (inet_ntoa 0x0200000A) \<and> read_cstr (dns attr') = Inr ''0.0.0.0''"
proof -
  have l: "length (ipaddr blank_attr) = IP_SIZE" "length (netmask blank_attr) = IP_SIZE" "length (gateway blank_attr) = IP_SIZE"
    "length (dns blank_attr) = IP_SIZE" by (simp_all add: blank_attr_def IP_SIZE_def)
  have n: "c_string ''eth0''" "length ''eth0'' < 900" by (simp_all add: NUL_def)
  have "length (inet_ntoa 0x0200000A @ [CHR 0x0A]) \<le> 255" using ntoa_length [of "0x0200000A"] by (simp add: IP_SIZE_def)
  then have f: "n_fgets sample_netdev h 256 w = (Some (inet_ntoa 0x0200000A @ [CHR 0x0A]), Suc w)" for h w
    by (simp add: sample_netdev_def)
  have o: "n_popen sample_netdev c w = (Some 5, Suc w)" "n_pclose sample_netdev h w = Suc w" for c h w
    by (simp_all add: sample_netdev_def)
  have a: "ioctl_answer sample_kernel SOCK_DGRAM (n_gifaddr sample_netdev) ''eth0'' 0 = (Some 0x0100000A, 3)"
    "ioctl_answer sample_kernel SOCK_STREAM (n_gifnetmask sample_netdev) ''eth0'' 3 = (Some 0x00FFFFFF, 6)"
    by (simp_all add: ioctl_answer_def sample_kernel_def sample_netdev_def)
  have g: "gateway_answer sample_netdev ''eth0'' 6 = (Some 0x0200000A, 9)"
    by (simp add: gateway_answer_def o f ntoa_line pton_ntoa)
  have d: "dns_answer sample_netdev 9 = (None, 10)" "fst (n_res_ninit sample_netdev 9)"
    by (simp_all add: dns_answer_def sample_netdev_def)
  have "route_output sample_netdev ''eth0'' 6" by (auto simp: route_output_def o f)
  from ip_attr_addresses [OF l n a g d(1) this d(2)] show ?thesis by (auto simp: address_text_def)
qed

lemma dns_twice_witness:
  "\<exists>attrs'. set_local_dns sample_netdev initial_netdev_attr ''eth0'' ''10.0.0.1'' 0 = Inr (True, attrs', Suc (Suc 0))"
proof -
  have a: "length initial_netdev_attr = NETDEV_MAX" "\<forall>a \<in> set initial_netdev_attr. length (dns a) = IP_SIZE"
    by (simp_all add: initial_netdev_attr_def none_ip_def NONE_IP_def IP_SIZE_def)
  have "\<exists>attrs'. set_local_dns sample_netdev initial_netdev_attr ''eth0'' ''10.0.0.1'' 0 =
      Inr (True, attrs', snd (n_system sample_netdev (dns_command ''>>'' ''10.0.0.1'')
        (snd (n_system sample_netdev (dns_command ''>'' ''10.0.0.1'') 0))))"
    using dns_twice [OF a, of "''10.0.0.1''" sample_netdev 0] by (auto simp: IP_SIZE_def NUL_def NONE_IP_def)
  moreover have "n_system sample_netdev c v = (0, Suc v)" for c v by (simp add: sample_netdev_def)
  ultimately show ?thesis by (simp only: snd_conv)
qed

end
