(* ===== verification/Threads.thy ===== *)
theory Threads
  imports Ldal_Classes
begin

text \<open>
  Several threads on one device. The calls of \<open>src/ldal.c\<close> that take the device's mutex are cut into three steps, taking the mutex, the
  call of the driver and releasing the mutex, which the steps of other threads may come between. \<open>startup_device\<close> takes no mutex.
\<close>

section \<open>The calls that take the mutex\<close>

datatype call =
    Call_Read "byte list option" size_t
  | Call_Write "byte list option" size_t
  | Call_Control int ctrl_arg
  | Call_Check
  | Call_Bind "string option" u16
  | Call_Connect "string option" u16

text \<open>What a call gives to its caller: a number, and the buffer or argument the caller passed.\<close>

datatype reply = Reply int | Reply_Read int "byte list option" | Reply_Control int ctrl_arg

text \<open>What is done between taking and releasing the mutex.\<close>

fun call_body ::
    "('p, 'w) class_store \<Rightarrow> call \<Rightarrow> 'p ldal_device \<Rightarrow> 'w \<Rightarrow> (reply \<times> 'p ldal_device \<times> 'w) result" where
  "call_body cls (Call_Read buff len) d w =
     bind_res (fetch cls d op_read) (\<lambda>f. bind_res (f d buff len w) (\<lambda>(r, b, d, w). Inr (Reply_Read r b, d, w)))"
| "call_body cls (Call_Write buff len) d w =
     bind_res (fetch cls d op_write) (\<lambda>f. bind_res (f d buff len w) (\<lambda>(r, d, w). Inr (Reply r, d, w)))"
| "call_body cls (Call_Control cmd arg) d w =
     bind_res (fetch cls d op_control) (\<lambda>f. bind_res (f d cmd arg w) (\<lambda>(r, a, d, w). Inr (Reply_Control r a, d, w)))"
| "call_body cls Call_Check d w =
     bind_res (fetch cls d op_check) (\<lambda>f. bind_res (f d w) (\<lambda>(r, d, w). Inr (Reply r, d, w)))"
| "call_body cls (Call_Bind ip port) d w =
     bind_res (fetch cls d op_bind) (\<lambda>f. bind_res (f d ip port w) (\<lambda>(r, d, w). Inr (Reply r, d, w)))"
| "call_body cls (Call_Connect ip port) d w =
     bind_res (fetch cls d op_connect) (\<lambda>f. bind_res (f d ip port w) (\<lambda>(r, d, w). Inr (Reply r, d, w)))"

text \<open>A call that nothing comes between is the function of \<open>Ldal_Device\<close>.\<close>

definition whole_call ::
    "('p, 'w) class_store \<Rightarrow> call \<Rightarrow> 'p ldal_device \<Rightarrow> 'w \<Rightarrow> (reply \<times> 'p ldal_device \<times> 'w) result" where
  "whole_call cls c d w =
     bind_res (mutex_lock d) (\<lambda>d. bind_res (call_body cls c d w) (\<lambda>(r, d, w). Inr (r, mutex_unlock d, w)))"

lemma whole_call_eq:
  "whole_call cls (Call_Read buff len) d w =
     bind_res (read_device cls d buff len w) (\<lambda>(r, b, d, w). Inr (Reply_Read r b, d, w))"
  "whole_call cls (Call_Write buff len) d w = bind_res (write_device cls d buff len w) (\<lambda>(r, d, w). Inr (Reply r, d, w))"
  "whole_call cls (Call_Control cmd arg) d w =
     bind_res (control_device cls d cmd arg w) (\<lambda>(r, a, d, w). Inr (Reply_Control r a, d, w))"
  "whole_call cls Call_Check d w = bind_res (check_status cls d w) (\<lambda>(r, d, w). Inr (Reply r, d, w))"
  "whole_call cls (Call_Bind ip port) d w = bind_res (bind_local_addr cls d ip port w) (\<lambda>(r, d, w). Inr (Reply r, d, w))"
  "whole_call cls (Call_Connect ip port) d w =
     bind_res (connect_server_addr cls d ip port w) (\<lambda>(r, d, w). Inr (Reply r, d, w))"
  by (simp_all add: whole_call_def read_device_def write_device_def control_device_def check_status_def bind_local_addr_def
      connect_server_addr_def bind_res_assoc case_prod_unfold)

section \<open>Threads\<close>

text \<open>Where a thread is, and the calls it has still to make.\<close>

datatype phase = Outside | Locked call | Returning reply

type_synonym thread = "phase \<times> call list"

text \<open>The threads, the device, the world, and the calls whose driver part has run, with their replies.\<close>

type_synonym ('p, 'w) conf = "(nat \<Rightarrow> thread) \<times> 'p ldal_device \<times> 'w \<times> (nat \<times> call \<times> reply) list"

inductive thread_step :: "('p, 'w) class_store \<Rightarrow> ('p, 'w) conf \<Rightarrow> ('p, 'w) conf \<Rightarrow> bool" for cls where
  take_mutex: "th t = (Outside, c # cs) \<Longrightarrow> mutex_lock d = Inr d' \<Longrightarrow>
    thread_step cls (th, d, w, fin) (th(t := (Locked c, cs)), d', w, fin)"
| call_driver: "th t = (Locked c, cs) \<Longrightarrow> call_body cls c d w = Inr (r, d', w') \<Longrightarrow>
    thread_step cls (th, d, w, fin) (th(t := (Returning r, cs)), d', w', fin @ [(t, c, r)])"
| release_mutex: "th t = (Returning r, cs) \<Longrightarrow>
    thread_step cls (th, d, w, fin) (th(t := (Outside, cs)), mutex_unlock d, w, fin)"

text \<open>The same calls one after another.\<close>

fun run_calls ::
    "('p, 'w) class_store \<Rightarrow> call list \<Rightarrow> 'p ldal_device \<Rightarrow> 'w \<Rightarrow> (reply list \<times> 'p ldal_device \<times> 'w) result" where
  "run_calls cls [] d w = Inr ([], d, w)"
| "run_calls cls (c # cs) d w =
     bind_res (whole_call cls c d w) (\<lambda>(r, d, w).
     bind_res (run_calls cls cs d w) (\<lambda>(rs, d, w). Inr (r # rs, d, w)))"

definition calls_of :: "(nat \<times> call \<times> reply) list \<Rightarrow> call list" where
  "calls_of hist = map (\<lambda>(t, c, r). c) hist"

definition replies_of :: "(nat \<times> call \<times> reply) list \<Rightarrow> reply list" where
  "replies_of hist = map (\<lambda>(t, c, r). r) hist"

definition own_calls :: "nat \<Rightarrow> (nat \<times> call \<times> reply) list \<Rightarrow> call list" where
  "own_calls t hist = calls_of (filter (\<lambda>(t', c, r). t' = t) hist)"

definition inside :: "(nat \<Rightarrow> thread) \<Rightarrow> nat \<Rightarrow> bool" where
  "inside th t \<longleftrightarrow> fst (th t) \<noteq> Outside"

lemma bind_res_return [simp]: "bind_res m Inr = m"
  by (cases m) simp_all

lemma run_calls_append:
  "run_calls cls (cs @ cs') d w =
     bind_res (run_calls cls cs d w) (\<lambda>(rs, d, w).
     bind_res (run_calls cls cs' d w) (\<lambda>(rs', d, w). Inr (rs @ rs', d, w)))"
  by (induction cs arbitrary: d w) (simp_all add: bind_res_assoc case_prod_unfold)

lemma log_simps [simp]:
  "calls_of [] = []" "replies_of [] = []" "own_calls t [] = []"
  "calls_of (hist @ hist') = calls_of hist @ calls_of hist'" "replies_of (hist @ hist') = replies_of hist @ replies_of hist'"
  "own_calls t (hist @ hist') = own_calls t hist @ own_calls t hist'"
  "calls_of [(u, c, r)] = [c]" "replies_of [(u, c, r)] = [r]" "own_calls t [(u, c, r)] = (if u = t then [c] else [])"
  by (simp_all add: calls_of_def replies_of_def own_calls_def)

text \<open>The calls whose driver part has not yet run.\<close>

definition pending :: "thread \<Rightarrow> call list" where
  "pending x = (case x of (Locked c, cs) \<Rightarrow> c # cs | (_, cs) \<Rightarrow> cs)"

text \<open>
  The device without its lock is what the finished calls make of it one after another; the mutex is held exactly when a
  thread is inside, which only one can be; and every thread makes its calls in their order.
\<close>

definition orderly ::
    "('p, 'w) device_ops \<Rightarrow> ('p, 'w) class_store \<Rightarrow> 'p ldal_device \<Rightarrow> 'w \<Rightarrow> (nat \<Rightarrow> call list) \<Rightarrow> ('p, 'w) conf \<Rightarrow> bool" where
  "orderly ops cls d0 w0 prog conf \<longleftrightarrow>
     (case conf of (th, d, w, fin) \<Rightarrow>
        has_ops cls d ops \<and>
        run_calls cls (calls_of fin) d0 w0 = Inr (replies_of fin, mutex_unlock d, w) \<and>
        (mutex d \<longleftrightarrow> (\<exists>t. inside th t)) \<and> (\<forall>t u. inside th t \<longrightarrow> inside th u \<longrightarrow> t = u) \<and>
        (\<forall>t. own_calls t fin @ pending (th t) = prog t))"

context driver
begin

lemma call_body_frame:
  assumes "has_ops cls d ops" "call_body cls c d w = Inr (r, d', w')"
  shows "dev_id d' = dev_id d"
  using assms
  by (cases c)
    (auto simp: has_ops_fetch dest: read_frame write_frame control_frame check_frame bind_frame connect_frame split: option.splits)

lemma orderly_start:
  assumes "has_ops cls d ops" "\<not> mutex d" "\<forall>t. fst (th t) = Outside"
  shows "orderly ops cls d w (\<lambda>t. snd (th t)) (th, d, w, [])"
proof -
  have "pending (th t) = snd (th t)" for t
    using assms(3) [THEN spec, of t] by (cases "th t") (simp add: pending_def)
  then show ?thesis
    using assms by (simp add: orderly_def inside_def mutex_unlock_def device_mutex_same)
qed

lemma orderly_step:
  assumes "thread_step cls conf conf'" "orderly ops cls d0 w0 prog conf"
  shows "orderly ops cls d0 w0 prog conf'"
  using assms
proof (cases rule: thread_step.cases)
  case (take_mutex th t c cs d d' w fin)
  note o = assms(2) [unfolded orderly_def take_mutex(1) prod.case]
  have d: "\<not> mutex d" "d' = d\<lparr>mutex := True\<rparr>" using take_mutex(4) by (simp_all add: mutex_lock_Inr)
  then have n: "\<not> inside th u" for u using o by blast
  have h: "has_ops cls d' ops" using o has_ops_class [of d' d cls ops] d(2) by simp
  have i: "inside (th(t := (Locked c, cs))) = (\<lambda>u. u = t)" using n by (auto simp: inside_def fun_eq_iff)
  have "pending ((th(t := (Locked c, cs))) u) = pending (th u)" for u
    using take_mutex(3) by (simp add: pending_def)
  then show ?thesis using o h d i by (simp add: orderly_def take_mutex(2) mutex_unlock_def)
next
  case (call_driver th t c cs d w r d' w' fin)
  note o = assms(2) [unfolded orderly_def call_driver(1) prod.case]
  have "inside th t" using call_driver(3) by (simp add: inside_def)
  then have m: "mutex d" using o by blast
  have f: "dev_id d' = dev_id d" using call_body_frame [OF _ call_driver(4)] o by blast
  then have h: "has_ops cls d' ops" and m': "mutex d'" using o m has_ops_class [of d' d cls ops] by (simp_all add: dev_frame)
  have "mutex_lock (mutex_unlock d) = Inr d" using m by (simp add: mutex_lock_def mutex_unlock_def)
  then have "whole_call cls c (mutex_unlock d) w = Inr (r, mutex_unlock d', w')"
    by (simp add: whole_call_def call_driver(4))
  then have run: "run_calls cls (calls_of (fin @ [(t, c, r)])) d0 w0 =
      Inr (replies_of (fin @ [(t, c, r)]), mutex_unlock d', w')"
    using o by (simp add: run_calls_append)
  have i: "inside (th(t := (Returning r, cs))) u \<longleftrightarrow> inside th u" for u
    using call_driver(3) by (simp add: inside_def)
  have p: "own_calls u (fin @ [(t, c, r)]) @ pending ((th(t := (Returning r, cs))) u) = own_calls u fin @ pending (th u)" for u
    using call_driver(3) by (cases "u = t") (simp_all add: pending_def)
  show ?thesis using o h m m' run unfolding orderly_def call_driver(2) prod.case i p by blast
next
  case (release_mutex th t r cs d w fin)
  note o = assms(2) [unfolded orderly_def release_mutex(1) prod.case]
  have t: "inside th t" using release_mutex(3) by (simp add: inside_def)
  have i: "\<not> inside (th(t := (Outside, cs))) u" for u
    using o t by (auto simp: inside_def)
  have h: "has_ops cls (mutex_unlock d) ops" using o has_ops_class [of "mutex_unlock d" d cls ops] by (simp add: mutex_unlock_def)
  have "pending ((th(t := (Outside, cs))) u) = pending (th u)" for u
    using release_mutex(3) by (simp add: pending_def)
  then show ?thesis using o h i by (simp add: orderly_def release_mutex(2) mutex_unlock_def)
qed

lemma orderly_reachable:
  assumes "(thread_step cls)\<^sup>*\<^sup>* conf conf'" "orderly ops cls d0 w0 prog conf"
  shows "orderly ops cls d0 w0 prog conf'"
  using assms by (induction rule: rtranclp_induct) (blast intro: orderly_step)+

end

lemma thread_progress:
  assumes "mutex d \<longleftrightarrow> (\<exists>t. inside th t)"
  shows "(\<exists>conf. thread_step cls (th, d, w, hist) conf) \<or> (\<forall>t. \<not> inside th t \<and> snd (th t) = []) \<or>
    (\<exists>t c f. fst (th t) = Locked c \<and> call_body cls c d w = Inl f)"
proof (cases "\<exists>t. inside th t")
  case True
  then obtain t p cs where t: "th t = (p, cs)" "p \<noteq> Outside" by (metis inside_def prod.collapse)
  show ?thesis
  proof (cases p)
    case (Locked c)
    show ?thesis
    proof (cases "call_body cls c d w")
      case (Inl f)
      then show ?thesis using t(1) Locked by (metis fst_conv)
    next
      case (Inr x)
      obtain r d' w' where "x = (r, d', w')" by (cases x)
      then show ?thesis using call_driver [of th t c cs cls d w r d' w'] t(1) Locked Inr by blast
    qed
  next
    case (Returning r)
    then show ?thesis using t release_mutex [of th t r cs cls d w hist] by blast
  qed (use t in simp)
next
  case False
  then have m: "mutex_lock d = Inr (d\<lparr>mutex := True\<rparr>)" using assms by (simp add: mutex_lock_def)
  show ?thesis
  proof (cases "\<forall>t. snd (th t) = []")
    case f: False
    then obtain t where "snd (th t) \<noteq> []" by blast
    then obtain c cs where "snd (th t) = c # cs" by (cases "snd (th t)") auto
    moreover have "fst (th t) = Outside" using False by (simp add: inside_def)
    ultimately have "th t = (Outside, c # cs)" by (cases "th t") simp
    from take_mutex [of th t c cs d, OF this m] show ?thesis by (rule disjI1 [OF exI])
  qed (use False in simp)
qed

text \<open>
  Property C9. The mutex of a device makes the calls of several threads behave as if they were made one after another. For every class of LDAL,
  every number of threads and every order in which their steps interleave: the replies and the device are those of the calls
  that have run, made one after another in the order in which the driver ran them; each thread's calls are in its own order; never are two
  threads inside; and unless the driver faults or all is done, some thread can go on.
\<close>
theorem calls_serialised:
  fixes cls :: "(ldal_object, 'w) class_store"
  assumes "has_ops cls d0 (class_table K cid)" "\<not> mutex d0" "\<forall>t. fst (th0 t) = Outside"
    "(thread_step cls)\<^sup>*\<^sup>* (th0, d0, w0, []) (th, d, w, hist)"
  shows "run_calls cls (calls_of hist) d0 w0 = Inr (replies_of hist, mutex_unlock d, w) \<and>
    (\<forall>t. own_calls t hist @ pending (th t) = snd (th0 t)) \<and>
    (\<forall>t u. \<not> (inside th t \<and> inside th u \<and> t \<noteq> u)) \<and>
    ((\<exists>conf. thread_step cls (th, d, w, hist) conf) \<or> (\<forall>t. \<not> inside th t \<and> snd (th t) = []) \<or>
     (\<exists>t c f. fst (th t) = Locked c \<and> call_body cls c d w = Inl f))"
proof -
  have "orderly (class_table K cid) cls d0 w0 (\<lambda>t. snd (th0 t)) (th, d, w, hist)"
    by (rule class_drv.orderly_reachable [OF assms(4) class_drv.orderly_start [OF assms(1-3)]])
  then have o: "run_calls cls (calls_of hist) d0 w0 = Inr (replies_of hist, mutex_unlock d, w)"
    "mutex d \<longleftrightarrow> (\<exists>t. inside th t)" "\<forall>t u. inside th t \<longrightarrow> inside th u \<longrightarrow> t = u"
    "\<forall>t. own_calls t hist @ pending (th t) = snd (th0 t)" by (simp_all add: orderly_def)
  from o(1,3,4) thread_progress [OF o(2), of cls w hist] show ?thesis by blast
qed

section \<open>Starting a device from two threads\<close>

text \<open>
  \<open>startup_device\<close> step by step: the tests, the call of the driver's \<open>open\<close>, and the counting. Taking no mutex, it can be
  interrupted between them.
\<close>

datatype startup_phase = Starting | Opening | Opened int | Started int

inductive startup_step ::
    "('p, 'w) class_store \<Rightarrow> (nat \<Rightarrow> startup_phase) \<times> 'p ldal_device \<times> 'w \<Rightarrow> (nat \<Rightarrow> startup_phase) \<times> 'p ldal_device \<times> 'w \<Rightarrow> bool"
  for cls where
  not_ready: "th t = Starting \<Longrightarrow> \<not> is_init d \<Longrightarrow> startup_step cls (th, d, w) (th(t := Started (- LDAL_ERROR)), d, w)"
| in_use: "th t = Starting \<Longrightarrow> is_init d \<Longrightarrow> 0 < ref d \<Longrightarrow>
    startup_step cls (th, d, w) (th(t := Started LDAL_EOK), d\<lparr>ref := ref d + 1\<rparr>, w)"
| unused: "th t = Starting \<Longrightarrow> is_init d \<Longrightarrow> \<not> 0 < ref d \<Longrightarrow> startup_step cls (th, d, w) (th(t := Opening), d, w)"
| opens: "th t = Opening \<Longrightarrow> fetch cls d op_open = Inr f \<Longrightarrow> f d w = Inr (r, d', w') \<Longrightarrow>
    startup_step cls (th, d, w) (th(t := Opened r), d', w')"
| counts: "th t = Opened r \<Longrightarrow>
    startup_step cls (th, d, w) (th(t := Started LDAL_EOK), if r = LDAL_EOK then d\<lparr>ref := ref d + 1\<rparr> else d, w)"

text \<open>The steps of one thread that is not interrupted are the function.\<close>

lemma startup_alone:
  assumes "startup_device cls d w = Inr (r, d', w')" "th t = Starting"
  shows "(startup_step cls)\<^sup>*\<^sup>* (th, d, w) (th(t := Started r), d', w')"
proof (cases "is_init d \<and> \<not> 0 < ref d")
  case True
  then obtain f r1 d1 where f: "fetch cls d op_open = Inr f" "f d w = Inr (r1, d1, w')"
    and r: "r = LDAL_EOK" "d' = (if r1 = LDAL_EOK then d1\<lparr>ref := ref d1 + 1\<rparr> else d1)"
    using assms(1) by (auto simp: startup_device_def split: if_splits)
  have "startup_step cls (th, d, w) (th(t := Opening), d, w)"
    using True by (intro unused assms(2)) simp_all
  moreover have "startup_step cls (th(t := Opening), d, w) ((th(t := Opening))(t := Opened r1), d1, w')"
    by (rule opens [OF _ f]) simp
  moreover have "startup_step cls ((th(t := Opening))(t := Opened r1), d1, w')
      ((th(t := Opening, t := Opened r1))(t := Started LDAL_EOK), if r1 = LDAL_EOK then d1\<lparr>ref := ref d1 + 1\<rparr> else d1, w')"
    by (rule counts) simp
  ultimately show ?thesis unfolding r by (simp add: fun_upd_upd)
next
  case False
  then have "startup_step cls (th, d, w) (th(t := Started r), d', w')"
    using assms not_ready [of th t d cls w] in_use [of th t d cls w]
    by (auto simp: startup_device_def split: if_splits)
  then show ?thesis by blast
qed

text \<open>
  Property C10. Starting a device from two threads can lose a descriptor. When both threads find a GPIO device unused before either has
  counted itself, both open it and both are told that it is started; the second descriptor overwrites the first, so that the two stops that
  follow close the second one only.
\<close>
theorem startup_race:
  fixes d :: "'p ldal_device" and K :: "'w kernel"
  assumes "has_ops cls d (gpio_device_ops K)" "is_init d" "ref d = 0" "read_cstr (filename d) = Inr path"
    "k_open K path O_RDWR 0 w = (h1, w1)" "0 \<le> h1" "k_open K path O_RDWR 0 w1 = (h2, w2)" "0 \<le> h2"
  shows "(startup_step cls)\<^sup>*\<^sup>* ((\<lambda>_. Starting), d, w)
      ((\<lambda>_. Starting)(0 := Started LDAL_EOK, 1 := Started LDAL_EOK), d\<lparr>fd := h2, ref := 2\<rparr>, w2) \<and>
    run_sessions cls [False, False] (d\<lparr>fd := h2, ref := 2\<rparr>) w2 =
      Inr ([LDAL_EOK, LDAL_EOK], d\<lparr>fd := h2, ref := 0\<rparr>, snd (k_close K h2 w2))"
proof
  have f: "fetch cls (d\<lparr>fd := h\<rparr>) op_open = Inr (gpio_open K)" "fetch cls (d\<lparr>fd := h\<rparr>) op_close = Inr (gpio_close K)"
    for h
    using assms(1) has_ops_class [of "d\<lparr>fd := h\<rparr>" d cls]
    by (simp_all add: has_ops_fetch gpio_device_ops_def)
  have p: "\<not> h1 < 0" "\<not> h2 < 0" using assms(6,8) by simp_all
  let ?S = "(\<lambda>_. Starting) :: nat \<Rightarrow> startup_phase"
  have a: "startup_step cls (?S, d, w) (?S(0 := Opening), d, w)" by (rule unused) (simp_all add: assms)
  have b: "startup_step cls (?S(0 := Opening), d, w) (?S(0 := Opening, 1 := Opening), d, w)" by (rule unused) (simp_all add: assms)
  have 1: "(startup_step cls)\<^sup>*\<^sup>* (?S, d, w) (?S(0 := Opening, 1 := Opening), d, w)"
    by (rule rtranclp.rtrancl_into_rtrancl [OF r_into_rtranclp [of "startup_step cls", OF a] b])
  have 2: "startup_step cls (?S(0 := Opening, 1 := Opening), d, w) ((?S(0 := Opening, 1 := Opening))(0 := Opened LDAL_EOK), d\<lparr>fd := h1\<rparr>, w1)"
    by (rule opens [OF _ f(1) [of "fd d", simplified]]) (simp_all add: gpio_open_def assms(4,5,7) p Let_def)
  have 3: "startup_step cls ((?S(0 := Opening, 1 := Opening))(0 := Opened LDAL_EOK), d\<lparr>fd := h1\<rparr>, w1)
      ((?S(0 := Opening, 1 := Opening, 0 := Opened LDAL_EOK))(1 := Opened LDAL_EOK), d\<lparr>fd := h2\<rparr>, w2)"
    by (rule opens [OF _ f(1) [of h1]]) (simp_all add: gpio_open_def assms(4,5,7) p Let_def)
  have 4: "startup_step cls ((?S(0 := Opening, 1 := Opening, 0 := Opened LDAL_EOK))(1 := Opened LDAL_EOK), d\<lparr>fd := h2\<rparr>, w2)
      (?S(0 := Started LDAL_EOK, 1 := Opened LDAL_EOK), d\<lparr>fd := h2, ref := 1\<rparr>, w2)"
    using counts [of "(?S(0 := Opening, 1 := Opening, 0 := Opened LDAL_EOK))(1 := Opened LDAL_EOK)" 0 LDAL_EOK cls "d\<lparr>fd := h2\<rparr>" w2]
    by (simp add: assms fun_upd_twist)
  have 5: "startup_step cls (?S(0 := Started LDAL_EOK, 1 := Opened LDAL_EOK), d\<lparr>fd := h2, ref := 1\<rparr>, w2)
      (?S(0 := Started LDAL_EOK, 1 := Started LDAL_EOK), d\<lparr>fd := h2, ref := 2\<rparr>, w2)"
    using counts [of "?S(0 := Started LDAL_EOK, 1 := Opened LDAL_EOK)" 1 LDAL_EOK cls "d\<lparr>fd := h2, ref := 1\<rparr>" w2]
    by simp
  show "(startup_step cls)\<^sup>*\<^sup>* (?S, d, w) (?S(0 := Started LDAL_EOK, 1 := Started LDAL_EOK), d\<lparr>fd := h2, ref := 2\<rparr>, w2)"
    by (rule rtranclp.rtrancl_into_rtrancl, rule rtranclp.rtrancl_into_rtrancl, rule rtranclp.rtrancl_into_rtrancl,
        rule rtranclp.rtrancl_into_rtrancl, rule 1, rule 2, rule 3, rule 4, rule 5)
  show "run_sessions cls [False, False] (d\<lparr>fd := h2, ref := 2\<rparr>) w2 =
      Inr ([LDAL_EOK, LDAL_EOK], d\<lparr>fd := h2, ref := 0\<rparr>, snd (k_close K h2 w2))"
    using assms(2) by (simp add: stop_device_def f gpio_close_def case_prod_unfold Let_def)
qed

section \<open>Examples\<close>

lemma calls_serialised_witness:
  "\<exists>th. (thread_step (single_class (class_table sample_kernel LDAL_CLASS_GPIO)))\<^sup>*\<^sup>*
       ((\<lambda>t. (Outside, [Call_Write (Some [of_nat t]) 1])), fresh_device ''led'' ''/dev/led'' Gpio_Object, 0, [])
       (th, (fresh_device ''led'' ''/dev/led'' Gpio_Object)\<lparr>mutex := True\<rparr>, 1, [(7, Call_Write (Some [7]) 1, Reply 0)]) \<and>
     run_calls (single_class (class_table sample_kernel LDAL_CLASS_GPIO)) [Call_Write (Some [7]) 1]
       (fresh_device ''led'' ''/dev/led'' Gpio_Object) 0 =
       Inr ([Reply 0], fresh_device ''led'' ''/dev/led'' Gpio_Object, 1)"
proof -
  let ?cls = "single_class (class_table sample_kernel LDAL_CLASS_GPIO)"
  let ?d = "fresh_device ''led'' ''/dev/led'' Gpio_Object"
  let ?th = "\<lambda>t :: nat. (Outside, [Call_Write (Some [of_nat t]) 1])"
  let ?c = "Call_Write (Some [7]) 1"
  let ?th1 = "?th(7 := (Locked ?c, []))"
  let ?th2 = "?th1(7 := (Returning (Reply 0), []))"
  have s1: "thread_step ?cls (?th, ?d, 0, []) (?th1, ?d\<lparr>mutex := True\<rparr>, 0, [])"
    by (rule take_mutex) (simp_all add: mutex_lock_def)
  have f: "fetch ?cls ?d op_write = Inr (gpio_write sample_kernel)"
    using has_ops_fetch [OF fresh_device_simps(6) [of "class_table sample_kernel LDAL_CLASS_GPIO" "''led''" "''/dev/led''" Gpio_Object],
        of op_write] by (simp add: gpio_device_ops_def)
  have gw: "gpio_write sample_kernel e (Some [7]) 1 0 = Inr (0, e, 1)" for e :: "ldal_object ldal_device"
    by (simp add: gpio_write_def sys_write_def sample_kernel_def)
  have "call_body ?cls ?c (?d\<lparr>mutex := True\<rparr>) 0 = Inr (Reply 0, ?d\<lparr>mutex := True\<rparr>, 1)"
    using f gw [of "?d\<lparr>mutex := True\<rparr>"] by (simp del: class_table.simps)
  then have s2: "thread_step ?cls (?th1, ?d\<lparr>mutex := True\<rparr>, 0, []) (?th2, ?d\<lparr>mutex := True\<rparr>, 1, [] @ [(7, ?c, Reply 0)])"
    by (rule call_driver [rotated]) simp
  have s: "(thread_step ?cls)\<^sup>*\<^sup>* (?th, ?d, 0, []) (?th2, ?d\<lparr>mutex := True\<rparr>, 1, [(7, ?c, Reply 0)])"
    by (rule rtranclp.rtrancl_into_rtrancl, rule r_into_rtranclp, rule s1, rule s2 [unfolded append_Nil])
  have "run_calls ?cls [?c] ?d 0 = Inr ([Reply 0], mutex_unlock (?d\<lparr>mutex := True\<rparr>), 1)"
    using calls_serialised [OF fresh_device_simps(6) fresh_device_simps(4) _ s] by simp
  moreover have "mutex_unlock (?d\<lparr>mutex := True\<rparr>) = ?d" by (simp add: mutex_unlock_def fresh_device_def)
  ultimately show ?thesis using s by auto
qed

lemma startup_race_witness:
  "(startup_step (single_class (gpio_device_ops sample_kernel)))\<^sup>*\<^sup>* ((\<lambda>_. Starting), fresh_device ''led'' ''/dev/led'' (), 0)
     ((\<lambda>_. Starting)(0 := Started LDAL_EOK, 1 := Started LDAL_EOK), (fresh_device ''led'' ''/dev/led'' ())\<lparr>fd := 3, ref := 2\<rparr>, 2)"
proof -
  have p: "read_cstr (filename (fresh_device ''led'' ''/dev/led'' ())) = Inr ''/dev/led''"
    by (rule fresh_device_path) (simp_all add: NUL_def)
  have k: "k_open sample_kernel ''/dev/led'' O_RDWR 0 w = (3, Suc w)" for w by (simp add: sample_kernel_def)
  from startup_race [OF fresh_device_simps(6,2,3) p k _ k, THEN conjunct1] show ?thesis by (simp add: numeral_2_eq_2)
qed

end
