(* ===== verification/Spec2Isabelle.thy ===== *)
theory Spec2Isabelle
  imports Ring_Buffer Fd_Drivers Memory_Driver Rtc_Driver Tcp_Driver Udp_Driver Serial_Driver Backlight_Driver Analog_Driver
    Me_Driver Ldal_Classes Server Netdev Threads
begin

text \<open>
  A verification development for LDAL, the Linux device abstraction layer: a C library that puts serial ports,
  sockets, GPIO lines, analog inputs, clocks, backlights, modems and memory buffers behind one interface of eight
  operations, keeps the devices and their classes in global lists, and serves them over JSON-RPC.

  \<^bold>\<open>How the program is put together.\<close> A caller registers device classes and devices (\<open>src/ldal.c\<close>), finds a
  device by its name or type, and calls \<open>startup_device\<close>, \<open>read_device\<close> and so on. Each of these takes the
  device's mutex, looks the operation up in the table of the device's class and calls the driver
  (\<open>src/class/ldal_*.c\<close>). The drivers make the system calls; the memory driver uses the ring buffer, the
  modem driver the AT client on top of a serial port. Devices live in intrusive lists (\<open>inc/list.h\<close>). A second
  thread runs the JSON-RPC server (\<open>src/server.c\<close> on \<open>src/jsonrpc-c.c\<close> on \<open>src/cJSON.c\<close>).

  \<^bold>\<open>Conventions.\<close> Every C function is a HOL function of the same name on explicit states. What would be a failed
  assertion, an access out of bounds, a null or freed pointer, a signed overflow or a call that never returns
  is \<open>Inl\<close> of a \<open>fault\<close> (theory \<open>Ldal_Prelude\<close>); an error code is an ordinary result. The operating system is
  the record \<open>kernel\<close> of theory \<open>Kernel\<close>, one function per system call on a world of any type, so that the theorems
  hold for every behaviour of the system calls except where a hypothesis states one. Machine integers
  are words or are bounded where they are computed; \<open>float\<close> and \<open>double\<close> are rationals rounded as IEEE 754
  says (theory \<open>Float32\<close>). C strings and buffers are character lists with their terminator (theory \<open>C_String\<close>).

  \<^bold>\<open>Theories.\<close>
  \<^item> \<open>Byte_Queue\<close>: the interface of a bounded queue of bytes, as a locale; \<open>Ring_Buffer\<close> (\<open>src/ringbuffer.c\<close>)
    interprets it and shows that every operation is the one on the queue, wrap-around included.
  \<^item> \<open>List_Head\<close> (\<open>inc/list.h\<close>): the linked lists on a store of nodes, and the list of elements they represent.
  \<^item> \<open>Ldal_Device\<close> (\<open>inc/ldal.h\<close>, the first half of \<open>src/ldal.c\<close>): the device object, the dispatch under the mutex,
    the reference count, and the locale \<open>driver\<close> that every class interprets.
  \<^item> \<open>Ldal_Registry\<close> (the second half of \<open>src/ldal.c\<close>): classes and devices, lookup, registration and removal;
    \<open>Ldal_Classes\<close>: the structures of the twelve classes, the creation of a device and of a table of devices.
  \<^item> \<open>Fd_Drivers\<close>, \<open>Memory_Driver\<close>, \<open>Rtc_Driver\<close>, \<open>Tcp_Driver\<close>, \<open>Udp_Driver\<close> (with \<open>Endpoint\<close>), \<open>Serial_Driver\<close>,
    \<open>Backlight_Driver\<close>, \<open>Analog_Driver\<close>, \<open>Me_Driver\<close>: the classes of \<open>src/class\<close>; \<open>At_Client\<close>: \<open>src/at.c\<close>.
  \<^item> \<open>Cjson\<close>: the JSON library \<open>src/cJSON.c\<close>; \<open>Cjson_Text\<close>: trees and their texts. \<open>Json_Rpc\<close> (\<open>src/jsonrpc-c.c\<close>): the
    server, from the bytes of a connection to the call of a procedure and its answer; \<open>Server\<close> (\<open>src/server.c\<close>): the eight
    procedures, from a request for one of them to the devices of the registry, and the thread that serves them.
  \<^item> \<open>Threads\<close>: several threads on one device, the steps of whose calls interleave.
  \<^item> \<open>Netdev\<close> (\<open>src/netdev.c\<close>): the settings of a network interface.
  \<^item> This theory: properties of several components together.

  \<^bold>\<open>What is shown.\<close> Data structures refine their abstract counterparts (ring buffer and memory device to a queue, the
  registry to a list of devices, responses to a list of lines); states keep their invariants over every
  sequence of calls; values survive round trips (clock, serial options, addresses in file names, brightness,
  calibration, hardware addresses, JSON texts); a request is followed from the bytes of a connection through the parser, the table of
  procedures and a procedure to the bytes of the answer; each outcome of a call is named, the failing ones included; and several theorems state where the
  program departs from its documentation.

  \<^bold>\<open>Bounds and fuel.\<close> Traversals of linked lists are \<open>partial_function (option)\<close> and shown to end on well-formed
  lists. The loops that wait for the kernel (the five reads of the serial port) have the bounds of the code. The
  JSON parser takes fuel for its recursion, and the amount its entry points give is shown to be enough.

  \<^bold>\<open>Not modelled.\<close> Output with \<open>printf\<close> and the debug macros, but for the list of devices; the memory leaks of discarded objects, and in the JSON
  library the branches for a failed allocation; the vendored declarations of libev, whose loop is the relation \<open>serve_step\<close> on
  connections and a parameter of the server's thread; command line tools and tests, which are I/O only; the AT parser thread, which the
  code compiles out. Interleaving is modelled for the calls on one device and for its startup; on the registry and the
  server a lock is its state in one thread.
\<close>

section \<open>Properties across components\<close>

text \<open>
  Property C33. Nested sessions on a device whose driver is one of the descriptor drivers or the clock: any
  number of \<open>startup_device\<close> calls up to 65535 followed by as many \<open>stop_device\<close> calls opens the device once,
  at the first startup, and closes it once, at the last stop; every other call only counts.
\<close>
theorem nested_sessions:
  fixes K :: "'w kernel" and d :: "'p ldal_device"
  assumes "ops \<in> set [file_device_ops K, gpio_device_ops K, digital_device_ops K, misc_device_ops K,
      rtc_device_ops K]"
    and "has_ops cls d ops" "op_open ops = Some f" "op_close ops = Some g"
    and "is_init d" "ref d = 0" "n < 65535" "f d w = Inr (LDAL_EOK, d1, w1)"
  shows "run_sessions cls (replicate (Suc n) True @ replicate (Suc n) False) d w =
    bind_res (g d1 w1) (\<lambda>(r, d2, w2).
      Inr (replicate (Suc n) LDAL_EOK @ replicate n LDAL_EOK @ [r], d2, w2))"
proof -
  have "driver ops"
    using assms(1) file_drv.driver_axioms gpio_drv.driver_axioms digital_drv.driver_axioms
      misc_drv.driver_axioms rtc_drv.driver_axioms by auto
  from driver.nested [OF this assms(2-6) _ assms(8)] assms(7) show ?thesis by simp
qed

lemma nested_sessions_witness:
  "run_sessions (single_class (gpio_device_ops sample_kernel)) (replicate 3 True @ replicate 3 False)
     (fresh_device ''led'' ''/dev/led'' ()) 0 =
   Inr (replicate 6 0, (fresh_device ''led'' ''/dev/led'' ())\<lparr>fd := 3\<rparr>, 2)"
proof -
  define d where "d = fresh_device ''led'' ''/dev/led'' ()"
  have p: "read_cstr (filename d) = Inr ''/dev/led''"
    unfolding d_def by (rule fresh_device_path) (simp_all add: NUL_def)
  have o: "gpio_open sample_kernel d 0 = Inr (LDAL_EOK, d\<lparr>fd := 3\<rparr>, 1)"
    by (simp add: gpio_open_def p sample_kernel_def)
  have ops: "has_ops (single_class (gpio_device_ops sample_kernel)) d (gpio_device_ops sample_kernel)"
    "is_init d" "ref d = 0" by (simp_all add: d_def)
  have t: "op_open (gpio_device_ops sample_kernel) = Some (gpio_open sample_kernel)"
    "op_close (gpio_device_ops sample_kernel) = Some (gpio_close sample_kernel)"
    by (simp_all add: gpio_device_ops_def no_ops_def)
  have s: "Suc 2 = 3" by simp
  show ?thesis
    using nested_sessions [OF _ ops(1) t ops(2,3) _ o, of sample_kernel 2] unfolding d_def [symmetric] s
    by (simp add: gpio_close_def sample_kernel_def eval_nat_numeral)
qed

text \<open>
  Property C37. No sequence of calls on a TCP device changes its name, its class, whether it is initialised
  or whether it has its data, and no call that returns leaves the device's mutex held.
\<close>
theorem tcp_identity:
  fixes K :: "'w kernel"
  assumes "(api_step cls)\<^sup>*\<^sup>* (d, w) (d', w')" "has_ops cls d (tcp_device_ops K)"
  shows "name d' = name d \<and> is_init d' = is_init d \<and> dclass d' = dclass d \<and>
    (user_data d' = None) = (user_data d = None) \<and> (mutex d' \<longrightarrow> mutex d)"
  by (rule tcp_drv.reachable_frame [OF assms])

lemma tcp_identity_witness:
  "\<exists>d'. (api_step (single_class (tcp_device_ops sample_kernel)))\<^sup>*\<^sup>*
      (fresh_device ''net'' ''10.0.0.1:80'' fresh_link, 0) (d', 1) \<and> \<not> mutex d'"
proof -
  have "write_device (single_class (tcp_device_ops sample_kernel))
      (fresh_device ''net'' ''10.0.0.1:80'' fresh_link) (Some [1]) 1 0 =
      Inr (1, fresh_device ''net'' ''10.0.0.1:80'' fresh_link, 1)"
    by (simp add: write_device_def mutex_lock_def has_ops_fetch [OF fresh_device_simps(6)] mutex_unlock_def
        tcp_write_def sample_kernel_def device_mutex_same)
  then have "api_step (single_class (tcp_device_ops sample_kernel))
      (fresh_device ''net'' ''10.0.0.1:80'' fresh_link, 0) (fresh_device ''net'' ''10.0.0.1:80'' fresh_link, 1)"
    by (rule api_write)
  then have s: "(api_step (single_class (tcp_device_ops sample_kernel)))\<^sup>*\<^sup>*
      (fresh_device ''net'' ''10.0.0.1:80'' fresh_link, 0) (fresh_device ''net'' ''10.0.0.1:80'' fresh_link, 1)"
    by (rule r_into_rtranclp)
  from s tcp_identity [OF s fresh_device_simps(6)] show ?thesis by auto
qed

text \<open>
  The reference count has 16 bits: starting a device that is in use 65535 times succeeds and
  makes it look stopped, so that the next startup opens it again and its descriptor is lost.
\<close>
theorem startup_count_wraps:
  fixes K :: "'w kernel" and d :: "'p ldal_device"
  assumes "has_ops cls d (gpio_device_ops K)" "is_init d" "ref d = 65535"
    "read_cstr (filename d) = Inr path" "k_open K path O_RDWR 0 w = (h, w1)" "0 \<le> h"
  shows "startup_device cls d w = Inr (LDAL_EOK, d\<lparr>ref := 0\<rparr>, w) \<and>
    startup_device cls (d\<lparr>ref := 0\<rparr>) w = Inr (LDAL_EOK, d\<lparr>ref := 1, fd := h\<rparr>, w1)"
proof -
  have "has_ops cls (d\<lparr>ref := 0\<rparr>) (gpio_device_ops K)"
    using assms(1) has_ops_class [of "d\<lparr>ref := 0\<rparr>" d cls "gpio_device_ops K"] by simp
  then show ?thesis
    using startup_wraps [of d cls w] gpio_drv.open_device [of cls "d\<lparr>ref := 0\<rparr>" K path w h w1] assms
    by simp
qed

lemma startup_count_wraps_witness:
  "startup_device (single_class (gpio_device_ops sample_kernel))
     ((fresh_device ''led'' ''/dev/led'' ())\<lparr>ref := 65535\<rparr>) 0 =
   Inr (LDAL_EOK, (fresh_device ''led'' ''/dev/led'' ())\<lparr>ref := 0\<rparr>, 0)"
proof -
  define d where "d = (fresh_device ''led'' ''/dev/led'' ())\<lparr>ref := 65535\<rparr>"
  have "has_ops (single_class (gpio_device_ops sample_kernel)) d (gpio_device_ops sample_kernel)"
    using has_ops_class [of d "fresh_device ''led'' ''/dev/led'' ()"
        "single_class (gpio_device_ops sample_kernel)"] by (simp add: d_def)
  moreover have "read_cstr (filename d) = Inr ''/dev/led''"
    using fresh_device_path [of "''/dev/led''" "''led''" "()"] by (simp add: d_def NUL_def)
  ultimately show ?thesis
    using startup_count_wraps [of "single_class (gpio_device_ops sample_kernel)" d sample_kernel
        "''/dev/led''" 0 3 1]
    unfolding d_def [symmetric] by (simp add: d_def sample_kernel_def)
qed

end
